(* ===== verification/Prelude.thy ===== *)
theory Prelude
  imports Main "HOL-Library.Word"
begin

text \<open>
  Shared vocabulary of the Ferroada development.

  \<^item> Type synonyms for Rust's fixed-width integers and for byte strings.
  \<^item> Rust's \<open>Result\<close> as a sum (\<open>Inl\<close> is \<open>Err\<close>), with the \<open>?\<close> operator as
    \<open>result_bind\<close> and \<open>collect::<Result<Vec<_>, _>>()\<close> as \<open>collect_results\<close>.
  \<^item> The string functions of Rust's standard library that the program calls. A Rust
    \<open>str\<close> is modelled by its UTF-8 bytes, a \<open>string\<close> whose characters are bytes, so
    \<open>length\<close> is \<open>str::len\<close>.
  \<^item> Unsigned decimal parsing and printing.
  \<^item> The rule collections \<open>rust_str\<close> (string functions) and \<open>gate_defs\<close> (definitions
    that a decision procedure unfolds).
\<close>

named_theorems rust_str \<open>equations of the string functions\<close>
named_theorems gate_defs \<open>definitions unfolded by the proofs about decisions\<close>

type_synonym u8 = "8 word"
type_synonym u16 = "16 word"
type_synonym u32 = "32 word"
type_synonym u64 = "64 word"
type_synonym u128 = "128 word"
type_synonym bytes = "u8 list"

section \<open>Results\<close>

type_synonym ('e, 'a) result = "'e + 'a"

abbreviation Ok :: "'a \<Rightarrow> ('e, 'a) result" where
  "Ok \<equiv> Inr"

abbreviation Err :: "'e \<Rightarrow> ('e, 'a) result" where
  "Err \<equiv> Inl"

definition result_bind :: "('e, 'a) result \<Rightarrow> ('a \<Rightarrow> ('e, 'b) result) \<Rightarrow> ('e, 'b) result" where
  "result_bind r f = (case r of Inl e \<Rightarrow> Inl e | Inr a \<Rightarrow> f a)"

lemma result_bind_simps [simp]:
  "result_bind (Err e) f = Err e"
  "result_bind (Ok a) f = f a"
  by (simp_all add: result_bind_def)

lemma result_bind_eq_Ok [simp]:
  "result_bind r f = Ok b \<longleftrightarrow> (\<exists>a. r = Ok a \<and> f a = Ok b)"
  by (cases r) simp_all

primrec collect_results :: "('a \<Rightarrow> ('e, 'b) result) \<Rightarrow> 'a list \<Rightarrow> ('e, 'b list) result" where
  "collect_results f [] = Ok []"
| "collect_results f (x # xs) =
     result_bind (f x) (\<lambda>y. result_bind (collect_results f xs) (\<lambda>ys. Ok (y # ys)))"

lemma collect_results_Ok_iff:
  "collect_results f xs = Ok ys \<longleftrightarrow> list_all2 (\<lambda>x y. f x = Ok y) xs ys"
  by (induction xs arbitrary: ys) (auto simp: list_all2_Cons1)

section \<open>Options\<close>

definition opt_filter :: "('a \<Rightarrow> bool) \<Rightarrow> 'a option \<Rightarrow> 'a option" where
  "opt_filter p x = (case x of Some a \<Rightarrow> if p a then Some a else None | None \<Rightarrow> None)"

definition opt_or :: "'a option \<Rightarrow> 'a option \<Rightarrow> 'a option" where
  "opt_or x y = (case x of Some a \<Rightarrow> Some a | None \<Rightarrow> y)"

definition unwrap_or :: "'a option \<Rightarrow> 'a \<Rightarrow> 'a" where
  "unwrap_or x d = (case x of Some a \<Rightarrow> a | None \<Rightarrow> d)"

lemma opt_filter_simps [simp]:
  "opt_filter p None = None"
  "opt_filter p (Some a) = (if p a then Some a else None)"
  by (simp_all add: opt_filter_def)

lemma opt_filter_eq_Some [simp]: "opt_filter p x = Some a \<longleftrightarrow> x = Some a \<and> p a"
  by (cases x) auto

lemma opt_or_simps [simp]: "opt_or None y = y" "opt_or (Some a) y = Some a"
  by (simp_all add: opt_or_def)

lemma opt_or_None: "opt_or x y = None \<longleftrightarrow> x = None \<and> y = None"
  by (cases x) simp_all

lemma unwrap_or_simps [simp]: "unwrap_or None d = d" "unwrap_or (Some a) d = a"
  by (simp_all add: unwrap_or_def)

section \<open>Characters\<close>

abbreviation byte_of :: "char \<Rightarrow> nat" where
  "byte_of c \<equiv> of_char c"

definition is_ascii_digit :: "char \<Rightarrow> bool" where
  "is_ascii_digit c \<longleftrightarrow> 48 \<le> byte_of c \<and> byte_of c \<le> 57"

definition is_ascii_alphabetic :: "char \<Rightarrow> bool" where
  "is_ascii_alphabetic c \<longleftrightarrow>
     65 \<le> byte_of c \<and> byte_of c \<le> 90 \<or> 97 \<le> byte_of c \<and> byte_of c \<le> 122"

definition is_ascii_alphanumeric :: "char \<Rightarrow> bool" where
  "is_ascii_alphanumeric c \<longleftrightarrow> is_ascii_digit c \<or> is_ascii_alphabetic c"

definition is_ascii :: "char \<Rightarrow> bool" where
  "is_ascii c \<longleftrightarrow> byte_of c < 128"

definition ascii_lower :: "char \<Rightarrow> char" where
  "ascii_lower c = (if 65 \<le> byte_of c \<and> byte_of c \<le> 90 then char_of (byte_of c + 32) else c)"

definition to_ascii_lowercase :: "string \<Rightarrow> string" where
  "to_ascii_lowercase s = map ascii_lower s"

definition to_ascii_uppercase :: "string \<Rightarrow> string" where
  "to_ascii_uppercase s = map (\<lambda>c. if 97 \<le> byte_of c \<and> byte_of c \<le> 122 then char_of (byte_of c - 32) else c) s"

definition is_ascii_whitespace :: "char \<Rightarrow> bool" where
  "is_ascii_whitespace c \<longleftrightarrow> byte_of c \<in> {9, 10, 12, 13, 32}"

definition eq_ignore_ascii_case :: "string \<Rightarrow> string \<Rightarrow> bool" where
  "eq_ignore_ascii_case a b \<longleftrightarrow> to_ascii_lowercase a = to_ascii_lowercase b"

text \<open>\<open>char::to_digit\<close> for radix 10 and 16.\<close>

definition to_digit :: "nat \<Rightarrow> char \<Rightarrow> nat option" where
  "to_digit radix c =
     (let b = byte_of c;
          v = (if 48 \<le> b \<and> b \<le> 57 then Some (b - 48)
               else if 97 \<le> b \<and> b \<le> 122 then Some (b - 87)
               else if 65 \<le> b \<and> b \<le> 90 then Some (b - 55)
               else None)
      in opt_filter (\<lambda>d. d < radix) v)"

lemma byte_of_char_of [simp]: "n < 256 \<Longrightarrow> byte_of (char_of n) = n"
  by (simp add: of_char_of)

lemma byte_of_less [simp]: "byte_of c < 256"
proof -
  have "byte_of c mod 256 = byte_of c" by (rule of_char_mod_256)
  then show ?thesis by (metis mod_less_divisor zero_less_numeral)
qed

lemma ascii_lower_idem [simp]: "ascii_lower (ascii_lower c) = ascii_lower c"
  by (simp add: ascii_lower_def)

lemma to_ascii_lowercase_idem [simp]:
  "to_ascii_lowercase (to_ascii_lowercase s) = to_ascii_lowercase s"
  by (simp add: to_ascii_lowercase_def)

lemma length_to_ascii_lowercase [simp]: "length (to_ascii_lowercase s) = length s"
  by (simp add: to_ascii_lowercase_def)

lemma eq_ignore_ascii_case_refl [simp]: "eq_ignore_ascii_case s s"
  by (simp add: eq_ignore_ascii_case_def)

lemma to_digit_less: "to_digit r c = Some d \<Longrightarrow> d < r"
  by (simp add: to_digit_def Let_def)

section \<open>Prefixes, suffixes, substrings\<close>

definition starts_with :: "'a list \<Rightarrow> 'a list \<Rightarrow> bool" where
  "starts_with s p \<longleftrightarrow> take (length p) s = p"

definition ends_with :: "'a list \<Rightarrow> 'a list \<Rightarrow> bool" where
  "ends_with s p \<longleftrightarrow> starts_with (rev s) (rev p)"

definition strip_prefix :: "'a list \<Rightarrow> 'a list \<Rightarrow> 'a list option" where
  "strip_prefix s p = (if starts_with s p then Some (drop (length p) s) else None)"

definition strip_suffix :: "'a list \<Rightarrow> 'a list \<Rightarrow> 'a list option" where
  "strip_suffix s p = map_option rev (strip_prefix (rev s) (rev p))"

primrec str_contains :: "'a list \<Rightarrow> 'a list \<Rightarrow> bool" where
  "str_contains [] p = (p = [])"
| "str_contains (x # xs) p = (starts_with (x # xs) p \<or> str_contains xs p)"

text \<open>Index of the first element equal to \<open>c\<close> (\<open>str::find\<close> on a character).\<close>

primrec find_char :: "'a \<Rightarrow> 'a list \<Rightarrow> nat option" where
  "find_char c [] = None"
| "find_char c (x # xs) = (if x = c then Some 0 else map_option Suc (find_char c xs))"

lemma starts_with_iff: "starts_with s p \<longleftrightarrow> (\<exists>r. s = p @ r)"
  unfolding starts_with_def by (metis append_eq_conv_conj append_take_drop_id)

lemma starts_with_append [simp]: "starts_with (p @ r) p"
  by (simp add: starts_with_def)

lemma starts_with_Nil [simp]: "starts_with s []"
  by (simp add: starts_with_def)

lemma ends_with_iff: "ends_with s p \<longleftrightarrow> (\<exists>r. s = r @ p)"
  unfolding ends_with_def starts_with_iff by (metis rev_append rev_rev_ident)

lemma strip_prefix_eq_Some [simp]: "strip_prefix s p = Some r \<longleftrightarrow> s = p @ r"
  by (auto simp: strip_prefix_def starts_with_iff)

lemma strip_suffix_eq_Some [simp]: "strip_suffix s p = Some r \<longleftrightarrow> s = r @ p"
proof -
  have "strip_suffix s p = Some r \<longleftrightarrow> rev s = rev p @ rev r"
    by (auto simp: strip_suffix_def)
  then show ?thesis
    by (simp flip: rev_append)
qed

lemma str_contains_iff: "str_contains s p \<longleftrightarrow> (\<exists>a b. s = a @ p @ b)"
proof (induction s)
  case Nil
  then show ?case by auto
next
  case (Cons x xs)
  have "(\<exists>a b. x # xs = a @ p @ b) \<longleftrightarrow> (\<exists>b. x # xs = p @ b) \<or> (\<exists>a b. xs = a @ p @ b)"
    by (metis append_Cons append_Nil list.exhaust_sel list.sel(1,3))
  with Cons show ?case by (simp add: starts_with_iff)
qed

lemma find_char_Some: "find_char c s = Some i \<Longrightarrow> i < length s \<and> s ! i = c"
  by (induction s arbitrary: i) (auto split: if_splits)

section \<open>Splitting\<close>

text \<open>\<open>str::split\<close> on one character: always at least one piece.\<close>

primrec split_on :: "'a \<Rightarrow> 'a list \<Rightarrow> 'a list list" where
  "split_on c [] = [[]]"
| "split_on c (x # xs) =
     (if x = c then [] # split_on c xs
      else case split_on c xs of [] \<Rightarrow> [[x]] | y # ys \<Rightarrow> (x # y) # ys)"

definition first_piece :: "'a \<Rightarrow> 'a list \<Rightarrow> 'a list" where
  "first_piece c s = takeWhile (\<lambda>x. x \<noteq> c) s"

definition split_once :: "'a \<Rightarrow> 'a list \<Rightarrow> ('a list \<times> 'a list) option" where
  "split_once c s = (if c \<in> set s then Some (first_piece c s, drop (Suc (length (first_piece c s))) s) else None)"

definition rsplit_once :: "'a \<Rightarrow> 'a list \<Rightarrow> ('a list \<times> 'a list) option" where
  "rsplit_once c s = map_option (\<lambda>(a, b). (rev b, rev a)) (split_once c (rev s))"

primrec join_with :: "'a \<Rightarrow> 'a list list \<Rightarrow> 'a list" where
  "join_with c [] = []"
| "join_with c (x # xs) = (if xs = [] then x else x @ c # join_with c xs)"

lemma split_on_not_Nil [simp]: "split_on c s \<noteq> []"
  by (induction s) (auto split: list.splits)

lemma hd_split_on: "hd (split_on c s) = first_piece c s"
  by (induction s) (auto simp: first_piece_def split: list.splits)

lemma join_split_on: "join_with c (split_on c s) = s"
  by (induction s) (auto split: list.splits)

lemma split_on_pieces: "p \<in> set (split_on c s) \<Longrightarrow> c \<notin> set p"
  by (induction s arbitrary: p) (auto split: list.splits if_splits)

lemma split_on_no_sep: "c \<notin> set s \<Longrightarrow> split_on c s = [s]"
  by (induction s) auto

lemma split_on_append: "split_on c (a @ c # b) = split_on c a @ split_on c b"
  by (induction a) (auto split: list.splits)

lemma length_split_on: "length (split_on c s) = Suc (count_list s c)"
  by (induction s) (auto split: list.splits)

lemma first_piece_append [simp]: "c \<notin> set a \<Longrightarrow> first_piece c (a @ c # b) = a"
  by (induction a) (auto simp: first_piece_def)

lemma split_once_Some:
  "split_once c s = Some (a, b) \<longleftrightarrow> s = a @ c # b \<and> c \<notin> set a"
proof
  assume "split_once c s = Some (a, b)"
  then have c: "c \<in> set s" and a: "a = first_piece c s" and b: "b = drop (Suc (length a)) s"
    by (auto simp: split_once_def split: if_splits)
  from c obtain ys zs where s: "s = ys @ c # zs" and ys: "c \<notin> set ys"
    by (meson split_list_first)
  then have "first_piece c s = ys" by simp
  with a b s ys show "s = a @ c # b \<and> c \<notin> set a" by simp
next
  assume s: "s = a @ c # b \<and> c \<notin> set a"
  then have "first_piece c s = a" by simp
  with s show "split_once c s = Some (a, b)" by (simp add: split_once_def)
qed

lemma rsplit_once_Some:
  "rsplit_once c s = Some (a, b) \<longleftrightarrow> s = a @ c # b \<and> c \<notin> set b"
proof -
  have "rsplit_once c s = Some (a, b) \<longleftrightarrow> split_once c (rev s) = Some (rev b, rev a)"
    by (auto simp: rsplit_once_def)
  also have "\<dots> \<longleftrightarrow> rev s = rev (a @ c # b) \<and> c \<notin> set b"
    by (simp add: split_once_Some)
  finally show ?thesis by (simp only: rev_is_rev_conv)
qed

lemma split_once_None: "split_once c s = None \<longleftrightarrow> c \<notin> set s"
  by (simp add: split_once_def)

lemma rsplit_once_None: "rsplit_once c s = None \<longleftrightarrow> c \<notin> set s"
  by (auto simp: rsplit_once_def split_once_None)

section \<open>Trimming\<close>

text \<open>
  \<open>str::trim\<close> removes the characters with the Unicode property White\_Space. Below are
  the UTF-8 encodings of all twenty-five of them; on well-formed UTF-8, removing such an
  encoding at either end is removing the character.
\<close>

definition white_space :: "string list" where
  "white_space =
     [[CHR 0x09], [CHR 0x0A], [CHR 0x0B], [CHR 0x0C], [CHR 0x0D], [CHR 0x20],
      [CHR 0xC2, CHR 0x85], [CHR 0xC2, CHR 0xA0], [CHR 0xE1, CHR 0x9A, CHR 0x80],
      [CHR 0xE2, CHR 0x80, CHR 0x80], [CHR 0xE2, CHR 0x80, CHR 0x81],
      [CHR 0xE2, CHR 0x80, CHR 0x82], [CHR 0xE2, CHR 0x80, CHR 0x83],
      [CHR 0xE2, CHR 0x80, CHR 0x84], [CHR 0xE2, CHR 0x80, CHR 0x85],
      [CHR 0xE2, CHR 0x80, CHR 0x86], [CHR 0xE2, CHR 0x80, CHR 0x87],
      [CHR 0xE2, CHR 0x80, CHR 0x88], [CHR 0xE2, CHR 0x80, CHR 0x89],
      [CHR 0xE2, CHR 0x80, CHR 0x8A], [CHR 0xE2, CHR 0x80, CHR 0xA8],
      [CHR 0xE2, CHR 0x80, CHR 0xA9], [CHR 0xE2, CHR 0x80, CHR 0xAF],
      [CHR 0xE2, CHR 0x81, CHR 0x9F], [CHR 0xE3, CHR 0x80, CHR 0x80]]"

function strip_codes :: "string list \<Rightarrow> string \<Rightarrow> string" where
  "strip_codes codes s =
     (case find (\<lambda>e. e \<noteq> [] \<and> starts_with s e) codes of
        Some e \<Rightarrow> strip_codes codes (drop (length e) s)
      | None \<Rightarrow> s)"
  by pat_completeness auto
termination
proof (relation "measure (\<lambda>(codes, s). length s)", goal_cases)
  case (2 codes s e)
  then have "e \<noteq> []" and "starts_with s e"
    by (auto simp: find_Some_iff)
  then show ?case by (auto simp: starts_with_iff)
qed simp

declare strip_codes.simps [simp del]

definition trim_start :: "string \<Rightarrow> string" where
  "trim_start s = strip_codes white_space s"

definition trim_end :: "string \<Rightarrow> string" where
  "trim_end s = rev (strip_codes (map rev white_space) (rev s))"

definition trim :: "string \<Rightarrow> string" where
  "trim s = trim_end (trim_start s)"

lemma strip_codes_suffix: "\<exists>p. s = p @ strip_codes codes s"
proof (induction codes s rule: strip_codes.induct)
  case (1 codes s)
  show ?case
  proof (cases "find (\<lambda>e. e \<noteq> [] \<and> starts_with s e) codes")
    case None
    then show ?thesis by (simp add: strip_codes.simps [of codes s])
  next
    case (Some e)
    with "1.IH" obtain p where p: "drop (length e) s = p @ strip_codes codes (drop (length e) s)"
      by blast
    have "s = take (length e) s @ p @ strip_codes codes (drop (length e) s)"
      by (simp flip: p)
    with Some show ?thesis
      by (simp add: strip_codes.simps [of codes s]) (metis append.assoc)
  qed
qed

lemma trim_infix: "\<exists>a b. s = a @ trim s @ b"
proof -
  obtain a where a: "s = a @ trim_start s"
    unfolding trim_start_def using strip_codes_suffix by blast
  obtain p where p: "rev (trim_start s) = p @ strip_codes (map rev white_space) (rev (trim_start s))"
    using strip_codes_suffix by blast
  then have "rev (rev (trim_start s)) = trim s @ rev p"
    by (metis rev_append trim_def trim_end_def)
  then have "trim_start s = trim s @ rev p" by simp
  with a show ?thesis by metis
qed

lemma length_trim: "length (trim s) \<le> length s"
proof -
  obtain a b where "s = a @ trim s @ b" using trim_infix by blast
  then have "length s = length a + length (trim s) + length b"
    by (metis add.assoc length_append)
  then show ?thesis by simp
qed

lemma trim_Nil [simp]: "trim [] = []"
  using length_trim [of "[]"] by simp

lemma strip_codes_id: "\<forall>e \<in> set codes. e \<noteq> [] \<longrightarrow> hd e \<noteq> hd s \<Longrightarrow> strip_codes codes s = s"
proof -
  assume ne: "\<forall>e \<in> set codes. e \<noteq> [] \<longrightarrow> hd e \<noteq> hd s"
  have "\<not> (e \<noteq> [] \<and> starts_with s e)" if "e \<in> set codes" for e
    using ne that by (cases e) (auto simp: starts_with_iff)
  then have "find (\<lambda>e. e \<noteq> [] \<and> starts_with s e) codes = None"
    by (simp add: find_None_iff)
  then show ?thesis by (simp add: strip_codes.simps [of codes s])
qed

definition visible_ascii :: "char \<Rightarrow> bool" where
  "visible_ascii c \<longleftrightarrow> 0x20 < byte_of c \<and> byte_of c < 0x80"

text \<open>A text that starts and ends with a visible ASCII character is left alone by \<open>trim\<close>.\<close>

lemma trim_visible:
  assumes "s \<noteq> []" and "visible_ascii (hd s)" and "visible_ascii (last s)"
  shows "trim s = s"
proof -
  have "\<forall>e \<in> set white_space. \<not> visible_ascii (hd e)"
    and "\<forall>e \<in> set (map rev white_space). \<not> visible_ascii (hd e)"
    by (simp_all add: white_space_def visible_ascii_def)
  then have "strip_codes white_space s = s" "strip_codes (map rev white_space) (rev s) = rev s"
    using assms by (force intro!: strip_codes_id simp: hd_rev)+
  then show ?thesis by (simp add: trim_def trim_start_def trim_end_def)
qed

section \<open>Decimal numbers\<close>

text \<open>
  \<open>str::parse\<close> for the unsigned types: an optional \<open>+\<close>, at least one digit, and a
  value of at most \<open>m\<close>. Leading zeros are accepted.
\<close>

primrec digits_value :: "nat \<Rightarrow> nat \<Rightarrow> string \<Rightarrow> nat option" where
  "digits_value radix acc [] = Some acc"
| "digits_value radix acc (c # cs) =
     (case to_digit radix c of
        None \<Rightarrow> None
      | Some d \<Rightarrow> digits_value radix (acc * radix + d) cs)"

definition from_str_radix :: "nat \<Rightarrow> nat \<Rightarrow> string \<Rightarrow> nat option" where
  "from_str_radix radix m s =
     (let ds = (case s of c # cs \<Rightarrow> if c = CHR ''+'' then cs else s | [] \<Rightarrow> [])
      in if ds = [] then None else opt_filter (\<lambda>v. v \<le> m) (digits_value radix 0 ds))"

abbreviation parse_uint :: "nat \<Rightarrow> string \<Rightarrow> nat option" where
  "parse_uint m s \<equiv> from_str_radix 10 m s"

abbreviation u8_max :: nat where "u8_max \<equiv> 255"
abbreviation u16_max :: nat where "u16_max \<equiv> 65535"
abbreviation u32_max :: nat where "u32_max \<equiv> 4294967295"
abbreviation u64_max :: nat where "u64_max \<equiv> 18446744073709551615"

text \<open>\<open>usize\<close> is 64 bits wide on the targets the program is built for.\<close>

abbreviation usize_max :: nat where "usize_max \<equiv> u64_max"

definition parse_i64 :: "string \<Rightarrow> int option" where
  "parse_i64 s =
     (let neg = starts_with s ''-'';
          ds = (if neg \<or> starts_with s ''+'' then drop 1 s else s)
      in if ds = [] then None
         else (case digits_value 10 0 ds of
                 None \<Rightarrow> None
               | Some v \<Rightarrow>
                   (let i = (if neg then - int v else int v)
                    in if - 9223372036854775808 \<le> i \<and> i \<le> 9223372036854775807 then Some i else None)))"

definition digit_char :: "nat \<Rightarrow> char" where
  "digit_char d = char_of (48 + d)"

fun nat_to_string :: "nat \<Rightarrow> string" where
  "nat_to_string n =
     (if n < 10 then [digit_char n] else nat_to_string (n div 10) @ [digit_char (n mod 10)])"

declare nat_to_string.simps [simp del]

definition checked_mul :: "nat \<Rightarrow> nat \<Rightarrow> nat \<Rightarrow> nat option" where
  "checked_mul m a b = (if a * b \<le> m then Some (a * b) else None)"

lemma from_str_radix_le: "from_str_radix r m s = Some v \<Longrightarrow> v \<le> m"
  by (auto simp: from_str_radix_def Let_def split: if_splits)

lemma digits_value_append:
  "digits_value r acc (a @ b) = Option.bind (digits_value r acc a) (\<lambda>v. digits_value r v b)"
  by (induction a arbitrary: acc) (auto split: option.splits)

lemma byte_of_digit_char [simp]: "d < 10 \<Longrightarrow> byte_of (digit_char d) = 48 + d"
  by (simp add: digit_char_def)

lemma to_digit_digit_char [simp]: "d < 10 \<Longrightarrow> to_digit 10 (digit_char d) = Some d"
  by (simp add: to_digit_def)

lemma is_ascii_digit_digit_char [simp]: "d < 10 \<Longrightarrow> is_ascii_digit (digit_char d)"
  by (simp add: is_ascii_digit_def)

lemma digits_value_nat_to_string: "digits_value 10 0 (nat_to_string n) = Some n"
proof (induction n rule: nat_to_string.induct)
  case (1 n)
  show ?case
  proof (cases "n < 10")
    case True
    then show ?thesis by (simp add: nat_to_string.simps [of n])
  next
    case False
    with 1 have "digits_value 10 0 (nat_to_string (n div 10)) = Some (n div 10)" by simp
    moreover have "n div 10 * 10 + n mod 10 = n" by simp
    ultimately show ?thesis
      using False by (simp add: nat_to_string.simps [of n] digits_value_append)
  qed
qed

lemma nat_to_string_digits: "\<forall>c \<in> set (nat_to_string n). is_ascii_digit c"
proof (induction n rule: nat_to_string.induct)
  case (1 n)
  then show ?case
    by (cases "n < 10") (auto simp: nat_to_string.simps [of n])
qed

lemma nat_to_string_not_Nil [simp]: "nat_to_string n \<noteq> []"
  by (subst nat_to_string.simps) simp

lemma parse_nat_to_string:
  assumes "n \<le> m"
  shows "parse_uint m (nat_to_string n) = Some n"
proof -
  obtain c cs where s: "nat_to_string n = c # cs"
    by (cases "nat_to_string n") auto
  with nat_to_string_digits [of n] have "is_ascii_digit c" by simp
  then have "c \<noteq> CHR ''+''" by (auto simp: is_ascii_digit_def)
  with s digits_value_nat_to_string [of n] assms show ?thesis
    by (simp add: from_str_radix_def)
qed

lemma nat_to_string_length:
  assumes "n < 10 ^ k" and "0 < k"
  shows "length (nat_to_string n) \<le> k"
  using assms
proof (induction k arbitrary: n)
  case 0
  then show ?case by simp
next
  case (Suc k)
  show ?case
  proof (cases "n < 10")
    case True
    then show ?thesis by (simp add: nat_to_string.simps [of n])
  next
    case False
    with Suc.prems have "0 < k" by (cases k) auto
    moreover from Suc.prems have "n div 10 < 10 ^ k" by (simp add: less_mult_imp_div_less mult.commute)
    ultimately have "length (nat_to_string (n div 10)) \<le> k" by (rule Suc.IH [rotated])
    with False show ?thesis by (simp add: nat_to_string.simps [of n])
  qed
qed

lemmas string_evaluators [rust_str] =
  starts_with_def ends_with_def strip_prefix_def strip_suffix_def first_piece_def
  split_once_def rsplit_once_def to_ascii_lowercase_def eq_ignore_ascii_case_def

end
