(* ===== verification/Rust_Net.thy ===== *)
theory Rust_Net
  imports Prelude
begin

text \<open>
  The part of Rust's \<open>std::net\<close> that Ferroada uses: \<open>IpAddr\<close>, \<open>SocketAddr\<close>, and the
  textual address parser behind \<open>str::parse\<close>. The standard parser reads from a cursor and
  restores it when a piece fails; here each reader is a function from the remaining input to
  an optional pair of the value and the new remaining input, so that restoring is simply not
  using the failed result. Big-endian conversions between words and octets are here too.
\<close>

datatype ip_addr = V4 u32 | V6 u128

text \<open>\<open>SocketAddrV6\<close> carries the flow information and the scope besides the port.\<close>

datatype socket_addr = SocketV4 u32 u16 | SocketV6 u128 u16 u32 u32

fun socket_ip :: "socket_addr \<Rightarrow> ip_addr" where
  "socket_ip (SocketV4 a p) = V4 a"
| "socket_ip (SocketV6 a p f sc) = V6 a"

section \<open>Octets\<close>

definition be_join :: "bytes \<Rightarrow> 'a::len word" where
  "be_join bs = foldl (\<lambda>acc b. push_bit 8 acc + ucast b) 0 bs"

definition octet :: "nat \<Rightarrow> 'a::len word \<Rightarrow> u8" where
  "octet i w = ucast (drop_bit (8 * i) w)"

definition u16_to_be_bytes :: "u16 \<Rightarrow> bytes" where
  "u16_to_be_bytes w = [octet 1 w, octet 0 w]"

definition ipv4_octets :: "u32 \<Rightarrow> bytes" where
  "ipv4_octets w = [octet 3 w, octet 2 w, octet 1 w, octet 0 w]"

definition ipv6_octets :: "u128 \<Rightarrow> bytes" where
  "ipv6_octets w = map (\<lambda>i. octet i w) (rev [0..<16])"

lemma length_ipv6_octets [simp]: "length (ipv6_octets w) = 16"
  by (simp add: ipv6_octets_def)

lemma length_octets [simp]:
  "length (u16_to_be_bytes p) = 2" "length (ipv4_octets a) = 4"
  by (simp_all add: u16_to_be_bytes_def ipv4_octets_def)

text \<open>
  Reading the octets of a word back gives the word: each octet is the next base-256 digit,
  so joining the highest \<open>n\<close> of them gives the word shifted right by the remaining ones.
\<close>

lemma drop_bit_octet_step:
  fixes w :: "'a::len word"
  shows "push_bit 8 (drop_bit (8 * Suc i) w) + ucast (octet i w :: u8) = drop_bit (8 * i) w"
proof -
  let ?v = "drop_bit (8 * i) w"
  have "drop_bit (8 * Suc i) w = drop_bit 8 ?v"
    by (simp add: drop_bit_drop_bit add.commute)
  moreover have "ucast (octet i w :: u8) = (take_bit 8 ?v :: 'a word)"
    by (simp add: octet_def unsigned_ucast_eq take_bit_word_eq_self)
  moreover have "push_bit 8 (drop_bit 8 ?v) + take_bit 8 ?v = ?v"
    by (metis bits_ident)
  ultimately show ?thesis by simp
qed

lemma foldl_octets:
  fixes w :: "'a::len word"
  shows "foldl (\<lambda>acc b. push_bit 8 acc + ucast b) (drop_bit (8 * n) w) (map (\<lambda>i. octet i w) (rev [0..<n])) = w"
proof (induction n)
  case 0
  then show ?case by simp
next
  case (Suc n)
  have "push_bit 8 (drop_bit (8 * Suc n) w) + ucast (octet n w :: u8) = drop_bit (8 * n) w"
    by (rule drop_bit_octet_step)
  with Suc show ?case by simp
qed

lemma be_join_octets:
  fixes w :: "'a::len word"
  assumes "LENGTH('a) \<le> 8 * n"
  shows "be_join (map (\<lambda>i. octet i w) (rev [0..<n])) = w"
proof -
  have "drop_bit (8 * n) w = 0"
    using assms by (rule drop_bit_word_beyond)
  with foldl_octets [of n w] show ?thesis by (simp add: be_join_def)
qed

lemma be_join_u16 [simp]: "be_join (u16_to_be_bytes p) = p"
  using be_join_octets [of 2 p] by (simp add: u16_to_be_bytes_def numeral_eq_Suc)

lemma be_join_ipv4 [simp]: "be_join (ipv4_octets a) = a"
  using be_join_octets [of 4 a] by (simp add: ipv4_octets_def numeral_eq_Suc)

lemma be_join_ipv6 [simp]: "be_join (ipv6_octets a) = a"
  using be_join_octets [of 16 a] by (simp add: ipv6_octets_def)

text \<open>Conversely, four octets joined are the octets of the word.\<close>

unbundle bit_operations_syntax

lemma join_step_or:
  fixes w :: u32
  shows "push_bit 8 w + ucast (b :: u8) = push_bit 8 w OR ucast b"
  by (rule disjunctive_add) (auto simp: bit_simps dest: bit_imp_le_length)

lemma octet_join_zero: "octet 0 (push_bit 8 (w :: u32) + ucast (b :: u8)) = b"
  unfolding join_step_or by (rule bit_eqI) (auto simp: octet_def bit_simps)

lemma octet_join_Suc:
  "j = Suc i \<Longrightarrow> i < 3 \<Longrightarrow> octet j (push_bit 8 (w :: u32) + ucast (b :: u8)) = octet i w"
  unfolding join_step_or
  by (rule bit_eqI) (auto simp: octet_def bit_simps dest: bit_imp_le_length)

lemma octet_join:
  "octet 1 (push_bit 8 (w :: u32) + ucast (b :: u8)) = octet 0 w"
  "octet 2 (push_bit 8 (w :: u32) + ucast (b :: u8)) = octet 1 w"
  "octet 3 (push_bit 8 (w :: u32) + ucast (b :: u8)) = octet 2 w"
  by (rule octet_join_Suc; simp)+

lemma ipv4_octets_be_join: "ipv4_octets (be_join [a, b, c, d]) = [a, b, c, d]"
  by (simp only: ipv4_octets_def be_join_def foldl.simps octet_join_zero octet_join)
section \<open>The address parser\<close>

type_synonym 'a reader = "string \<Rightarrow> ('a \<times> string) option"

definition read_given_char :: "char \<Rightarrow> string \<Rightarrow> string option" where
  "read_given_char c s = (case s of x # xs \<Rightarrow> if x = c then Some xs else None | [] \<Rightarrow> None)"

text \<open>A separator is expected before every element but the first.\<close>

definition read_separator :: "char \<Rightarrow> nat \<Rightarrow> 'a reader \<Rightarrow> 'a reader" where
  "read_separator sep index inner s =
     (if index = 0 then inner s else Option.bind (read_given_char sep s) inner)"

text \<open>
  \<open>read_number\<close> consumes every digit at the cursor; it fails when there is none, when there
  are more than \<open>max_digits\<close>, on a leading zero where that is not allowed, and when the value
  does not fit the result type, whose greatest value is \<open>m\<close>.
\<close>

definition read_number :: "nat \<Rightarrow> nat option \<Rightarrow> bool \<Rightarrow> nat \<Rightarrow> nat reader" where
  "read_number radix max_digits allow_zero_prefix m s =
     (let ds = takeWhile (\<lambda>c. to_digit radix c \<noteq> None) s;
          v = unwrap_or (digits_value radix 0 ds) 0
      in if ds = [] then None
         else if (case max_digits of Some k \<Rightarrow> k < length ds | None \<Rightarrow> False) then None
         else if \<not> allow_zero_prefix \<and> hd ds = CHR ''0'' \<and> 1 < length ds then None
         else if m < v then None
         else Some (v, drop (length ds) s))"

definition read_ipv4_addr :: "u32 reader" where
  "read_ipv4_addr s =
     (let number = read_number 10 (Some 3) False 255
      in Option.bind (read_separator CHR ''.'' 0 number s) (\<lambda>(a, s1).
         Option.bind (read_separator CHR ''.'' 1 number s1) (\<lambda>(b, s2).
         Option.bind (read_separator CHR ''.'' 2 number s2) (\<lambda>(c, s3).
         Option.bind (read_separator CHR ''.'' 3 number s3) (\<lambda>(d, s4).
           Some (be_join [of_nat a, of_nat b, of_nat c, of_nat d], s4))))))"

text \<open>
  \<open>read_groups\<close> fills at most \<open>k\<close> more groups after those in \<open>acc\<close>. While at least two
  slots are left an embedded IPv4 address is tried first; it fills two groups and ends the
  reading.
\<close>

primrec read_groups :: "nat \<Rightarrow> u16 list \<Rightarrow> string \<Rightarrow> u16 list \<times> bool \<times> string" where
  "read_groups 0 acc s = (acc, False, s)"
| "read_groups (Suc k) acc s =
     (case (if 0 < k then read_separator CHR '':'' (length acc) read_ipv4_addr s else None) of
        Some (v4, r) \<Rightarrow> (acc @ [ucast (drop_bit 16 v4), ucast v4], True, r)
      | None \<Rightarrow>
          (case read_separator CHR '':'' (length acc) (read_number 16 (Some 4) True u16_max) s of
             Some (g, r) \<Rightarrow> read_groups k (acc @ [of_nat g]) r
           | None \<Rightarrow> (acc, False, s)))"

definition groups_to_u128 :: "u16 list \<Rightarrow> u128" where
  "groups_to_u128 gs = foldl (\<lambda>acc g. push_bit 16 acc + ucast g) 0 gs"

definition read_ipv6_addr :: "u128 reader" where
  "read_ipv6_addr s =
     (let (head, head_ipv4, s1) = read_groups 8 [] s
      in if length head = 8 then Some (groups_to_u128 head, s1)
         else if head_ipv4 then None
         else Option.bind (read_given_char CHR '':'' s1) (\<lambda>s2.
              Option.bind (read_given_char CHR '':'' s2) (\<lambda>s3.
                let (tail, _, s4) = read_groups (8 - (length head + 1)) [] s3
                in Some (groups_to_u128 (head @ replicate (8 - length head - length tail) 0 @ tail), s4))))"

definition read_ip_addr :: "ip_addr reader" where
  "read_ip_addr s =
     (case read_ipv4_addr s of
        Some (a, r) \<Rightarrow> Some (V4 a, r)
      | None \<Rightarrow> map_option (\<lambda>(a, r). (V6 a, r)) (read_ipv6_addr s))"

definition read_port :: "u16 reader" where
  "read_port s =
     Option.bind (read_given_char CHR '':'' s) (\<lambda>s1.
       map_option (\<lambda>(v, r). (of_nat v, r)) (read_number 10 None True u16_max s1))"

definition read_scope_id :: "u32 reader" where
  "read_scope_id s =
     Option.bind (read_given_char CHR ''%'' s) (\<lambda>s1.
       map_option (\<lambda>(v, r). (of_nat v, r)) (read_number 10 None True u32_max s1))"

definition read_socket_addr_v4 :: "socket_addr reader" where
  "read_socket_addr_v4 s =
     Option.bind (read_ipv4_addr s) (\<lambda>(a, s1).
     Option.bind (read_port s1) (\<lambda>(p, s2). Some (SocketV4 a p, s2)))"

definition read_socket_addr_v6 :: "socket_addr reader" where
  "read_socket_addr_v6 s =
     Option.bind (read_given_char CHR ''['' s) (\<lambda>s1.
     Option.bind (read_ipv6_addr s1) (\<lambda>(a, s2).
       let (scope, s3) = (case read_scope_id s2 of Some x \<Rightarrow> x | None \<Rightarrow> (0, s2))
       in Option.bind (read_given_char CHR '']'' s3) (\<lambda>s4.
          Option.bind (read_port s4) (\<lambda>(p, s5). Some (SocketV6 a p 0 scope, s5)))))"

definition read_socket_addr :: "socket_addr reader" where
  "read_socket_addr s =
     (case read_socket_addr_v4 s of Some x \<Rightarrow> Some x | None \<Rightarrow> read_socket_addr_v6 s)"

text \<open>\<open>parse_with\<close>: the whole input must have been consumed.\<close>

definition parse_with :: "'a reader \<Rightarrow> string \<Rightarrow> 'a option" where
  "parse_with inner s =
     (case inner s of Some (a, r) \<Rightarrow> if r = [] then Some a else None | None \<Rightarrow> None)"

definition parse_ip_addr :: "string \<Rightarrow> ip_addr option" where
  "parse_ip_addr s = parse_with read_ip_addr s"

definition parse_socket_addr :: "string \<Rightarrow> socket_addr option" where
  "parse_socket_addr s = parse_with read_socket_addr s"

section \<open>Displayed IPv4 addresses parse back\<close>

definition show_ipv4 :: "u32 \<Rightarrow> string" where
  "show_ipv4 a =
     (let d = (\<lambda>i. nat_to_string (unat (octet i a)))
      in d 3 @ ''.'' @ d 2 @ ''.'' @ d 1 @ ''.'' @ d 0)"

lemma to_digit_10_iff: "to_digit 10 c \<noteq> None \<longleftrightarrow> is_ascii_digit c"
  by (auto simp: to_digit_def is_ascii_digit_def Let_def)

lemma hd_nat_to_string:
  "hd (nat_to_string n) = CHR ''0'' \<Longrightarrow> n = 0"
proof (induction n rule: nat_to_string.induct)
  case (1 n)
  show ?case
  proof (cases "n < 10")
    case True
    with 1 have "byte_of (digit_char n) = byte_of CHR ''0''"
      by (simp add: nat_to_string.simps [of n])
    with True show ?thesis by simp
  next
    case False
    with 1 show ?thesis by (auto simp: nat_to_string.simps [of n])
  qed
qed

lemma read_number_nat_to_string:
  assumes "n \<le> 255" and "rest = [] \<or> \<not> is_ascii_digit (hd rest)"
  shows "read_number 10 (Some 3) False 255 (nat_to_string n @ rest) = Some (n, rest)"
proof -
  let ?s = "nat_to_string n"
  have rest: "takeWhile is_ascii_digit rest = []"
    using assms(2) by (cases rest) auto
  have "takeWhile (\<lambda>c. to_digit 10 c \<noteq> None) (?s @ rest) = takeWhile is_ascii_digit (?s @ rest)"
    by (simp only: to_digit_10_iff)
  also have "\<dots> = ?s"
    using nat_to_string_digits [of n] rest by (simp add: takeWhile_append2)
  finally have tw: "takeWhile (\<lambda>c. to_digit 10 c \<noteq> None) (?s @ rest) = ?s" .
  have len: "length ?s \<le> 3"
    using assms(1) nat_to_string_length [of n 3] by simp
  have zero: "\<not> (hd ?s = CHR ''0'' \<and> 1 < length ?s)"
  proof
    assume a: "hd ?s = CHR ''0'' \<and> 1 < length ?s"
    then have "n = 0" using hd_nat_to_string by blast
    with a show False by (simp add: nat_to_string.simps [of 0])
  qed
  from tw len zero assms(1) show ?thesis
    by (simp add: read_number_def Let_def digits_value_nat_to_string)
qed

lemma parse_show_ipv4: "parse_ip_addr (show_ipv4 a) = Some (V4 a)"
proof -
  have b: "unat (octet i a) \<le> 255" for i
    using unsigned_less [of "octet i a :: u8", where 'a = nat] by simp
  have j: "be_join [octet 3 a, octet 2 a, octet (Suc 0) a, octet 0 a] = a"
    using be_join_ipv4 [of a] by (simp add: ipv4_octets_def)
  have d: "is_ascii_digit CHR ''.'' = False" by (simp add: is_ascii_digit_def)
  have last: "read_number 10 (Some 3) False 255 (nat_to_string (unat (octet i a))) =
      Some (unat (octet i a), [])" for i
    using read_number_nat_to_string [OF b, of "[]" i] by simp
  show ?thesis
    by (simp add: parse_ip_addr_def parse_with_def read_ip_addr_def read_ipv4_addr_def show_ipv4_def
        read_separator_def read_given_char_def read_number_nat_to_string [OF b] last d j Let_def)
qed

end
