(* ===== verification/Client_Ip.thy ===== *)
theory Client_Ip
  imports Rust_Net
begin

text \<open>
  Client address resolution, \<open>src/src/client_ip.rs\<close>: the trusted proxy networks, the walk
  over \<open>X-Forwarded-For\<close> and \<open>Forwarded\<close>, and the risk identity that the rate limiter and
  the behavioural score key on. \<open>DefaultHasher\<close> promises no particular hash function, so it
  is the parameter \<open>hash\<close>; environment variables are the parameter \<open>env\<close>. The locale
  \<open>hop_walk\<close> is the contract of the two header walks; both are interpreted below.
\<close>

unbundle bit_operations_syntax

section \<open>Networks\<close>

datatype ip_network = Net4 u32 u32 | Net6 u128 u128

record trusted_proxies =
  networks :: "ip_network list"

datatype client_ip_error =
    InvalidForwardedMode string
  | HeaderWithoutName
  | UnknownSource string
  | EmptyOrder
  | InvalidIp string
  | InvalidPrefix string

fun network_contains :: "ip_network \<Rightarrow> ip_addr \<Rightarrow> bool" where
  "network_contains (Net4 net msk) (V4 ip) = (ip AND msk = net)"
| "network_contains (Net6 net msk) (V6 ip) = (ip AND msk = net)"
| "network_contains _ _ = False"

definition prefix_mask_v4 :: "nat \<Rightarrow> u32" where
  "prefix_mask_v4 prefix = (if prefix = 0 then 0 else push_bit (32 - prefix) (- 1))"

definition prefix_mask_v6 :: "nat \<Rightarrow> u128" where
  "prefix_mask_v6 prefix = (if prefix = 0 then 0 else push_bit (128 - prefix) (- 1))"

definition parse_prefix :: "string option \<Rightarrow> nat \<Rightarrow> string \<Rightarrow> (client_ip_error, nat) result" where
  "parse_prefix prefix mx value =
     result_bind
       (case prefix of
          Some p \<Rightarrow> (case parse_uint u8_max p of Some n \<Rightarrow> Ok n | None \<Rightarrow> Err (InvalidPrefix value))
        | None \<Rightarrow> Ok mx)
       (\<lambda>n. if mx < n then Err (InvalidPrefix value) else Ok n)"

definition parse_network :: "string \<Rightarrow> (client_ip_error, ip_network) result" where
  "parse_network value =
     (let (address, prefix) =
            (case split_once CHR ''/'' value of
               None \<Rightarrow> (value, None)
             | Some (ip, p) \<Rightarrow> (ip, Some p))
      in case parse_ip_addr address of
           None \<Rightarrow> Err (InvalidIp value)
         | Some (V4 ip) \<Rightarrow>
             result_bind (parse_prefix prefix 32 value) (\<lambda>p.
               let msk = prefix_mask_v4 p in Ok (Net4 (ip AND msk) msk))
         | Some (V6 ip) \<Rightarrow>
             result_bind (parse_prefix prefix 128 value) (\<lambda>p.
               let msk = prefix_mask_v6 p in Ok (Net6 (ip AND msk) msk)))"

definition trusted_entries :: "string \<Rightarrow> string list" where
  "trusted_entries value = filter (\<lambda>e. e \<noteq> []) (map trim (split_on CHR '','' value))"

definition trusted_parse :: "string \<Rightarrow> (client_ip_error, trusted_proxies) result" where
  "trusted_parse value =
     result_bind (collect_results parse_network (trusted_entries value)) (\<lambda>ns. Ok \<lparr>networks = ns\<rparr>)"

definition trusted_from_env :: "(string \<Rightarrow> string option) \<Rightarrow> (client_ip_error, trusted_proxies) result" where
  "trusted_from_env env = trusted_parse (unwrap_or (env ''TRUSTED_PROXIES'') [])"

definition contains :: "trusted_proxies \<Rightarrow> ip_addr \<Rightarrow> bool" where
  "contains tp ip = list_ex (\<lambda>n. network_contains n ip) (networks tp)"

definition is_trusted :: "trusted_proxies \<Rightarrow> ip_addr \<Rightarrow> bool" where
  "is_trusted tp ip = contains tp ip"

definition trusted_is_empty :: "trusted_proxies \<Rightarrow> bool" where
  "trusted_is_empty tp \<longleftrightarrow> networks tp = []"

section \<open>Configuration of the sources\<close>

datatype client_ip_source = ProxyProtocol | Forwarded | XForwardedFor | Header

datatype forwarded_mode = Strip | Accept

record client_ip_config =
  order :: "client_ip_source list"
  forwarded :: forwarded_mode
  extra_header :: "string option"

definition client_ip_config_default :: client_ip_config where
  "client_ip_config_default =
     \<lparr>order = [ProxyProtocol, XForwardedFor], forwarded = Strip, extra_header = None\<rparr>"

definition parse_source :: "string \<Rightarrow> (client_ip_error, client_ip_source) result" where
  "parse_source token =
     (if token = ''proxy_protocol'' then Ok ProxyProtocol
      else if token = ''forwarded'' then Ok Forwarded
      else if token = ''x-forwarded-for'' then Ok XForwardedFor
      else if token = ''header'' then Ok Header
      else Err (UnknownSource token))"

definition parse_client_ip_order :: "string \<Rightarrow> (client_ip_error, client_ip_source list) result" where
  "parse_client_ip_order raw =
     result_bind
       (collect_results parse_source (filter (\<lambda>t. t \<noteq> []) (map trim (split_on CHR '','' raw))))
       (\<lambda>ord. if ord = [] then Err EmptyOrder else Ok ord)"

definition client_ip_config_from_env ::
    "(string \<Rightarrow> string option) \<Rightarrow> (client_ip_error, client_ip_config) result" where
  "client_ip_config_from_env env =
     result_bind (parse_client_ip_order
         (unwrap_or (env ''CLIENT_IP_ORDER'') ''proxy_protocol,x-forwarded-for'')) (\<lambda>ord.
       let mode = to_ascii_lowercase (trim (unwrap_or (env ''FORWARDED_HEADER'') ''strip''))
       in result_bind
            (if mode = ''strip'' then Ok Strip
             else if mode = ''accept'' then Ok Accept
             else Err (InvalidForwardedMode mode))
            (\<lambda>fwd.
              let extra = opt_filter (\<lambda>v. v \<noteq> []) (map_option trim (env ''CLIENT_IP_HEADER''))
              in if Header \<in> set ord \<and> extra = None then Err HeaderWithoutName
                 else Ok \<lparr>order = ord, forwarded = fwd, extra_header = extra\<rparr>))"

section \<open>Reading one hop\<close>

definition parse_forwarded_ip :: "string \<Rightarrow> ip_addr option" where
  "parse_forwarded_ip value = opt_or (parse_ip_addr value) (map_option socket_ip (parse_socket_addr value))"

definition parse_single_ip :: "string \<Rightarrow> ip_addr option" where
  "parse_single_ip value = parse_forwarded_ip (trim value)"

text \<open>
  \<open>split_forwarded_elements\<close> walks the bytes with the start of the current piece and the
  quoting state; the piece since \<open>start\<close> is the second argument here.
\<close>

definition push_piece :: "string \<Rightarrow> string list" where
  "push_piece piece = (if trim piece = [] then [] else [trim piece])"

primrec split_forwarded_go :: "string \<Rightarrow> bool \<Rightarrow> string \<Rightarrow> string list" where
  "split_forwarded_go [] quoted piece = push_piece piece"
| "split_forwarded_go (b # bs) quoted piece =
     (if b = CHR 0x22 then split_forwarded_go bs (\<not> quoted) (piece @ [b])
      else if b = CHR '','' \<and> \<not> quoted then push_piece piece @ split_forwarded_go bs quoted []
      else split_forwarded_go bs quoted (piece @ [b]))"

definition split_forwarded_elements :: "string \<Rightarrow> string list" where
  "split_forwarded_elements value = split_forwarded_go value False []"

definition parse_forwarded_for_value :: "string \<Rightarrow> ip_addr option" where
  "parse_forwarded_for_value raw =
     (let value = (if 2 \<le> length raw \<and> starts_with raw [CHR 0x22] \<and> ends_with raw [CHR 0x22]
                   then take (length raw - 2) (drop 1 raw) else raw)
      in if eq_ignore_ascii_case value ''unknown'' \<or> starts_with value ''_'' then None
         else if starts_with value ''['' then
           (case find_char CHR '']'' value of
              None \<Rightarrow> None
            | Some e \<Rightarrow> parse_ip_addr (take (e - 1) (drop 1 value)))
         else parse_forwarded_ip value)"

primrec forwarded_for_pairs :: "string list \<Rightarrow> ip_addr option" where
  "forwarded_for_pairs [] = None"
| "forwarded_for_pairs (pair # pairs) =
     (case split_once CHR ''='' (trim pair) of
        None \<Rightarrow> forwarded_for_pairs pairs
      | Some (name, raw) \<Rightarrow>
          if \<not> eq_ignore_ascii_case name ''for'' then forwarded_for_pairs pairs
          else parse_forwarded_for_value (trim raw))"

definition parse_forwarded_for_param :: "string \<Rightarrow> ip_addr option" where
  "parse_forwarded_for_param element = forwarded_for_pairs (split_on CHR '';'' element)"

section \<open>Walking the hops\<close>

primrec xff_loop :: "trusted_proxies \<Rightarrow> ip_addr \<Rightarrow> string list \<Rightarrow> ip_addr" where
  "xff_loop tp client_ip [] = client_ip"
| "xff_loop tp client_ip (value # rest) =
     (if \<not> contains tp client_ip then client_ip
      else case parse_forwarded_ip (trim value) of
             None \<Rightarrow> client_ip
           | Some candidate \<Rightarrow> xff_loop tp candidate rest)"

definition walk_xff :: "trusted_proxies \<Rightarrow> ip_addr \<Rightarrow> string option \<Rightarrow> ip_addr" where
  "walk_xff tp peer_ip xff =
     (if \<not> contains tp peer_ip then peer_ip
      else case xff of None \<Rightarrow> peer_ip
           | Some h \<Rightarrow> xff_loop tp peer_ip (rev (split_on CHR '','' h)))"

primrec forwarded_loop :: "trusted_proxies \<Rightarrow> ip_addr \<Rightarrow> string list \<Rightarrow> ip_addr" where
  "forwarded_loop tp client_ip [] = client_ip"
| "forwarded_loop tp client_ip (element # rest) =
     (if \<not> contains tp client_ip then client_ip
      else case parse_forwarded_for_param element of
             None \<Rightarrow> client_ip
           | Some candidate \<Rightarrow> forwarded_loop tp candidate rest)"

definition walk_forwarded :: "trusted_proxies \<Rightarrow> ip_addr \<Rightarrow> string option \<Rightarrow> ip_addr" where
  "walk_forwarded tp peer_ip fwd =
     (if \<not> contains tp peer_ip then peer_ip
      else case fwd of None \<Rightarrow> peer_ip
           | Some h \<Rightarrow> forwarded_loop tp peer_ip (rev (split_forwarded_elements h)))"

text \<open>One round of the loop over \<open>config.order\<close>, and the loop.\<close>

definition apply_source ::
    "trusted_proxies \<Rightarrow> string option \<Rightarrow> string option \<Rightarrow> string option \<Rightarrow> forwarded_mode
      \<Rightarrow> client_ip_source \<Rightarrow> ip_addr \<Rightarrow> ip_addr" where
  "apply_source tp xff fwd hdr mode source current =
     (case source of
        ProxyProtocol \<Rightarrow> current
      | XForwardedFor \<Rightarrow> walk_xff tp current xff
      | Forwarded \<Rightarrow> if mode = Accept then walk_forwarded tp current fwd else current
      | Header \<Rightarrow>
          if contains tp current then
            (case Option.bind hdr parse_single_ip of Some candidate \<Rightarrow> candidate | None \<Rightarrow> current)
          else current)"

definition resolve_sources ::
    "trusted_proxies \<Rightarrow> ip_addr option \<Rightarrow> string option \<Rightarrow> string option \<Rightarrow> string option
      \<Rightarrow> client_ip_config \<Rightarrow> ip_addr option" where
  "resolve_sources tp peer_ip xff fwd hdr config =
     map_option (\<lambda>peer. fold (apply_source tp xff fwd hdr (forwarded config)) (order config) peer) peer_ip"

definition resolve :: "trusted_proxies \<Rightarrow> ip_addr option \<Rightarrow> string option \<Rightarrow> ip_addr option" where
  "resolve tp peer_ip xff = resolve_sources tp peer_ip xff None None client_ip_config_default"

section \<open>The risk identity\<close>

record site_client_key =
  key_site :: string
  key_network :: ip_addr

record risk_identity =
  site :: string
  network :: ip_addr
  route :: string
  session_hash :: "u64 option"
  api_key_hash :: "u64 option"
  jwt_sub_hash :: "u64 option"
  jwt_tenant_hash :: "u64 option"
  tls_fingerprint :: "u64 option"
  http_fingerprint :: "u64 option"
  asn :: "u32 option"

fun risk_network :: "ip_addr \<Rightarrow> ip_addr" where
  "risk_network (V4 ip) = V4 ip"
| "risk_network (V6 ip) = V6 (ip AND push_bit 64 (- 1))"

definition site_client_key_new :: "string \<Rightarrow> ip_addr \<Rightarrow> site_client_key" where
  "site_client_key_new s ip = \<lparr>key_site = to_ascii_lowercase s, key_network = risk_network ip\<rparr>"

definition route_group :: "string \<Rightarrow> string" where
  "route_group uri =
     (case filter (\<lambda>seg. seg \<noteq> []) (split_on CHR ''/'' (first_piece CHR ''?'' uri)) of
        a # b # _ \<Rightarrow> ''/'' @ a @ ''/'' @ b
      | [a] \<Rightarrow> ''/'' @ a
      | [] \<Rightarrow> ''/'')"

definition bounded_hash :: "(string \<Rightarrow> u64) \<Rightarrow> string option \<Rightarrow> u64 option" where
  "bounded_hash hash value =
     (case opt_filter (\<lambda>v. v \<noteq> []) (map_option trim value) of
        None \<Rightarrow> None
      | Some v \<Rightarrow> if 512 < length v then None else Some (hash v))"

definition risk_identity_new ::
    "(string \<Rightarrow> u64) \<Rightarrow> string \<Rightarrow> ip_addr \<Rightarrow> string \<Rightarrow> string option \<Rightarrow> string option \<Rightarrow> risk_identity" where
  "risk_identity_new hash s ip uri session_id api_key =
     \<lparr>site = to_ascii_lowercase s, network = risk_network ip, route = route_group uri,
      session_hash = bounded_hash hash session_id, api_key_hash = bounded_hash hash api_key,
      jwt_sub_hash = None, jwt_tenant_hash = None, tls_fingerprint = None,
      http_fingerprint = None, asn = None\<rparr>"

definition set_jwt :: "(string \<Rightarrow> u64) \<Rightarrow> string option \<Rightarrow> string option \<Rightarrow> risk_identity \<Rightarrow> risk_identity" where
  "set_jwt hash sub tenant r =
     r\<lparr>jwt_sub_hash := bounded_hash hash sub, jwt_tenant_hash := bounded_hash hash tenant\<rparr>"

definition set_fingerprints :: "u64 option \<Rightarrow> u64 option \<Rightarrow> risk_identity \<Rightarrow> risk_identity" where
  "set_fingerprints tls http r =
     r\<lparr>tls_fingerprint := opt_filter (\<lambda>v. v \<noteq> 0) tls, http_fingerprint := opt_filter (\<lambda>v. v \<noteq> 0) http\<rparr>"

definition set_asn :: "u32 option \<Rightarrow> risk_identity \<Rightarrow> risk_identity" where
  "set_asn a r = r\<lparr>asn := opt_filter (\<lambda>v. v \<noteq> 0) a\<rparr>"

definition preferred_fingerprint :: "risk_identity \<Rightarrow> u64 option" where
  "preferred_fingerprint r = opt_or (tls_fingerprint r) (http_fingerprint r)"

definition identity_network_key :: "risk_identity \<Rightarrow> site_client_key" where
  "identity_network_key r = \<lparr>key_site = site r, key_network = network r\<rparr>"

section \<open>Masks select the leading bits\<close>

lemma and_high_mask: "(a :: 'a::len word) AND push_bit k (- 1) = push_bit k (drop_bit k a)"
  by (rule bit_word_eqI) (auto simp: bit_simps)

lemma high_mask_eq_iff:
  fixes a b :: "'a::len word"
  shows "a AND push_bit k (- 1) = b AND push_bit k (- 1) \<longleftrightarrow> drop_bit k a = drop_bit k b"
proof
  assume "a AND push_bit k (- 1) = b AND push_bit k (- 1)"
  then have "push_bit k (drop_bit k a) = push_bit k (drop_bit k b)"
    by (simp only: and_high_mask)
  then have bits: "bit (push_bit k (drop_bit k a)) i = bit (push_bit k (drop_bit k b)) i" for i
    by simp
  show "drop_bit k a = drop_bit k b"
  proof (rule bit_word_eqI)
    fix n assume "n < LENGTH('a)"
    show "bit (drop_bit k a) n = bit (drop_bit k b) n"
      using bits [of "k + n"] by (cases "k + n < LENGTH('a)") (auto simp: bit_simps dest: bit_imp_le_length)
  qed
qed (simp only: and_high_mask)

lemma drop_all_bits: "drop_bit LENGTH('a) (a :: 'a::len word) = 0"
  by (rule drop_bit_word_beyond) simp

lemma prefix_mask_v4_eq_iff:
  "a AND prefix_mask_v4 p = b AND prefix_mask_v4 p \<longleftrightarrow> drop_bit (32 - p) a = drop_bit (32 - p) b"
proof (cases "p = 0")
  case True
  then show ?thesis
    using drop_all_bits [of a] drop_all_bits [of b] by (simp add: prefix_mask_v4_def)
next
  case False
  then have "prefix_mask_v4 p = push_bit (32 - p) (- 1)"
    by (simp only: prefix_mask_v4_def if_False)
  then show ?thesis by (simp only: high_mask_eq_iff)
qed

lemma prefix_mask_v6_eq_iff:
  "a AND prefix_mask_v6 p = b AND prefix_mask_v6 p \<longleftrightarrow> drop_bit (128 - p) a = drop_bit (128 - p) b"
proof (cases "p = 0")
  case True
  then show ?thesis
    using drop_all_bits [of a] drop_all_bits [of b] by (simp add: prefix_mask_v6_def)
next
  case False
  then have "prefix_mask_v6 p = push_bit (128 - p) (- 1)"
    by (simp only: prefix_mask_v6_def if_False)
  then show ?thesis by (simp only: high_mask_eq_iff)
qed

text \<open>
  What a CIDR entry means: the address family agrees and the leading \<open>p\<close> bits are equal. A
  missing prefix length means all bits.
\<close>

fun cidr_covers :: "ip_addr \<Rightarrow> nat \<Rightarrow> ip_addr \<Rightarrow> bool" where
  "cidr_covers (V4 a) p (V4 b) = (p \<le> 32 \<and> drop_bit (32 - p) b = drop_bit (32 - p) a)"
| "cidr_covers (V6 a) p (V6 b) = (p \<le> 128 \<and> drop_bit (128 - p) b = drop_bit (128 - p) a)"
| "cidr_covers _ _ _ = False"

fun full_prefix :: "ip_addr \<Rightarrow> nat" where
  "full_prefix (V4 a) = 32"
| "full_prefix (V6 a) = 128"

definition cidr_entry :: "string \<Rightarrow> ip_addr \<Rightarrow> nat \<Rightarrow> bool" where
  "cidr_entry e a p \<longleftrightarrow>
     (case split_once CHR ''/'' e of
        None \<Rightarrow> parse_ip_addr e = Some a \<and> p = full_prefix a
      | Some (ip, pre) \<Rightarrow> parse_ip_addr ip = Some a \<and> parse_uint u8_max pre = Some p \<and> p \<le> full_prefix a)"

lemma parse_prefix_Ok:
  "parse_prefix pre mx value = Ok p \<longleftrightarrow>
     (case pre of None \<Rightarrow> p = mx | Some s \<Rightarrow> parse_uint u8_max s = Some p \<and> p \<le> mx)"
proof (cases pre)
  case None
  then show ?thesis by (auto simp: parse_prefix_def)
next
  case (Some s)
  then show ?thesis by (cases "parse_uint u8_max s") (auto simp: parse_prefix_def)
qed

lemma parse_network_contains:
  assumes "parse_network e = Ok n"
  shows "network_contains n ip \<longleftrightarrow> (\<exists>a p. cidr_entry e a p \<and> cidr_covers a p ip)"
proof (cases ip)
  case (V4 w)
  with assms show ?thesis
    by (auto simp: parse_network_def cidr_entry_def parse_prefix_Ok Let_def prefix_mask_v4_eq_iff
        split: option.splits prod.splits ip_addr.splits)
next
  case (V6 w)
  with assms show ?thesis
    by (auto simp: parse_network_def cidr_entry_def parse_prefix_Ok Let_def prefix_mask_v6_eq_iff
        split: option.splits prod.splits ip_addr.splits)
qed

lemma trusted_parse_networks:
  "trusted_parse value = Ok tp \<longleftrightarrow>
     list_all2 (\<lambda>e n. parse_network e = Ok n) (trusted_entries value) (networks tp)"
  by (cases tp) (auto simp: trusted_parse_def collect_results_Ok_iff)

lemma contains_iff: "contains tp ip \<longleftrightarrow> (\<exists>n \<in> set (networks tp). network_contains n ip)"
  by (simp add: contains_def list_ex_iff)

section \<open>The contract of a hop walk\<close>

text \<open>
  Both headers list the hops from the client to this server. A walk starts at the peer and
  goes from the nearest hop outwards while the current address is trusted and the next hop
  can be read.
\<close>

locale hop_walk =
  fixes trusted :: "ip_addr \<Rightarrow> bool"
    and hop :: "'e \<Rightarrow> ip_addr option"
    and walk :: "ip_addr \<Rightarrow> 'e list \<Rightarrow> ip_addr"
  assumes walk_Nil: "walk ip [] = ip"
    and walk_Cons: "walk ip (e # es) =
      (if trusted ip then case hop e of None \<Rightarrow> ip | Some c \<Rightarrow> walk c es else ip)"
begin

lemma walk_untrusted: "\<not> trusted ip \<Longrightarrow> walk ip es = ip"
  by (cases es) (simp_all add: walk_Nil walk_Cons)

lemma walk_origin: "walk ip es = ip \<or> (\<exists>e \<in> set es. hop e = Some (walk ip es))"
proof (induction es arbitrary: ip)
  case Nil
  then show ?case by (simp add: walk_Nil)
next
  case (Cons e es)
  show ?case using Cons.IH [of "the (hop e)"]
    by (cases "hop e") (auto simp: walk_Cons)
qed

text \<open>Hops beyond the first untrusted address cannot change the result.\<close>

lemma walk_stable:
  "\<not> trusted (walk ip es) \<Longrightarrow> walk ip (es @ fs) = walk ip es"
proof (induction es arbitrary: ip)
  case Nil
  then show ?case by (simp add: walk_Nil walk_untrusted)
next
  case (Cons e es)
  then show ?case by (auto simp: walk_Cons split: option.splits if_splits)
qed

text \<open>
  The walked path: every hop that was passed over, the peer included, is trusted, the result
  is the last one, and the walk stopped for a reason.
\<close>

lemma walk_path:
  "\<exists>hops. list_all2 (\<lambda>e h. hop e = Some h) (take (length hops) es) hops
     \<and> length hops \<le> length es
     \<and> (\<forall>h \<in> set (butlast (ip # hops)). trusted h)
     \<and> walk ip es = last (ip # hops)
     \<and> (length hops = length es \<or> \<not> trusted (walk ip es) \<or> hop (es ! length hops) = None)"
proof (induction es arbitrary: ip)
  case Nil
  show ?case by (rule exI [where x = "[]"]) (simp add: walk_Nil)
next
  case (Cons e es)
  show ?case
  proof (cases "trusted ip \<and> hop e \<noteq> None")
    case False
    then show ?thesis
      by (intro exI [where x = "[]"]) (auto simp: walk_Cons split: option.splits)
  next
    case True
    then obtain c where c: "hop e = Some c" by auto
    from Cons.IH [of c] obtain hops where
        h: "list_all2 (\<lambda>e h. hop e = Some h) (take (length hops) es) hops"
        "length hops \<le> length es" "\<forall>h \<in> set (butlast (c # hops)). trusted h"
        "walk c es = last (c # hops)"
        "length hops = length es \<or> \<not> trusted (walk c es) \<or> hop (es ! length hops) = None"
      by blast
    have w: "walk ip (e # es) = walk c es"
      using True c by (simp add: walk_Cons)
    show ?thesis
      by (rule exI [where x = "c # hops"]) (use True c h w in auto)
  qed
qed

end

interpretation xff: hop_walk "contains tp" "\<lambda>v. parse_forwarded_ip (trim v)" "xff_loop tp"
  by unfold_locales simp_all

interpretation fwd: hop_walk "contains tp" parse_forwarded_for_param "forwarded_loop tp"
  by unfold_locales simp_all

section \<open>Consequences for the resolver\<close>

lemma walk_xff_untrusted [simp]: "\<not> contains tp ip \<Longrightarrow> walk_xff tp ip h = ip"
  by (simp add: walk_xff_def)

lemma walk_forwarded_untrusted [simp]: "\<not> contains tp ip \<Longrightarrow> walk_forwarded tp ip h = ip"
  by (simp add: walk_forwarded_def)

lemma apply_source_untrusted [simp]: "\<not> contains tp ip \<Longrightarrow> apply_source tp xff fwd hdr m s ip = ip"
  by (cases s) (simp_all add: apply_source_def)

lemma fold_sources_untrusted:
  "\<not> contains tp ip \<Longrightarrow> fold (apply_source tp xff fwd hdr m) ss ip = ip"
  by (induction ss) simp_all

lemma walk_xff_prepend:
  assumes "\<not> contains tp (walk_xff tp peer (Some h))"
  shows "walk_xff tp peer (Some (evil @ '','' @ h)) = walk_xff tp peer (Some h)"
proof (cases "contains tp peer")
  case False
  then show ?thesis by simp
next
  case True
  have "rev (split_on CHR '','' (evil @ '','' @ h)) =
      rev (split_on CHR '','' h) @ rev (split_on CHR '','' evil)"
    by (simp add: split_on_append)
  with True assms show ?thesis by (simp add: walk_xff_def xff.walk_stable)
qed

text \<open>
  A quoted comma does not separate: splitting is compositional at a comma outside quotes, and
  without quotes it is the plain comma split.
\<close>

definition quotes_closed :: "string \<Rightarrow> bool" where
  "quotes_closed s \<longleftrightarrow> even (count_list s CHR 0x22)"

lemma split_forwarded_go_append:
  "split_forwarded_go (a @ '','' @ b) q piece =
     (if even (count_list a CHR 0x22) \<noteq> q
      then split_forwarded_go a q piece @ split_forwarded_go b False []
      else split_forwarded_go (a @ '','' @ b) q piece)"
  by (induction a arbitrary: q piece) auto

lemma split_forwarded_prepend:
  "quotes_closed a \<Longrightarrow>
     split_forwarded_elements (a @ '','' @ b) = split_forwarded_elements a @ split_forwarded_elements b"
  using split_forwarded_go_append [of a b False "[]"]
  by (simp add: split_forwarded_elements_def quotes_closed_def)

lemma split_forwarded_go_plain:
  "CHR 0x22 \<notin> set s \<Longrightarrow>
     split_forwarded_go s False piece =
       filter (\<lambda>p. p \<noteq> []) (map trim ((piece @ hd (split_on CHR '','' s)) # tl (split_on CHR '','' s)))"
  by (induction s arbitrary: piece) (auto simp: push_piece_def split: list.splits)

lemma split_forwarded_plain:
  assumes "CHR 0x22 \<notin> set s"
  shows "split_forwarded_elements s = filter (\<lambda>p. p \<noteq> []) (map trim (split_on CHR '','' s))"
proof -
  have "hd (split_on CHR '','' s) # tl (split_on CHR '','' s) = split_on CHR '','' s"
    by simp
  with split_forwarded_go_plain [OF assms, of "[]"] show ?thesis
    by (metis append_Nil split_forwarded_elements_def)
qed

lemma walk_forwarded_prepend:
  assumes "quotes_closed evil" and "\<not> contains tp (walk_forwarded tp peer (Some h))"
  shows "walk_forwarded tp peer (Some (evil @ '','' @ h)) = walk_forwarded tp peer (Some h)"
proof (cases "contains tp peer")
  case False
  then show ?thesis by simp
next
  case True
  with assms show ?thesis
    by (simp add: walk_forwarded_def split_forwarded_prepend [simplified] fwd.walk_stable)
qed

section \<open>Properties\<close>

text \<open>C16. Forwarding headers are ignored when the peer is not a trusted proxy: whatever
  \<open>X-Forwarded-For\<close>, \<open>Forwarded\<close> and the extra header say, and whatever order of sources is
  configured, the resolved client is the peer itself.\<close>

theorem resolve_untrusted_peer:
  assumes "\<not> contains tp peer"
  shows "resolve_sources tp (Some peer) xff fwd hdr config = Some peer"
  using fold_sources_untrusted [OF assms] by (simp add: resolve_sources_def)

theorem resolve_untrusted_peer_witness:
  "resolve_sources \<lparr>networks = [Net4 0x0A000000 0xFF000000]\<rparr> (Some (V4 0xCB007107))
     (Some ''1.1.1.1'') (Some ''for=2.2.2.2'') (Some ''3.3.3.3'')
     \<lparr>order = [XForwardedFor, Forwarded, Header], forwarded = Accept, extra_header = Some ''cf-ip''\<rparr>
   = Some (V4 0xCB007107)"
proof -
  have "\<not> contains \<lparr>networks = [Net4 0x0A000000 0xFF000000]\<rparr> (V4 0xCB007107)" by code_simp
  then show ?thesis by (rule resolve_untrusted_peer)
qed

text \<open>C17. A client cannot move its own address by sending an \<open>X-Forwarded-For\<close> of its own:
  once the hops appended by the proxies lead to an address that is not a trusted proxy, any
  text in front of them leaves the resolved address unchanged.\<close>

theorem xff_prepend_ignored:
  assumes "\<not> contains tp (walk_xff tp peer (Some h))"
  shows "walk_xff tp peer (Some (evil @ '','' @ h)) = walk_xff tp peer (Some h)"
  using assms by (rule walk_xff_prepend)

theorem xff_prepend_ignored_witness:
  "walk_xff \<lparr>networks = [Net4 0x0A000000 0xFF000000]\<rparr> (V4 0x0A000001)
     (Some (''127.0.0.1, 10.0.0.9'' @ '','' @ ''203.0.113.7, 10.0.0.2'')) = V4 0xCB007107"
proof -
  let ?tp = "\<lparr>networks = [Net4 0x0A000000 0xFF000000]\<rparr>"
  have w: "walk_xff ?tp (V4 0x0A000001) (Some ''203.0.113.7, 10.0.0.2'') = V4 0xCB007107"
    by code_simp
  have "\<not> contains ?tp (V4 0xCB007107)" by code_simp
  with w xff_prepend_ignored [of ?tp "V4 0x0A000001" "''203.0.113.7, 10.0.0.2''" "''127.0.0.1, 10.0.0.9''"]
  show ?thesis by simp
qed

text \<open>The walk over \<open>X-Forwarded-For\<close> only steps through trusted proxies: the entries are
  read from the right, every address before the last one read, the peer included, is
  trusted, the result is the last address read, and the walk stops only at the end of the
  header, at an untrusted address or at an entry that is no address.\<close>

theorem xff_walk_path:
  assumes "contains tp peer"
  shows "\<exists>hops. let entries = rev (split_on CHR '','' h); client = walk_xff tp peer (Some h) in
     list_all2 (\<lambda>e ip. parse_forwarded_ip (trim e) = Some ip) (take (length hops) entries) hops \<and>
     length hops \<le> length entries \<and>
     (\<forall>ip \<in> set (butlast (peer # hops)). contains tp ip) \<and>
     client = last (peer # hops) \<and>
     (length hops = length entries \<or> \<not> contains tp client \<or>
      parse_forwarded_ip (trim (entries ! length hops)) = None)"
  using xff.walk_path [where tp = tp and ip = peer and es = "rev (split_on CHR '','' h)"] assms
  by (simp add: walk_xff_def Let_def)

theorem xff_walk_path_witness:
  "\<exists>hops. let entries = rev (split_on CHR '','' ''203.0.113.7, 10.0.0.2'');
       client = walk_xff \<lparr>networks = [Net4 0x0A000000 0xFF000000]\<rparr> (V4 0x0A000001)
         (Some ''203.0.113.7, 10.0.0.2'') in
     list_all2 (\<lambda>e ip. parse_forwarded_ip (trim e) = Some ip) (take (length hops) entries) hops \<and>
     length hops \<le> length entries \<and>
     (\<forall>ip \<in> set (butlast (V4 0x0A000001 # hops)).
        contains \<lparr>networks = [Net4 0x0A000000 0xFF000000]\<rparr> ip) \<and>
     client = last (V4 0x0A000001 # hops) \<and>
     (length hops = length entries \<or>
      \<not> contains \<lparr>networks = [Net4 0x0A000000 0xFF000000]\<rparr> client \<or>
      parse_forwarded_ip (trim (entries ! length hops)) = None)"
proof -
  have "contains \<lparr>networks = [Net4 0x0A000000 0xFF000000]\<rparr> (V4 0x0A000001)" by code_simp
  then show ?thesis by (rule xff_walk_path)
qed

text \<open>The same holds for the \<open>Forwarded\<close> header, whose elements are split at commas
  outside quotes: text with balanced quotes in front of the elements that the proxies
  appended does not change a resolved address that is not a trusted proxy.\<close>

theorem forwarded_prepend_ignored:
  assumes "even (count_list evil CHR 0x22)"
    and "\<not> contains tp (walk_forwarded tp peer (Some h))"
  shows "walk_forwarded tp peer (Some (evil @ '','' @ h)) = walk_forwarded tp peer (Some h)"
  using walk_forwarded_prepend [of evil tp peer h] assms by (simp add: quotes_closed_def)

theorem forwarded_prepend_ignored_witness:
  "walk_forwarded \<lparr>networks = [Net4 0x0A000000 0xFF000000]\<rparr> (V4 0x0A000001)
     (Some (''for=10.0.0.7'' @ '','' @ ''proto=https;for=203.0.113.7'')) = V4 0xCB007107"
proof -
  let ?tp = "\<lparr>networks = [Net4 0x0A000000 0xFF000000]\<rparr>"
  have w: "walk_forwarded ?tp (V4 0x0A000001) (Some ''proto=https;for=203.0.113.7'') = V4 0xCB007107"
    by code_simp
  have "even (count_list ''for=10.0.0.7'' CHR 0x22)" and "\<not> contains ?tp (V4 0xCB007107)"
    by code_simp+
  with w forwarded_prepend_ignored [of "''for=10.0.0.7''" ?tp "V4 0x0A000001"
      "''proto=https;for=203.0.113.7''"]
  show ?thesis by simp
qed

text \<open>\<open>TRUSTED_PROXIES\<close> means what CIDR notation means: after a successful parse an
  address is trusted exactly when some comma-separated entry has the same address family and
  agrees with it on the leading prefix bits, all bits when no prefix length is given.\<close>

theorem trusted_parse_cidr:
  assumes "trusted_parse value = Ok tp"
  shows "is_trusted tp ip \<longleftrightarrow>
     (\<exists>e \<in> set (trusted_entries value). \<exists>a p. cidr_entry e a p \<and> cidr_covers a p ip)"
proof -
  have all: "list_all2 (\<lambda>e n. parse_network e = Ok n) (trusted_entries value) (networks tp)"
    using assms by (simp add: trusted_parse_networks)
  have "is_trusted tp ip \<longleftrightarrow> (\<exists>n \<in> set (networks tp). network_contains n ip)"
    by (simp add: is_trusted_def contains_iff)
  also have "\<dots> \<longleftrightarrow> (\<exists>e \<in> set (trusted_entries value). \<exists>a p. cidr_entry e a p \<and> cidr_covers a p ip)"
    using all by (induction rule: list_all2_induct) (auto simp: parse_network_contains)
  finally show ?thesis .
qed

theorem trusted_parse_cidr_witness:
  "is_trusted \<lparr>networks = [Net4 0x0A000000 0xFF000000]\<rparr> (V4 0x0A636363) \<longleftrightarrow>
     (\<exists>e \<in> set (trusted_entries ''10.1.2.3/8,''). \<exists>a p. cidr_entry e a p \<and> cidr_covers a p (V4 0x0A636363))"
proof -
  have "trusted_parse ''10.1.2.3/8,'' = Ok \<lparr>networks = [Net4 0x0A000000 0xFF000000]\<rparr>" by code_simp
  then show ?thesis by (rule trusted_parse_cidr)
qed

text \<open>Risk keys group IPv6 clients by their /64 network and keep IPv4 clients apart: two
  addresses fall in the same risk network exactly when they are the same IPv4 address or
  share the leading 64 bits of an IPv6 address.\<close>

theorem risk_network_classes:
  "risk_network x = risk_network y \<longleftrightarrow>
     (case (x, y) of
        (V4 a, V4 b) \<Rightarrow> a = b
      | (V6 a, V6 b) \<Rightarrow> drop_bit 64 a = drop_bit 64 b
      | _ \<Rightarrow> False)"
  using high_mask_eq_iff [where 'a = 128 and k = 64]
  by (cases x; cases y) (simp_all only: risk_network.simps ip_addr.simps prod.case)

end
