(* ===== verification/Sliding_Window.thy ===== *)
theory Sliding_Window
  imports Prelude
begin

text \<open>
  Sliding admission windows, shared by the request limiter and the connection filter. A
  bucket is the list of instants at which something was admitted; an instant is live at
  \<open>now\<close> when it is less than a window old. \<open>Instant::duration_since\<close> saturates at zero, as
  subtraction on \<open>nat\<close> does. The locale \<open>sliding_window\<close> is the interface the two users
  rely on, whatever way they drop the expired instants.
\<close>

definition live :: "nat \<Rightarrow> nat \<Rightarrow> nat \<Rightarrow> bool" where
  "live w now t \<longleftrightarrow> now - t < w"

definition window_count :: "nat \<Rightarrow> nat \<Rightarrow> nat list \<Rightarrow> nat" where
  "window_count w a hs = length (filter (\<lambda>t. a \<le> t \<and> t < a + w) hs)"

text \<open>
  \<open>tracks w mx c ts hs\<close> relates a bucket \<open>ts\<close>, last touched at \<open>c\<close>, to the whole history
  \<open>hs\<close> of admissions: the bucket still answers for every admission that can matter from now
  on, and no window of the history holds more than \<open>mx\<close> admissions.
\<close>

definition tracks :: "nat \<Rightarrow> nat \<Rightarrow> nat \<Rightarrow> nat list \<Rightarrow> nat list \<Rightarrow> bool" where
  "tracks w mx c ts hs \<longleftrightarrow>
     sorted hs \<and> sorted ts \<and> (\<forall>t \<in> set hs. t \<le> c) \<and> set ts \<subseteq> set hs \<and>
     (\<forall>now \<ge> c. filter (live w now) ts = filter (live w now) hs) \<and>
     (\<forall>a. window_count w a hs \<le> mx)"

lemma live_mono: "c \<le> now \<Longrightarrow> live w now t \<Longrightarrow> live w c t"
  by (auto simp: live_def)

lemma tracks_empty [simp, intro]: "tracks w mx c [] []"
  by (simp add: tracks_def window_count_def)

lemma tracks_later:
  assumes "tracks w mx c ts hs" and "c \<le> now"
  shows "tracks w mx now ts hs"
  using assms by (fastforce simp: tracks_def)

lemma tracks_bound: "tracks w mx c ts hs \<Longrightarrow> window_count w a hs \<le> mx"
  by (simp add: tracks_def)

lemma tracks_prune:
  assumes "tracks w mx c ts hs" and "c \<le> now"
  shows "tracks w mx now (filter (live w now) ts) hs"
proof -
  have "filter (live w t) (filter (live w now) ts) = filter (live w t) ts" if "now \<le> t" for t
    using that by (auto simp: filter_filter intro!: filter_cong dest: live_mono)
  moreover have "filter (live w t) ts = filter (live w t) hs" if "now \<le> t" for t
    using assms that by (simp add: tracks_def)
  ultimately show ?thesis
    using assms by (fastforce simp: tracks_def intro: sorted_wrt_filter)
qed

lemma window_count_snoc:
  "window_count w a (hs @ [t]) = window_count w a hs + (if a \<le> t \<and> t < a + w then 1 else 0)"
  by (simp add: window_count_def)

lemma window_count_live:
  assumes "a \<le> now" and "now < a + w"
  shows "window_count w a hs \<le> length (filter (live w now) hs)"
proof -
  have "filter (\<lambda>t. a \<le> t \<and> t < a + w) hs =
      filter (\<lambda>t. a \<le> t \<and> t < a + w) (filter (live w now) hs)"
    using assms by (auto simp: filter_filter live_def intro!: filter_cong)
  then show ?thesis
    by (metis length_filter_le window_count_def)
qed

lemma tracks_push:
  assumes t: "tracks w mx c ts hs" and c: "c \<le> now"
    and room: "length (filter (live w now) ts) < mx"
  shows "tracks w mx now (filter (live w now) ts @ [now]) (hs @ [now])"
proof -
  let ?e = "filter (live w now) ts"
  have p: "tracks w mx now ?e hs"
    using t c by (rule tracks_prune)
  have e: "length (filter (live w now) hs) < mx"
    using t c room by (simp add: tracks_def)
  have "window_count w a (hs @ [now]) \<le> mx" for a
    using window_count_live [of a now w hs] e tracks_bound [OF t, of a]
    by (auto simp: window_count_snoc)
  moreover have "\<forall>x \<in> set ?e. x \<le> now" and "\<forall>x \<in> set hs. x \<le> now"
    using t c by (fastforce simp: tracks_def)+
  ultimately show ?thesis
    using p by (auto simp: tracks_def sorted_append)
qed

locale sliding_window =
  fixes w :: nat and prune :: "nat \<Rightarrow> nat list \<Rightarrow> nat list"
  assumes prune_live: "sorted ts \<Longrightarrow> prune now ts = filter (live w now) ts"
begin

lemma prune_tracks:
  assumes "tracks w mx c ts hs" and "c \<le> now"
  shows "tracks w mx now (prune now ts) hs"
proof -
  have "prune now ts = filter (live w now) ts"
    using assms(1) by (simp add: prune_live tracks_def)
  with tracks_prune [OF assms] show ?thesis by simp
qed

lemma push_tracks:
  assumes "tracks w mx c ts hs" and "c \<le> now" and "length (prune now ts) < mx"
  shows "tracks w mx now (prune now ts @ [now]) (hs @ [now])"
proof -
  have "prune now ts = filter (live w now) ts"
    using assms(1) by (simp add: prune_live tracks_def)
  with tracks_push [of w mx c ts hs now] assms show ?thesis by simp
qed

lemma prune_length: "sorted ts \<Longrightarrow> length (prune now ts) \<le> length ts"
  by (simp add: prune_live)

end

section \<open>The two ways of pruning\<close>

text \<open>\<open>Vec::retain\<close> looks at every instant, wherever it stands.\<close>

definition retain_live :: "nat \<Rightarrow> nat \<Rightarrow> nat list \<Rightarrow> nat list" where
  "retain_live w now ts = filter (\<lambda>t. now - t < w) ts"

text \<open>The connection filter pops expired instants off the front of a deque.\<close>

primrec pop_expired :: "nat \<Rightarrow> nat \<Rightarrow> nat list \<Rightarrow> nat list" where
  "pop_expired w now [] = []"
| "pop_expired w now (t # ts) = (if w \<le> now - t then pop_expired w now ts else t # ts)"

interpretation retain: sliding_window w "retain_live w"
  by unfold_locales (simp add: retain_live_def live_def [abs_def])

lemma pop_expired_sorted: "sorted ts \<Longrightarrow> pop_expired w now ts = filter (live w now) ts"
proof (induction ts)
  case Nil
  then show ?case by simp
next
  case (Cons t ts)
  show ?case
  proof (cases "w \<le> now - t")
    case True
    with Cons show ?thesis by (simp add: live_def)
  next
    case False
    moreover have "\<forall>x \<in> set ts. live w now x"
      using Cons.prems False by (auto simp: live_def)
    ultimately show ?thesis by (simp add: live_def)
  qed
qed

interpretation pop: sliding_window w "pop_expired w"
  by unfold_locales (rule pop_expired_sorted)

end
