(* ===== verification/Assoc_Maps.thy ===== *)
theory Assoc_Maps
  imports Prelude "HOL-Library.AList"
begin

text \<open>
  Concurrent and ordinary hash maps are association lists with distinct keys. This theory has
  the lemmas on updates, deletions and \<open>retain\<close> that the components with such maps share.
\<close>

declare map_of_eq_Some_iff [simp del]

lemma length_alist_update:
  "length (AList.update k v al) = (if k \<in> fst ` set al then length al else Suc (length al))"
  by (induction al) auto

lemma set_alist_update: "x \<in> set (AList.update k v al) \<Longrightarrow> x = (k, v) \<or> x \<in> set al"
  by (induction al) (auto split: if_splits)

lemma length_alist_delete:
  assumes "distinct (map fst al)" and "map_of al k \<noteq> None"
  shows "Suc (length (AList.delete k al)) = length al"
  using assms
proof (induction al)
  case (Cons p al)
  show ?case
  proof (cases "fst p = k")
    case True
    with Cons.prems have "AList.delete k al = al" by (auto intro: delete_idem)
    with True show ?thesis by simp
  next
    case False
    with Cons show ?thesis by (cases p) simp
  qed
qed simp

lemma length_update_new: "map_of al k = None \<Longrightarrow> length (AList.update k v al) = Suc (length al)"
  and length_update_old: "map_of al k \<noteq> None \<Longrightarrow> length (AList.update k v al) = length al"
  by (simp_all add: length_alist_update map_of_eq_None_iff)

lemma map_of_AList_delete: "map_of (AList.delete k al) x = (if x = k then None else map_of al x)"
  by (simp add: delete_conv')

lemma map_of_fold_delete:
  "map_of (fold AList.delete ks al) x = (if x \<in> set ks then None else map_of al x)"
  by (induction ks arbitrary: al) (auto simp: map_of_AList_delete)

lemma set_fold_delete: "set (fold AList.delete ks al) = {(k, v) \<in> set al. k \<notin> set ks}"
  by (induction ks arbitrary: al) (auto simp: AList.delete_eq)

lemma distinct_fold_delete:
  "distinct (map fst al) \<Longrightarrow> distinct (map fst (fold AList.delete ks al))"
  by (induction ks arbitrary: al) (auto intro: distinct_delete)

lemma length_fold_delete:
  assumes "distinct (map fst al)" and "distinct ks" and "set ks \<subseteq> set (map fst al)"
  shows "length (fold AList.delete ks al) = length al - length ks"
proof -
  let ?d = "fold AList.delete ks al"
  have "fst ` set ?d = fst ` set al - set ks"
    by (force simp: set_fold_delete)
  then have "length ?d = card (fst ` set al - set ks)"
    using distinct_fold_delete [OF assms(1), of ks] by (metis distinct_card length_map list.set_map)
  also have "\<dots> = card (fst ` set al) - card (set ks)"
    using assms(3) by (intro card_Diff_subset) auto
  finally show ?thesis
    using assms(1,2) by (metis distinct_card length_map list.set_map)
qed

lemma map_of_retain:
  "distinct (map fst al) \<Longrightarrow>
   map_of (filter (\<lambda>(k, ts). ts \<noteq> []) (map (\<lambda>(k, ts). (k, f ts)) al)) k =
     opt_filter (\<lambda>ts. ts \<noteq> []) (map_option f (map_of al k))"
proof (induction al)
  case Nil
  then show ?case by simp
next
  case (Cons a al)
  obtain k' ts where a: "a = (k', ts)" by (cases a)
  have "map_of al k' = None"
    using Cons.prems a by (simp add: map_of_eq_None_iff)
  with Cons a show ?case by auto
qed

lemma distinct_retain:
  "distinct (map fst al) \<Longrightarrow>
   distinct (map fst (filter (\<lambda>(k, ts). ts \<noteq> []) (map (\<lambda>(k, ts). (k, f ts)) al)))"
  by (induction al) (auto, force)

end
