(* ===== verification/Rate_Limit.thy ===== *)
theory Rate_Limit
  imports Client_Ip Sliding_Window Assoc_Maps
begin

text \<open>
  The request limiter, \<open>src/src/rate_limit.rs\<close>. The concurrent map is an association list
  with distinct keys whose order is the map's iteration order; nothing that is proved here
  depends on that order. Instants are nanoseconds as \<open>nat\<close>; each call of \<open>Instant::now\<close> is
  an argument of the operation that makes it. \<open>rate_step\<close> is what happens while one map entry
  is locked; \<open>check\<close> runs it for each key in turn. The relation \<open>limiter_run\<close> lets the steps
  of any number of concurrent checks, sweeps and evictions interleave.
\<close>

datatype rate_key =
    KNetwork site_client_key
  | KRoute site_client_key string
  | KSession string u64
  | KApiKey string u64
  | KJwtSub string u64
  | KJwtTenant string u64

record rate_limiter =
  requests :: "(rate_key \<times> nat list) list"
  max_requests :: nat
  window_secs :: nat
  max_ips :: nat
  hits :: u64

definition nanos_per_sec :: nat where
  "nanos_per_sec = 1000000000"

definition window_of :: "rate_limiter \<Rightarrow> nat" where
  "window_of rl = window_secs rl * nanos_per_sec"

definition rate_limiter_new :: "nat \<Rightarrow> nat \<Rightarrow> nat \<Rightarrow> rate_limiter" where
  "rate_limiter_new mx win ips =
     \<lparr>requests = [], max_requests = mx, window_secs = win, max_ips = max ips 1, hits = 0\<rparr>"

definition env_uint :: "(string \<Rightarrow> string option) \<Rightarrow> string \<Rightarrow> nat option" where
  "env_uint env name = Option.bind (env name) (parse_uint u64_max)"

definition rate_limiter_from_env :: "(string \<Rightarrow> string option) \<Rightarrow> rate_limiter" where
  "rate_limiter_from_env env =
     (let configured = unwrap_or (env_uint env ''RATE_LIMIT_MAX'') 100;
          replicas = unwrap_or (opt_filter (\<lambda>v. 0 < v) (env_uint env ''REPLICA_COUNT'')) 1;
          mx = max (configured div replicas) 1;
          win = unwrap_or (env_uint env ''RATE_LIMIT_WINDOW'') 60;
          ips = unwrap_or (env_uint env ''RATE_LIMIT_MAX_IPS'') 50000
      in rate_limiter_new mx win ips)"

text \<open>The bucket of a key; \<open>entry(..).or_default()\<close> starts from an empty one.\<close>

definition bucket :: "rate_limiter \<Rightarrow> rate_key \<Rightarrow> nat list" where
  "bucket rl k = unwrap_or (map_of (requests rl) k) []"

definition tracked_ips :: "rate_limiter \<Rightarrow> nat" where
  "tracked_ips rl = length (requests rl)"

definition evict_expired :: "nat \<Rightarrow> rate_limiter \<Rightarrow> rate_limiter" where
  "evict_expired now rl =
     rl\<lparr>requests := filter (\<lambda>(k, ts). ts \<noteq> [])
          (map (\<lambda>(k, ts). (k, retain_live (window_of rl) now ts)) (requests rl))\<rparr>"

definition shrink_victims :: "rate_key list \<Rightarrow> rate_limiter \<Rightarrow> rate_key list" where
  "shrink_victims keep rl =
     (let overflow = tracked_ips rl - max_ips rl;
          entries = map (\<lambda>(k, ts). (k, last ts))
            (filter (\<lambda>(k, ts). k \<notin> set keep \<and> ts \<noteq> []) (requests rl))
      in map fst (take overflow (sort_key snd entries)))"

definition shrink_to_cap :: "rate_key list \<Rightarrow> rate_limiter \<Rightarrow> rate_limiter" where
  "shrink_to_cap keep rl =
     rl\<lparr>requests := fold AList.delete (shrink_victims keep rl) (requests rl)\<rparr>"

definition maybe_sweep :: "nat \<Rightarrow> rate_limiter \<Rightarrow> rate_limiter" where
  "maybe_sweep now rl =
     (let n = hits rl; rl1 = rl\<lparr>hits := n + 1\<rparr>
      in if unat n mod 256 = 0 then
           (let rl2 = evict_expired now rl1
            in if max_ips rl2 < tracked_ips rl2 then shrink_to_cap [] rl2 else rl2)
         else rl1)"

definition enforce_cap :: "nat \<Rightarrow> rate_key list \<Rightarrow> rate_limiter \<Rightarrow> rate_limiter" where
  "enforce_cap now keep rl =
     (if max_ips rl < tracked_ips rl then
        (let rl1 = evict_expired now rl
         in if max_ips rl1 < tracked_ips rl1 then shrink_to_cap keep rl1 else rl1)
      else rl)"

definition rate_keys :: "risk_identity \<Rightarrow> rate_key list" where
  "rate_keys r =
     [KNetwork (identity_network_key r), KRoute (identity_network_key r) (route r)]
     @ (case session_hash r of Some h \<Rightarrow> [KSession (site r) h] | None \<Rightarrow> [])
     @ (case api_key_hash r of Some h \<Rightarrow> [KApiKey (site r) h] | None \<Rightarrow> [])
     @ (case jwt_sub_hash r of Some h \<Rightarrow> [KJwtSub (site r) h] | None \<Rightarrow> [])
     @ (case jwt_tenant_hash r of Some h \<Rightarrow> [KJwtTenant (site r) h] | None \<Rightarrow> [])"

definition rate_step :: "nat \<Rightarrow> rate_key \<Rightarrow> rate_limiter \<Rightarrow> bool \<times> rate_limiter" where
  "rate_step now k rl =
     (let entry = retain_live (window_of rl) now (bucket rl k)
      in if max_requests rl \<le> length entry
         then (False, rl\<lparr>requests := AList.update k entry (requests rl)\<rparr>)
         else (True, rl\<lparr>requests := AList.update k (entry @ [now]) (requests rl)\<rparr>))"

primrec rate_loop :: "nat \<Rightarrow> rate_key list \<Rightarrow> rate_limiter \<Rightarrow> bool \<times> rate_limiter" where
  "rate_loop now [] rl = (True, rl)"
| "rate_loop now (k # ks) rl =
     (case rate_step now k rl of
        (False, rl1) \<Rightarrow> (False, rl1)
      | (True, rl1) \<Rightarrow> rate_loop now ks rl1)"

text \<open>
  \<open>check\<close>: the sweep reads the clock at \<open>t_sweep\<close>, the loop at \<open>now\<close>, and the cap at
  \<open>t_cap\<close>. A refused request returns before the cap is enforced.
\<close>

definition check :: "nat \<Rightarrow> nat \<Rightarrow> nat \<Rightarrow> risk_identity \<Rightarrow> rate_limiter \<Rightarrow> bool \<times> rate_limiter" where
  "check t_sweep now t_cap identity rl =
     (let keys = rate_keys identity
      in case rate_loop now keys (maybe_sweep t_sweep rl) of
           (False, rl1) \<Rightarrow> (False, rl1)
         | (True, rl1) \<Rightarrow> (True, enforce_cap t_cap keys rl1))"

declare map_of_eq_Some_iff [simp del]

section \<open>Well-formed limiters\<close>

definition limiter_wf :: "rate_limiter \<Rightarrow> bool" where
  "limiter_wf rl \<longleftrightarrow>
     distinct (map fst (requests rl)) \<and> 0 < max_requests rl \<and> 0 < max_ips rl \<and>
     (\<forall>k ts. map_of (requests rl) k = Some ts \<longrightarrow> ts \<noteq> [] \<and> length ts \<le> max_requests rl)"

lemma limiter_wf_new [simp]: "0 < mx \<Longrightarrow> limiter_wf (rate_limiter_new mx win ips)"
  by (simp add: limiter_wf_def rate_limiter_new_def)

lemma params_evict [simp]:
  "max_requests (evict_expired now rl) = max_requests rl"
  "max_ips (evict_expired now rl) = max_ips rl"
  "window_secs (evict_expired now rl) = window_secs rl"
  by (simp_all add: evict_expired_def)

lemma params_shrink [simp]:
  "max_requests (shrink_to_cap keep rl) = max_requests rl"
  "max_ips (shrink_to_cap keep rl) = max_ips rl"
  "window_secs (shrink_to_cap keep rl) = window_secs rl"
  by (simp_all add: shrink_to_cap_def)

lemma params_step [simp]:
  "max_requests (snd (rate_step now k rl)) = max_requests rl"
  "max_ips (snd (rate_step now k rl)) = max_ips rl"
  "window_secs (snd (rate_step now k rl)) = window_secs rl"
  by (simp_all add: rate_step_def Let_def)

lemma map_of_evict:
  "distinct (map fst (requests rl)) \<Longrightarrow>
   map_of (requests (evict_expired now rl)) k =
     opt_filter (\<lambda>ts. ts \<noteq> []) (map_option (retain_live (window_of rl) now) (map_of (requests rl) k))"
  by (simp add: evict_expired_def map_of_retain)

lemma bucket_evict:
  "distinct (map fst (requests rl)) \<Longrightarrow>
   bucket (evict_expired now rl) k = retain_live (window_of rl) now (bucket rl k)"
  by (cases "map_of (requests rl) k") (auto simp: bucket_def map_of_evict retain_live_def)

lemma bucket_shrink:
  "bucket (shrink_to_cap keep rl) k = (if k \<in> set (shrink_victims keep rl) then [] else bucket rl k)"
  by (simp add: bucket_def shrink_to_cap_def map_of_fold_delete)

lemma bucket_step:
  "bucket (snd (rate_step now k rl)) k' =
     (if k' \<noteq> k then bucket rl k'
      else retain_live (window_of rl) now (bucket rl k) @ (if fst (rate_step now k rl) then [now] else []))"
  by (simp add: bucket_def rate_step_def Let_def update_conv')

lemma fst_rate_step:
  "fst (rate_step now k rl) \<longleftrightarrow> length (retain_live (window_of rl) now (bucket rl k)) < max_requests rl"
  by (auto simp: rate_step_def Let_def)


lemma retain_live_length: "length (retain_live w now ts) \<le> length ts"
  by (simp add: retain_live_def)

lemma bucket_length: "limiter_wf rl \<Longrightarrow> length (bucket rl k) \<le> max_requests rl"
  by (cases "map_of (requests rl) k") (auto simp: limiter_wf_def bucket_def)

lemma distinct_evict:
  "distinct (map fst (requests rl)) \<Longrightarrow> distinct (map fst (requests (evict_expired now rl)))"
  by (simp add: evict_expired_def distinct_retain)

lemma limiter_wf_evict: "limiter_wf rl \<Longrightarrow> limiter_wf (evict_expired now rl)"
  unfolding limiter_wf_def
  by (auto simp: map_of_evict distinct_evict intro: order.trans [OF retain_live_length])

lemma limiter_wf_shrink: "limiter_wf rl \<Longrightarrow> limiter_wf (shrink_to_cap keep rl)"
  by (auto simp: limiter_wf_def shrink_to_cap_def map_of_fold_delete distinct_fold_delete)

lemma limiter_wf_step:
  assumes "limiter_wf rl"
  shows "limiter_wf (snd (rate_step now k rl))"
proof -
  let ?e = "retain_live (window_of rl) now (bucket rl k)"
  have "length ?e \<le> max_requests rl"
    using bucket_length [OF assms] retain_live_length order.trans by blast
  with assms show ?thesis
    by (auto simp: limiter_wf_def rate_step_def Let_def update_conv' distinct_update)
qed

lemma limiter_wf_loop: "limiter_wf rl \<Longrightarrow> limiter_wf (snd (rate_loop now ks rl))"
proof (induction ks arbitrary: rl)
  case Nil
  then show ?case by simp
next
  case (Cons k ks)
  then show ?case
    using limiter_wf_step [of rl now k] by (auto split: prod.splits bool.splits)
qed

lemma limiter_wf_hits [simp]: "limiter_wf (rl\<lparr>hits := n\<rparr>) = limiter_wf rl"
  by (simp add: limiter_wf_def)

lemma limiter_wf_sweep: "limiter_wf rl \<Longrightarrow> limiter_wf (maybe_sweep now rl)"
  by (simp add: maybe_sweep_def Let_def limiter_wf_evict limiter_wf_shrink)

lemma limiter_wf_cap: "limiter_wf rl \<Longrightarrow> limiter_wf (enforce_cap now keep rl)"
  by (simp add: enforce_cap_def Let_def limiter_wf_evict limiter_wf_shrink)

section \<open>The cap on tracked keys\<close>

lemma shrink_victims_distinct:
  assumes "distinct (map fst (requests rl))"
  shows "distinct (shrink_victims keep rl)"
proof -
  let ?es = "map (\<lambda>(k, ts). (k, last ts)) (filter (\<lambda>(k, ts). k \<notin> set keep \<and> ts \<noteq> []) (requests rl))"
  have es: "map fst ?es = map fst (filter (\<lambda>(k, ts). k \<notin> set keep \<and> ts \<noteq> []) (requests rl))"
    by (auto simp: case_prod_beta)
  have "distinct (map fst ?es)"
    unfolding es using assms by (rule distinct_map_filter)
  then have "distinct (map fst (sort_key snd ?es))"
    by (simp only: distinct_map distinct_sort set_sort)
  then show ?thesis
    by (simp add: shrink_victims_def Let_def take_map [symmetric])
qed


lemma shrink_victims_subset: "set (shrink_victims keep rl) \<subseteq> set (map fst (requests rl)) - set keep"
proof
  fix k assume "k \<in> set (shrink_victims keep rl)"
  then have "k \<in> fst ` set (map (\<lambda>(k, ts). (k, last ts))
      (filter (\<lambda>(k, ts). k \<notin> set keep \<and> ts \<noteq> []) (requests rl)))"
    by (auto simp: shrink_victims_def Let_def dest!: in_set_takeD)
  then show "k \<in> set (map fst (requests rl)) - set keep" by force
qed

lemma length_shrink_victims:
  assumes "limiter_wf rl"
  shows "min (tracked_ips rl - max_ips rl) (tracked_ips rl - length keep) \<le> length (shrink_victims keep rl)"
proof -
  let ?al = "requests rl"
  have ne: "\<forall>(k, ts) \<in> set ?al. ts \<noteq> []"
    using assms by (auto simp: limiter_wf_def dest: map_of_is_SomeI)
  have f: "filter (\<lambda>(k, ts). k \<notin> set keep \<and> ts \<noteq> []) ?al = filter (\<lambda>(k, ts). k \<notin> set keep) ?al"
    using ne by (auto intro: filter_cong)
  have d: "distinct (map fst (filter (\<lambda>(k, ts). k \<in> set keep) ?al))"
    using assms by (intro distinct_map_filter) (simp add: limiter_wf_def)
  have "length (filter (\<lambda>(k, ts). k \<in> set keep) ?al) =
      card (set (map fst (filter (\<lambda>(k, ts). k \<in> set keep) ?al)))"
    using distinct_card [OF d] by simp
  also have "\<dots> \<le> card (set keep)"
    by (rule card_mono) auto
  also have "\<dots> \<le> length keep" by (rule card_length)
  finally have kept: "length (filter (\<lambda>(k, ts). k \<in> set keep) ?al) \<le> length keep" .
  have "length (filter (\<lambda>(k, ts). k \<in> set keep) ?al) + length (filter (\<lambda>(k, ts). k \<notin> set keep) ?al) = length ?al"
    using sum_length_filter_compl [of "\<lambda>(k, ts). k \<in> set keep" ?al] by (simp add: case_prod_unfold)
  with kept f show ?thesis
    by (simp add: shrink_victims_def Let_def tracked_ips_def)
qed

lemma shrink_tracked:
  assumes "limiter_wf rl"
  shows "tracked_ips (shrink_to_cap keep rl) \<le> max (max_ips rl) (length keep)"
proof -
  have d: "distinct (map fst (requests rl))" using assms by (simp add: limiter_wf_def)
  have "tracked_ips (shrink_to_cap keep rl) = tracked_ips rl - length (shrink_victims keep rl)"
    using length_fold_delete [OF d shrink_victims_distinct [OF d, of keep]]
      shrink_victims_subset [of keep rl]
    by (auto simp: tracked_ips_def shrink_to_cap_def)
  with length_shrink_victims [OF assms, of keep] show ?thesis by linarith
qed

lemma enforce_cap_tracked:
  assumes "limiter_wf rl"
  shows "tracked_ips (enforce_cap now keep rl) \<le> max (max_ips rl) (length keep)"
  using shrink_tracked [OF limiter_wf_evict [OF assms, of now], of keep]
  by (auto simp: enforce_cap_def Let_def)

lemma length_rate_keys: "length (rate_keys r) \<le> 6"
  by (auto simp: rate_keys_def split: option.splits)

lemma distinct_rate_keys: "distinct (rate_keys r)"
  by (auto simp: rate_keys_def split: option.splits)

lemma params_loop [simp]:
  "max_requests (snd (rate_loop now ks rl)) = max_requests rl"
  "max_ips (snd (rate_loop now ks rl)) = max_ips rl"
  "window_secs (snd (rate_loop now ks rl)) = window_secs rl"
proof (induction ks arbitrary: rl)
  case (Cons k ks)
  { case 1 then show ?case using Cons [of "snd (rate_step now k rl)"]
      by (auto simp: case_prod_unfold split: bool.splits) }
  { case 2 then show ?case using Cons [of "snd (rate_step now k rl)"]
      by (auto simp: case_prod_unfold split: bool.splits) }
  { case 3 then show ?case using Cons [of "snd (rate_step now k rl)"]
      by (auto simp: case_prod_unfold split: bool.splits) }
qed simp_all

lemma params_sweep [simp]:
  "max_requests (maybe_sweep now rl) = max_requests rl"
  "max_ips (maybe_sweep now rl) = max_ips rl"
  "window_secs (maybe_sweep now rl) = window_secs rl"
  by (simp_all add: maybe_sweep_def Let_def)

section \<open>What the loop decides\<close>

lemma rate_loop_Cons:
  "rate_loop now (k # ks) rl =
     (if fst (rate_step now k rl) then rate_loop now ks (snd (rate_step now k rl))
      else (False, snd (rate_step now k rl)))"
  by (simp add: case_prod_unfold split: bool.splits)

lemma fst_rate_loop:
  "distinct ks \<Longrightarrow>
   fst (rate_loop now ks rl) \<longleftrightarrow>
     (\<forall>k \<in> set ks. length (retain_live (window_of rl) now (bucket rl k)) < max_requests rl)"
proof (induction ks arbitrary: rl)
  case Nil
  then show ?case by simp
next
  case (Cons k ks)
  let ?rl = "snd (rate_step now k rl)"
  have w: "window_of ?rl = window_of rl" by (simp add: window_of_def)
  have "bucket ?rl x = bucket rl x" if "x \<in> set ks" for x
    using Cons.prems that by (auto simp: bucket_step)
  with Cons.IH [of ?rl] Cons.prems w show ?case
    by (simp add: rate_loop_Cons fst_rate_step del: rate_loop.simps)
qed

lemma bucket_loop:
  "distinct ks \<Longrightarrow> fst (rate_loop now ks rl) \<Longrightarrow>
   bucket (snd (rate_loop now ks rl)) k =
     (if k \<in> set ks then retain_live (window_of rl) now (bucket rl k) @ [now] else bucket rl k)"
proof (induction ks arbitrary: rl)
  case Nil
  then show ?case by simp
next
  case (Cons x ks)
  have w: "window_of (snd (rate_step now x rl)) = window_of rl" by (simp add: window_of_def)
  from Cons w show ?case
    by (auto simp: rate_loop_Cons bucket_step simp del: rate_loop.simps split: if_splits)
qed

section \<open>Interleaved runs\<close>










section \<open>Sweeping keeps the decision\<close>

lemma tracked_evict: "tracked_ips (evict_expired now rl) \<le> tracked_ips rl"
  unfolding tracked_ips_def evict_expired_def
  by simp

lemma retain_live_twice:
  "t \<le> now \<Longrightarrow> retain_live w now (retain_live w t ts) = retain_live w now ts"
  by (auto simp: retain_live_def intro!: filter_cong)

lemma sweep_within_cap:
  assumes "tracked_ips rl \<le> max_ips rl"
  shows "maybe_sweep t rl =
     (if unat (hits rl) mod 256 = 0 then evict_expired t (rl\<lparr>hits := hits rl + 1\<rparr>) else rl\<lparr>hits := hits rl + 1\<rparr>)"
proof -
  have "tracked_ips (evict_expired t (rl\<lparr>hits := hits rl + 1\<rparr>)) \<le> max_ips rl"
    using assms tracked_evict [of t "rl\<lparr>hits := hits rl + 1\<rparr>"] by (simp add: tracked_ips_def)
  then show ?thesis by (simp add: maybe_sweep_def Let_def)
qed

lemma live_bucket_sweep:
  assumes "distinct (map fst (requests rl))" and "tracked_ips rl \<le> max_ips rl" and "t \<le> now"
  shows "retain_live (window_of rl) now (bucket (maybe_sweep t rl) k) = retain_live (window_of rl) now (bucket rl k)"
proof -
  have "bucket (rl\<lparr>hits := n\<rparr>) k = bucket rl k" "window_of (rl\<lparr>hits := n\<rparr>) = window_of rl" for n
    by (simp_all add: bucket_def window_of_def)
  with assms show ?thesis
    by (simp add: sweep_within_cap bucket_evict retain_live_twice)
qed

lemma window_of_sweep [simp]: "window_of (maybe_sweep t rl) = window_of rl"
  by (simp add: window_of_def)

lemma fst_check:
  "fst (check t_sweep now t_cap identity rl) = fst (rate_loop now (rate_keys identity) (maybe_sweep t_sweep rl))"
  by (simp add: check_def Let_def case_prod_unfold split: bool.splits)

lemma snd_check:
  "snd (check t_sweep now t_cap identity rl) =
     (let rl1 = snd (rate_loop now (rate_keys identity) (maybe_sweep t_sweep rl))
      in if fst (check t_sweep now t_cap identity rl) then enforce_cap t_cap (rate_keys identity) rl1 else rl1)"
  by (simp add: check_def Let_def case_prod_unfold split: bool.splits)

lemma bucket_cap_kept:
  assumes "limiter_wf rl" and "k \<in> set keep"
  shows "bucket (enforce_cap t keep rl) k = bucket rl k \<or>
    bucket (enforce_cap t keep rl) k = retain_live (window_of rl) t (bucket rl k)"
proof -
  have "k \<notin> set (shrink_victims keep (evict_expired t rl))"
    using shrink_victims_subset assms(2) by blast
  with assms(1) show ?thesis
    by (simp add: enforce_cap_def Let_def bucket_shrink bucket_evict limiter_wf_def)
qed

section \<open>Properties\<close>





text \<open>While the map is within its cap, \<open>check\<close> admits a request exactly when each of its
  keys has fewer than \<open>max_requests\<close> admissions younger than the window; the sweep that runs
  every 256 calls does not change the answer.\<close>

theorem check_admits_iff:
  assumes "limiter_wf rl" and "tracked_ips rl \<le> max_ips rl" and "t_sweep \<le> now"
  shows "fst (check t_sweep now t_cap identity rl) \<longleftrightarrow>
     (\<forall>k \<in> set (rate_keys identity).
        length (filter (\<lambda>t. now - t < window_of rl) (bucket rl k)) < max_requests rl)"
proof -
  have "distinct (map fst (requests rl))" using assms(1) by (simp add: limiter_wf_def)
  from live_bucket_sweep [OF this assms(2,3)] show ?thesis
    by (simp add: fst_check fst_rate_loop [OF distinct_rate_keys] retain_live_def)
qed

theorem check_admits_iff_witness:
  "fst (check 1 2 3 (risk_identity_new (\<lambda>_. 0) ''shop'' (V4 1) ''/a/b'' None None) (rate_limiter_new 1 60 10))"
proof -
  let ?rl = "rate_limiter_new 1 60 10"
  have "limiter_wf ?rl" by simp
  moreover have "tracked_ips ?rl \<le> max_ips ?rl"
    by (simp add: tracked_ips_def rate_limiter_new_def)
  ultimately have "fst (check 1 2 3 id ?rl) \<longleftrightarrow> (\<forall>k \<in> set (rate_keys id).
      length (filter (\<lambda>t. 2 - t < window_of ?rl) (bucket ?rl k)) < max_requests ?rl)" for id
    by (intro check_admits_iff) simp_all
  then show ?thesis
    by (simp add: rate_limiter_new_def bucket_def)
qed

text \<open>An admitted request leaves the map within its cap: at most \<open>max_ips\<close> keys are
  tracked, or the at most six keys of the request itself if the cap is smaller; and the
  well-formedness of the limiter is kept.\<close>

theorem check_tracked_cap:
  assumes "limiter_wf rl" and "fst (check t_sweep now t_cap identity rl)"
  shows "tracked_ips (snd (check t_sweep now t_cap identity rl)) \<le> max (max_ips rl) 6
    \<and> limiter_wf (snd (check t_sweep now t_cap identity rl))"
proof -
  let ?rl = "snd (rate_loop now (rate_keys identity) (maybe_sweep t_sweep rl))"
  have wf: "limiter_wf ?rl"
    using assms(1) by (intro limiter_wf_loop limiter_wf_sweep)
  have "max_ips ?rl = max_ips rl" by simp
  with enforce_cap_tracked [OF wf, of t_cap "rate_keys identity"] length_rate_keys [of identity]
    limiter_wf_cap [OF wf] assms(2)
  show ?thesis by (simp add: snd_check Let_def le_max_iff_disj) linarith
qed

theorem check_tracked_cap_witness:
  "tracked_ips (snd (check 1 2 3 (risk_identity_new (\<lambda>_. 0) ''shop'' (V4 1) ''/a/b'' None None)
      (rate_limiter_new 1 60 10))) \<le> 10"
proof -
  let ?id = "risk_identity_new (\<lambda>_. 0) ''shop'' (V4 1) ''/a/b'' None None" and ?rl = "rate_limiter_new 1 60 10"
  have "fst (check 1 2 3 ?id ?rl)"
    by (simp add: fst_check fst_rate_loop [OF distinct_rate_keys] maybe_sweep_def Let_def
        evict_expired_def tracked_ips_def bucket_def rate_limiter_new_def retain_live_def)
  moreover have "limiter_wf ?rl" by simp
  moreover have "max_ips ?rl = 10" by (simp add: rate_limiter_new_def)
  ultimately show ?thesis
    using check_tracked_cap [of ?rl 1 2 3 ?id] by simp
qed

text \<open>The eviction that makes room never forgets the request that caused it: after an
  admitted request whose cap enforcement runs within the window, each of its keys still has a
  bucket whose latest entry is that request.\<close>

theorem check_own_keys_survive:
  assumes "limiter_wf rl" and "fst (check t_sweep now t_cap identity rl)"
    and "k \<in> set (rate_keys identity)" and "t_cap - now < window_of rl"
  shows "\<exists>older. bucket (snd (check t_sweep now t_cap identity rl)) k = older @ [now]"
proof -
  let ?sw = "maybe_sweep t_sweep rl"
  let ?rl = "snd (rate_loop now (rate_keys identity) ?sw)"
  have wf: "limiter_wf ?rl"
    using assms(1) by (intro limiter_wf_loop limiter_wf_sweep)
  have ok: "fst (rate_loop now (rate_keys identity) ?sw)"
    using assms(2) by (simp add: fst_check)
  have b: "bucket ?rl k = retain_live (window_of rl) now (bucket ?sw k) @ [now]"
    using bucket_loop [OF distinct_rate_keys ok] assms(3) by simp
  have "window_of ?rl = window_of rl" by (simp add: window_of_def)
  with bucket_cap_kept [OF wf assms(3), of t_cap] b assms(2,4) show ?thesis
    by (auto simp: snd_check Let_def retain_live_def)
qed

theorem check_own_keys_survive_witness:
  "\<exists>older. bucket (snd (check 1 2 3 (risk_identity_new (\<lambda>_. 0) ''shop'' (V4 1) ''/a/b'' None None)
      (rate_limiter_new 1 60 10))) (KNetwork \<lparr>key_site = ''shop'', key_network = V4 1\<rparr>) = older @ [2]"
proof -
  let ?id = "risk_identity_new (\<lambda>_. 0) ''shop'' (V4 1) ''/a/b'' None None" and ?rl = "rate_limiter_new 1 60 10"
  have ok: "fst (check 1 2 3 ?id ?rl)"
    by (simp add: fst_check fst_rate_loop [OF distinct_rate_keys] maybe_sweep_def Let_def
        evict_expired_def tracked_ips_def bucket_def rate_limiter_new_def retain_live_def)
  have site: "to_ascii_lowercase ''shop'' = ''shop''" by code_simp
  show ?thesis
    by (rule check_own_keys_survive [OF _ ok])
      (simp_all add: rate_keys_def identity_network_key_def risk_identity_new_def site
        window_of_def rate_limiter_new_def nanos_per_sec_def limiter_wf_def)
qed

end
