(* ===== verification/Protocol_Matrix.thy ===== *)
theory Protocol_Matrix
  imports Prelude
begin

text \<open>
  The protocol matrix, \<open>src/src/protocol.rs\<close>: which HTTP versions, upgrades, encodings and
  content types are inspected and what happens to the others. \<open>http::Version\<close> is an
  enumeration of the \<open>http\<close> crate. The locale \<open>most_severe\<close> is the contract of the loop that
  picks the decisive line.
\<close>

datatype unsupported_action = Deny | Monitor | BypassExplicit | RouteToQuarantine

datatype protocol_id =
    Http10 | Http11 | Http2 | Http3 | Websocket | Grpc | Brotli | Multipart | Sse | Json
  | GzipDeflate | UnknownHttpVersion | UnknownUpgrade | UnknownEncoding | UnknownContentType

datatype protocol_verdict = Inspect | Unsupported protocol_id unsupported_action

datatype http_version = HTTP_09 | HTTP_10 | HTTP_11 | HTTP_2 | HTTP_3

datatype protocol_error =
    AmbiguousKey string
  | InvalidAction string string
  | CannotInspect string
  | OnlyInspect string

fun action_as_str :: "unsupported_action \<Rightarrow> string" where
  "action_as_str Deny = ''deny''"
| "action_as_str Monitor = ''monitor''"
| "action_as_str BypassExplicit = ''bypass-explicit''"
| "action_as_str RouteToQuarantine = ''route-to-quarantine''"

definition metric_action :: "unsupported_action \<Rightarrow> string" where
  "metric_action a = (case a of RouteToQuarantine \<Rightarrow> ''quarantine'' | other \<Rightarrow> action_as_str other)"

fun action_severity :: "unsupported_action \<Rightarrow> nat" where
  "action_severity RouteToQuarantine = 4"
| "action_severity Deny = 3"
| "action_severity Monitor = 2"
| "action_severity BypassExplicit = 1"

fun protocol_as_str :: "protocol_id \<Rightarrow> string" where
  "protocol_as_str Http10 = ''http_1_0''"
| "protocol_as_str Http11 = ''http_1_1''"
| "protocol_as_str Http2 = ''http_2''"
| "protocol_as_str Http3 = ''http_3''"
| "protocol_as_str Websocket = ''websocket''"
| "protocol_as_str Grpc = ''grpc''"
| "protocol_as_str Brotli = ''brotli''"
| "protocol_as_str Multipart = ''multipart''"
| "protocol_as_str Sse = ''sse''"
| "protocol_as_str Json = ''json''"
| "protocol_as_str GzipDeflate = ''gzip_deflate''"
| "protocol_as_str UnknownHttpVersion = ''unknown_http_version''"
| "protocol_as_str UnknownUpgrade = ''unknown_upgrade''"
| "protocol_as_str UnknownEncoding = ''unknown_encoding''"
| "protocol_as_str UnknownContentType = ''unknown_content_type''"

fun blocked_status :: "protocol_verdict \<Rightarrow> nat option" where
  "blocked_status (Unsupported p Deny) = Some 403"
| "blocked_status (Unsupported p RouteToQuarantine) = Some 403"
| "blocked_status _ = None"

fun skips_body_waf :: "protocol_verdict \<Rightarrow> bool" where
  "skips_body_waf (Unsupported p Monitor) = True"
| "skips_body_waf (Unsupported p BypassExplicit) = True"
| "skips_body_waf _ = False"

fun verdict_event_type :: "protocol_verdict \<Rightarrow> string option" where
  "verdict_event_type Inspect = None"
| "verdict_event_type (Unsupported p Deny) = Some ''protocol_deny''"
| "verdict_event_type (Unsupported p Monitor) = Some ''protocol_monitor''"
| "verdict_event_type (Unsupported p BypassExplicit) = Some ''protocol_bypass''"
| "verdict_event_type (Unsupported p RouteToQuarantine) = Some ''quarantine''"

record request_facts =
  version :: http_version
  upgrade :: "string option"
  content_encoding :: "string option"
  content_type :: "string option"
  require_complete :: bool
  grpc_policy :: bool

record protocol_matrix =
  http_1_0 :: unsupported_action
  http_1_1 :: "unsupported_action option"
  http_2 :: "unsupported_action option"
  http_3 :: unsupported_action
  websocket :: unsupported_action
  grpc :: unsupported_action
  brotli :: "unsupported_action option"
  multipart :: "unsupported_action option"
  unknown_http_version :: unsupported_action
  unknown_upgrade :: unsupported_action
  unknown_encoding :: "unsupported_action option"
  unknown_content_type :: "unsupported_action option"

definition matrix_default :: protocol_matrix where
  "matrix_default =
     \<lparr>http_1_0 = Deny, http_1_1 = None, http_2 = None, http_3 = Deny,
      websocket = BypassExplicit, grpc = Deny, brotli = None, multipart = None,
      unknown_http_version = Deny, unknown_upgrade = Deny,
      unknown_encoding = None, unknown_content_type = None\<rparr>"

record protocols_section =
  sec_http_1_0 :: "string option"
  sec_http_1_1 :: "string option"
  sec_http_2 :: "string option"
  sec_http_3 :: "string option"
  sec_websocket :: "string option"
  sec_grpc :: "string option"
  sec_brotli :: "string option"
  sec_multipart :: "string option"
  sec_sse :: "string option"
  sec_json :: "string option"
  sec_gzip_deflate :: "string option"
  sec_unknown_http_version :: "string option"
  sec_unknown_upgrade :: "string option"
  sec_unknown_encoding :: "string option"
  sec_unknown_content_type :: "string option"

section \<open>Parsing the configuration section\<close>

datatype policy = PolicyInspect | PolicyUnsupported unsupported_action

definition parse_policy :: "string \<Rightarrow> string \<Rightarrow> (protocol_error, policy) result" where
  "parse_policy key raw =
     (let r = trim raw
      in if r = ''inspect'' then Ok PolicyInspect
         else if r = ''deny'' then Ok (PolicyUnsupported Deny)
         else if r = ''monitor'' then Ok (PolicyUnsupported Monitor)
         else if r = ''bypass-explicit'' then Ok (PolicyUnsupported BypassExplicit)
         else if r = ''route-to-quarantine'' then Ok (PolicyUnsupported RouteToQuarantine)
         else if r = ''unknown'' then Err (AmbiguousKey key)
         else Err (InvalidAction key r))"

definition parse_unsupported :: "string \<Rightarrow> string \<Rightarrow> (protocol_error, unsupported_action) result" where
  "parse_unsupported key raw =
     result_bind (parse_policy key raw) (\<lambda>p. case p of
       PolicyInspect \<Rightarrow> Err (CannotInspect key)
     | PolicyUnsupported a \<Rightarrow> Ok a)"

definition parse_supported_override ::
    "string \<Rightarrow> string \<Rightarrow> (protocol_error, unsupported_action option) result" where
  "parse_supported_override key raw =
     result_bind (parse_policy key raw) (\<lambda>p. case p of
       PolicyInspect \<Rightarrow> Ok None
     | PolicyUnsupported a \<Rightarrow> Ok (Some a))"

definition parse_inspect_only :: "string \<Rightarrow> string \<Rightarrow> (protocol_error, unit) result" where
  "parse_inspect_only key raw =
     result_bind (parse_policy key raw) (\<lambda>p. case p of
       PolicyInspect \<Rightarrow> Ok ()
     | PolicyUnsupported a \<Rightarrow> Err (OnlyInspect key))"

text \<open>\<open>if let Some(raw) = section.key { matrix.key = parse(key, raw)?; }\<close>\<close>

definition if_set ::
    "string option \<Rightarrow> (string \<Rightarrow> (protocol_error, 'a) result) \<Rightarrow> ('a \<Rightarrow> protocol_matrix \<Rightarrow> protocol_matrix)
      \<Rightarrow> protocol_matrix \<Rightarrow> (protocol_error, protocol_matrix) result" where
  "if_set raw parse upd m =
     (case raw of None \<Rightarrow> Ok m | Some r \<Rightarrow> result_bind (parse r) (\<lambda>a. Ok (upd a m)))"

definition from_section :: "protocols_section \<Rightarrow> (protocol_error, protocol_matrix) result" where
  "from_section s =
     result_bind (if_set (sec_http_1_0 s) (parse_unsupported ''http_1_0'') (\<lambda>a m. m\<lparr>http_1_0 := a\<rparr>) matrix_default) (\<lambda>m.
     result_bind (if_set (sec_http_1_1 s) (parse_supported_override ''http_1_1'') (\<lambda>a m. m\<lparr>http_1_1 := a\<rparr>) m) (\<lambda>m.
     result_bind (if_set (sec_http_2 s) (parse_supported_override ''http_2'') (\<lambda>a m. m\<lparr>http_2 := a\<rparr>) m) (\<lambda>m.
     result_bind (if_set (sec_http_3 s) (parse_unsupported ''http_3'') (\<lambda>a m. m\<lparr>http_3 := a\<rparr>) m) (\<lambda>m.
     result_bind (if_set (sec_websocket s) (parse_unsupported ''websocket'') (\<lambda>a m. m\<lparr>websocket := a\<rparr>) m) (\<lambda>m.
     result_bind (if_set (sec_grpc s) (parse_unsupported ''grpc'') (\<lambda>a m. m\<lparr>grpc := a\<rparr>) m) (\<lambda>m.
     result_bind (if_set (sec_brotli s) (parse_unsupported ''brotli'') (\<lambda>a m. m\<lparr>brotli := Some a\<rparr>) m) (\<lambda>m.
     result_bind (if_set (sec_multipart s) (parse_unsupported ''multipart'') (\<lambda>a m. m\<lparr>multipart := Some a\<rparr>) m) (\<lambda>m.
     result_bind (if_set (sec_unknown_http_version s) (parse_unsupported ''unknown_http_version'') (\<lambda>a m. m\<lparr>unknown_http_version := a\<rparr>) m) (\<lambda>m.
     result_bind (if_set (sec_unknown_upgrade s) (parse_unsupported ''unknown_upgrade'') (\<lambda>a m. m\<lparr>unknown_upgrade := a\<rparr>) m) (\<lambda>m.
     result_bind (if_set (sec_unknown_encoding s) (parse_unsupported ''unknown_encoding'') (\<lambda>a m. m\<lparr>unknown_encoding := Some a\<rparr>) m) (\<lambda>m.
     result_bind (if_set (sec_unknown_content_type s) (parse_unsupported ''unknown_content_type'') (\<lambda>a m. m\<lparr>unknown_content_type := Some a\<rparr>) m) (\<lambda>m.
     result_bind (if_set (sec_sse s) (parse_inspect_only ''sse'') (\<lambda>a m. m) m) (\<lambda>m.
     result_bind (if_set (sec_json s) (parse_inspect_only ''json'') (\<lambda>a m. m) m) (\<lambda>m.
     if_set (sec_gzip_deflate s) (parse_inspect_only ''gzip_deflate'') (\<lambda>a m. m) m))))))))))))))"

section \<open>Classifying a request\<close>

definition contextual :: "unsupported_action option \<Rightarrow> bool \<Rightarrow> unsupported_action" where
  "contextual explicit complete = unwrap_or explicit (if complete then Deny else Monitor)"

definition classify_encoding :: "string option \<Rightarrow> protocol_id option" where
  "classify_encoding encoding =
     (let enc = trim (unwrap_or encoding [])
      in if enc = [] \<or> eq_ignore_ascii_case enc ''identity'' then None
         else case filter (\<lambda>t. t \<noteq> []) (map (\<lambda>t. to_ascii_lowercase (trim t)) (split_on CHR '','' enc)) of
                [t] \<Rightarrow>
                  if t \<in> set [''gzip'', ''x-gzip'', ''deflate''] then None
                  else if t \<in> set [''br'', ''brotli'', ''x-br''] then Some Brotli
                  else Some UnknownEncoding
              | _ \<Rightarrow> Some UnknownEncoding)"

definition classify_content_type :: "string option \<Rightarrow> protocol_id option" where
  "classify_content_type ct =
     (case ct of
        None \<Rightarrow> None
      | Some c \<Rightarrow>
          (let mime = trim (first_piece CHR '';'' (to_ascii_lowercase c))
           in if starts_with mime ''application/grpc'' then Some Grpc
              else if starts_with mime ''multipart/'' then Some Multipart
              else if starts_with mime ''text/''
                    \<or> str_contains mime ''application/json''
                    \<or> ends_with mime ''+json''
                    \<or> str_contains mime ''application/xml''
                    \<or> ends_with mime ''+xml''
                    \<or> mime = ''application/x-www-form-urlencoded''
                    \<or> str_contains mime ''application/graphql'' then None
              else Some UnknownContentType))"

definition is_l0_inspectable_content_type :: "string option \<Rightarrow> bool" where
  "is_l0_inspectable_content_type ct \<longleftrightarrow> classify_content_type ct = None"

definition upgrade_is_websocket :: "string \<Rightarrow> bool" where
  "upgrade_is_websocket up = list_ex (\<lambda>t. eq_ignore_ascii_case (trim t) ''websocket'') (split_on CHR '','' up)"

text \<open>\<open>matches\<close> pushes at most one line per axis; here one list per axis, in order.\<close>

definition version_lines :: "protocol_matrix \<Rightarrow> http_version \<Rightarrow> (protocol_id \<times> unsupported_action) list" where
  "version_lines m v =
     (if v = HTTP_10 then [(Http10, http_1_0 m)]
      else if v = HTTP_3 then [(Http3, http_3 m)]
      else if v = HTTP_11 then (case http_1_1 m of Some a \<Rightarrow> [(Http11, a)] | None \<Rightarrow> [])
      else if v = HTTP_2 then (case http_2 m of Some a \<Rightarrow> [(Http2, a)] | None \<Rightarrow> [])
      else [(UnknownHttpVersion, unknown_http_version m)])"

definition upgrade_lines :: "protocol_matrix \<Rightarrow> string option \<Rightarrow> (protocol_id \<times> unsupported_action) list" where
  "upgrade_lines m up =
     (case up of
        None \<Rightarrow> []
      | Some u \<Rightarrow>
          if upgrade_is_websocket u then [(Websocket, websocket m)]
          else if trim u \<noteq> [] then [(UnknownUpgrade, unknown_upgrade m)]
          else [])"

definition encoding_action :: "protocol_matrix \<Rightarrow> bool \<Rightarrow> protocol_id \<Rightarrow> unsupported_action" where
  "encoding_action m complete p =
     (case p of
        Brotli \<Rightarrow> contextual (brotli m) complete
      | _ \<Rightarrow> contextual (unknown_encoding m) complete)"

definition encoding_lines :: "protocol_matrix \<Rightarrow> request_facts \<Rightarrow> (protocol_id \<times> unsupported_action) list" where
  "encoding_lines m facts =
     (case classify_encoding (content_encoding facts) of
        None \<Rightarrow> []
      | Some p \<Rightarrow> [(p, encoding_action m (require_complete facts) p)])"

definition content_type_action :: "protocol_matrix \<Rightarrow> bool \<Rightarrow> protocol_id \<Rightarrow> unsupported_action" where
  "content_type_action m complete p =
     (case p of
        Grpc \<Rightarrow> grpc m
      | Multipart \<Rightarrow> contextual (multipart m) complete
      | _ \<Rightarrow> contextual (unknown_content_type m) complete)"

definition content_type_lines :: "protocol_matrix \<Rightarrow> request_facts \<Rightarrow> (protocol_id \<times> unsupported_action) list" where
  "content_type_lines m facts =
     (case classify_content_type (content_type facts) of
        None \<Rightarrow> []
      | Some p \<Rightarrow>
          if p = Grpc \<and> grpc_policy facts then []
          else [(p, content_type_action m (require_complete facts) p)])"

definition matrix_matches :: "protocol_matrix \<Rightarrow> request_facts \<Rightarrow> (protocol_id \<times> unsupported_action) list" where
  "matrix_matches m facts =
     version_lines m (version facts) @ upgrade_lines m (upgrade facts)
     @ encoding_lines m facts @ content_type_lines m facts"

primrec pick_loop ::
    "(protocol_id \<times> unsupported_action) option \<Rightarrow> (protocol_id \<times> unsupported_action) list
      \<Rightarrow> (protocol_id \<times> unsupported_action) option" where
  "pick_loop best [] = best"
| "pick_loop best (x # xs) =
     (case best of
        Some b \<Rightarrow> if action_severity (snd x) \<le> action_severity (snd b) then pick_loop best xs
                  else pick_loop (Some x) xs
      | None \<Rightarrow> pick_loop (Some x) xs)"

definition pick_most_severe :: "(protocol_id \<times> unsupported_action) list \<Rightarrow> protocol_verdict" where
  "pick_most_severe ms =
     (case pick_loop None ms of None \<Rightarrow> Inspect | Some (p, a) \<Rightarrow> Unsupported p a)"

definition evaluate :: "protocol_matrix \<Rightarrow> request_facts \<Rightarrow> protocol_verdict" where
  "evaluate m facts = pick_most_severe (matrix_matches m facts)"

section \<open>The contract of the picking loop\<close>

locale most_severe =
  fixes sev :: "'a \<Rightarrow> nat" and pick :: "'a option \<Rightarrow> 'a list \<Rightarrow> 'a option"
  assumes pick_Nil: "pick best [] = best"
    and pick_None: "pick None (x # xs) = pick (Some x) xs"
    and pick_Some: "pick (Some b) (x # xs) = pick (Some (if sev x \<le> sev b then b else x)) xs"
begin

lemma pick_from:
  "\<exists>r. pick (Some b) xs = Some r \<and> r \<in> set (b # xs) \<and> (\<forall>x \<in> set (b # xs). sev x \<le> sev r)"
proof (induction xs arbitrary: b)
  case Nil
  then show ?case by (simp add: pick_Nil)
next
  case (Cons x xs)
  let ?b = "if sev x \<le> sev b then b else x"
  obtain r where r: "pick (Some ?b) xs = Some r" "r \<in> set (?b # xs)" "\<forall>y \<in> set (?b # xs). sev y \<le> sev r"
    using Cons.IH [of ?b] by blast
  then have "sev b \<le> sev r" "sev x \<le> sev r" by (auto split: if_splits)
  with r show ?case by (auto simp: pick_Some split: if_splits)
qed

lemma pick_empty: "pick None xs = None \<longleftrightarrow> xs = []"
proof (cases xs)
  case Nil
  then show ?thesis by (simp add: pick_Nil)
next
  case (Cons x ys)
  with pick_from [of x ys] show ?thesis by (auto simp: pick_None)
qed

lemma pick_best:
  assumes "pick None xs = Some r"
  shows "r \<in> set xs \<and> (\<forall>x \<in> set xs. sev x \<le> sev r)"
proof (cases xs)
  case Nil
  with assms show ?thesis by (simp add: pick_Nil)
next
  case (Cons x ys)
  with pick_from [of x ys] assms show ?thesis by (auto simp: pick_None)
qed

end

interpretation line: most_severe "\<lambda>l. action_severity (snd l)" pick_loop
  by unfold_locales simp_all

lemma pick_Inspect_iff: "pick_most_severe ms = Inspect \<longleftrightarrow> ms = []"
  using line.pick_empty [of ms]
  by (auto simp: pick_most_severe_def split: option.splits prod.splits)

lemma pick_Unsupported:
  assumes "pick_most_severe ms = Unsupported p a"
  shows "(p, a) \<in> set ms \<and> (\<forall>(q, b) \<in> set ms. action_severity b \<le> action_severity a)"
proof -
  have "pick_loop None ms = Some (p, a)"
    using assms by (auto simp: pick_most_severe_def split: option.splits prod.splits)
  from line.pick_best [OF this] show ?thesis by auto
qed

definition is_blocking :: "unsupported_action \<Rightarrow> bool" where
  "is_blocking a \<longleftrightarrow> 3 \<le> action_severity a"

lemma is_blocking_iff: "is_blocking a \<longleftrightarrow> a = Deny \<or> a = RouteToQuarantine"
  by (cases a) (simp_all add: is_blocking_def)

lemma blocked_status_iff:
  "blocked_status v = Some 403 \<longleftrightarrow> (\<exists>p a. v = Unsupported p a \<and> is_blocking a)"
  by (cases v rule: blocked_status.cases) (simp_all add: is_blocking_iff)

lemma skips_body_waf_iff:
  "skips_body_waf v \<longleftrightarrow> (\<exists>p a. v = Unsupported p a \<and> \<not> is_blocking a)"
  by (cases v rule: skips_body_waf.cases) (simp_all add: is_blocking_iff)

lemma pick_blocking_iff:
  "(\<exists>p a. pick_most_severe ms = Unsupported p a \<and> is_blocking a) \<longleftrightarrow> (\<exists>(p, a) \<in> set ms. is_blocking a)"
proof
  assume "\<exists>p a. pick_most_severe ms = Unsupported p a \<and> is_blocking a"
  then show "\<exists>(p, a) \<in> set ms. is_blocking a" using pick_Unsupported by blast
next
  assume "\<exists>(p, a) \<in> set ms. is_blocking a"
  then obtain p a where pa: "(p, a) \<in> set ms" "is_blocking a" by auto
  then obtain q b where v: "pick_most_severe ms = Unsupported q b"
    by (cases "pick_most_severe ms") (auto simp: pick_Inspect_iff)
  with pick_Unsupported pa have "action_severity a \<le> action_severity b" by fastforce
  with pa v show "\<exists>p a. pick_most_severe ms = Unsupported p a \<and> is_blocking a"
    by (auto simp: is_blocking_def)
qed

lemma contextual_severity:
  "action_severity (contextual e False) \<le> action_severity (contextual e True)"
  by (cases e) (simp_all add: contextual_def)

lemma line_action_blocking_mono:
  "is_blocking (encoding_action m False p) \<Longrightarrow> is_blocking (encoding_action m True p)"
  "is_blocking (content_type_action m False p) \<Longrightarrow> is_blocking (content_type_action m True p)"
  using contextual_severity order.trans
  by (cases p; simp add: encoding_action_def content_type_action_def is_blocking_def; fast)+

lemma line_action_unset:
  assumes "brotli m = None" "multipart m = None" "unknown_encoding m = None" "unknown_content_type m = None"
  shows "encoding_action m True p = Deny" "p \<noteq> Grpc \<Longrightarrow> content_type_action m True p = Deny"
  using assms by (cases p; simp add: encoding_action_def content_type_action_def contextual_def)+

lemma matches_complete_mono:
  assumes "\<exists>(p, a) \<in> set (matrix_matches m (f\<lparr>require_complete := False\<rparr>)). is_blocking a"
  shows "\<exists>(p, a) \<in> set (matrix_matches m (f\<lparr>require_complete := True\<rparr>)). is_blocking a"
  using assms line_action_blocking_mono
  unfolding matrix_matches_def encoding_lines_def content_type_lines_def
  by (cases "classify_encoding (content_encoding f)"; cases "classify_content_type (content_type f)")
    (auto simp: bex_Un split: if_splits)

section \<open>Configuration facts\<close>

lemma trim_action_as_str: "trim (action_as_str a) = action_as_str a"
  by (cases a; hypsubst; code_simp)

lemma parse_policy_as_str: "parse_policy k (action_as_str a) = Ok (PolicyUnsupported a)"
  unfolding parse_policy_def trim_action_as_str Let_def by (cases a) simp_all

section \<open>Properties\<close>

text \<open>C19. A deny or quarantine line can never be masked by a milder one: a request is answered
  with 403 exactly when at least one line of the matrix that it matches says deny or
  route-to-quarantine, however many other lines it also matches.\<close>

theorem evaluate_blocks_iff:
  "blocked_status (evaluate m facts) = Some 403 \<longleftrightarrow>
     (\<exists>(p, a) \<in> set (matrix_matches m facts). a = Deny \<or> a = RouteToQuarantine)"
  by (simp add: evaluate_def blocked_status_iff pick_blocking_iff is_blocking_iff [symmetric])

theorem evaluate_blocks_iff_witness:
  "blocked_status (evaluate matrix_default
     \<lparr>version = HTTP_10, upgrade = Some ''websocket'', content_encoding = None,
      content_type = None, require_complete = False, grpc_policy = False\<rparr>) = Some 403"
  using evaluate_blocks_iff [of matrix_default
     "\<lparr>version = HTTP_10, upgrade = Some ''websocket'', content_encoding = None,
      content_type = None, require_complete = False, grpc_policy = False\<rparr>"]
  by (simp add: matrix_matches_def version_lines_def matrix_default_def)

text \<open>The body inspection is skipped only on an explicit monitor or bypass line: the
  verdict skips it exactly when some line matches and every matching line is monitor or
  bypass-explicit.\<close>

theorem evaluate_skips_iff:
  "skips_body_waf (evaluate m facts) \<longleftrightarrow>
     matrix_matches m facts \<noteq> [] \<and>
     (\<forall>(p, a) \<in> set (matrix_matches m facts). a = Monitor \<or> a = BypassExplicit)"
proof -
  let ?ms = "matrix_matches m facts"
  have "skips_body_waf (evaluate m facts) \<longleftrightarrow>
      evaluate m facts \<noteq> Inspect \<and> \<not> (\<exists>p a. evaluate m facts = Unsupported p a \<and> is_blocking a)"
    by (cases "evaluate m facts") (auto simp: skips_body_waf_iff)
  also have "\<dots> \<longleftrightarrow> ?ms \<noteq> [] \<and> \<not> (\<exists>(p, a) \<in> set ?ms. is_blocking a)"
    by (simp add: evaluate_def pick_Inspect_iff pick_blocking_iff)
  also have "\<dots> \<longleftrightarrow> ?ms \<noteq> [] \<and> (\<forall>(p, a) \<in> set ?ms. \<not> is_blocking a)"
    by blast
  also have "(\<forall>(p, a) \<in> set ?ms. \<not> is_blocking a) \<longleftrightarrow> (\<forall>(p, a) \<in> set ?ms. a = Monitor \<or> a = BypassExplicit)"
    by (rule ball_cong [OF refl]) (auto simp: is_blocking_iff intro: unsupported_action.exhaust)
  finally show ?thesis .
qed

theorem evaluate_skips_iff_witness:
  "skips_body_waf (evaluate matrix_default
     \<lparr>version = HTTP_11, upgrade = Some ''websocket'', content_encoding = None,
      content_type = None, require_complete = False, grpc_policy = False\<rparr>)"
proof -
  have "upgrade_is_websocket ''websocket''" by code_simp
  moreover have "classify_encoding None = None" by (simp add: classify_encoding_def)
  ultimately show ?thesis
    by (subst evaluate_skips_iff)
      (simp add: matrix_matches_def version_lines_def upgrade_lines_def encoding_lines_def
        content_type_lines_def classify_content_type_def matrix_default_def)
qed

text \<open>On a route that requires complete inspection, a body that cannot be inspected is
  refused: when the matrix leaves the contextual lines unset, an encoding other than gzip or
  deflate, or a content type that is neither inspectable nor handled by a gRPC policy, gives
  403 unless the operator configured the gRPC line itself.\<close>

theorem require_complete_fails_closed:
  assumes "require_complete facts"
    and "brotli m = None" "multipart m = None" "unknown_encoding m = None" "unknown_content_type m = None"
    and "classify_encoding (content_encoding facts) \<noteq> None \<or>
      (\<exists>p. classify_content_type (content_type facts) = Some p \<and> p \<noteq> Grpc)"
  shows "blocked_status (evaluate m facts) = Some 403"
proof -
  note unset = line_action_unset [OF assms(2-5)]
  consider p where "classify_encoding (content_encoding facts) = Some p"
    | p where "classify_content_type (content_type facts) = Some p" "p \<noteq> Grpc"
    using assms(6) by blast
  then have "\<exists>p. (p, Deny) \<in> set (matrix_matches m facts)"
  proof cases
    case 1
    then have "(p, Deny) \<in> set (encoding_lines m facts)"
      using unset assms(1) by (simp add: encoding_lines_def)
    then show ?thesis by (auto simp: matrix_matches_def)
  next
    case 2
    then have "(p, Deny) \<in> set (content_type_lines m facts)"
      using unset assms(1) by (simp add: content_type_lines_def)
    then show ?thesis by (auto simp: matrix_matches_def)
  qed
  then have "\<exists>(p, a) \<in> set (matrix_matches m facts). is_blocking a"
    by (auto simp: is_blocking_iff)
  then show ?thesis
    by (simp add: evaluate_def blocked_status_iff pick_blocking_iff)
qed

theorem require_complete_fails_closed_witness:
  "blocked_status (evaluate matrix_default
     \<lparr>version = HTTP_2, upgrade = None, content_encoding = Some ''zstd'',
      content_type = None, require_complete = True, grpc_policy = False\<rparr>) = Some 403"
proof -
  have "classify_encoding (Some ''zstd'') \<noteq> None" by code_simp
  then show ?thesis
    by (intro require_complete_fails_closed) (simp_all add: matrix_default_def)
qed

text \<open>Turning \<open>require_complete\<close> on never lets through what was refused without it.\<close>

theorem require_complete_monotone:
  assumes "blocked_status (evaluate m (facts\<lparr>require_complete := False\<rparr>)) = Some 403"
  shows "blocked_status (evaluate m (facts\<lparr>require_complete := True\<rparr>)) = Some 403"
  using assms matches_complete_mono [of m facts]
  by (simp add: evaluate_def blocked_status_iff pick_blocking_iff)

theorem require_complete_monotone_witness:
  "blocked_status (evaluate matrix_default
     (\<lparr>version = HTTP_3, upgrade = None, content_encoding = None, content_type = None,
       require_complete = False, grpc_policy = False\<rparr>\<lparr>require_complete := True\<rparr>)) = Some 403"
  by (rule require_complete_monotone) code_simp

text \<open>The configuration names of the actions are read back as the same actions, and a key
  left out of the section keeps its default: a section that names one action per
  unsupported line parses to the matrix with exactly these actions.\<close>

theorem from_section_roundtrip:
  "from_section
     \<lparr>sec_http_1_0 = Some (action_as_str a1), sec_http_1_1 = None, sec_http_2 = Some ''inspect'',
      sec_http_3 = Some (action_as_str a2), sec_websocket = Some (action_as_str a3),
      sec_grpc = Some (action_as_str a4), sec_brotli = Some (action_as_str a5),
      sec_multipart = None, sec_sse = Some ''inspect'', sec_json = None,
      sec_gzip_deflate = Some ''inspect'',
      sec_unknown_http_version = Some (action_as_str a6), sec_unknown_upgrade = Some (action_as_str a7),
      sec_unknown_encoding = Some (action_as_str a8), sec_unknown_content_type = None\<rparr>
   = Ok (matrix_default\<lparr>http_1_0 := a1, http_3 := a2, websocket := a3, grpc := a4, brotli := Some a5,
        unknown_http_version := a6, unknown_upgrade := a7, unknown_encoding := Some a8\<rparr>)"
proof -
  have act: "parse_unsupported k (action_as_str a) = Ok a" for k a
    by (simp add: parse_unsupported_def parse_policy_as_str)
  have ins: "trim ''inspect'' = ''inspect''" by code_simp
  show ?thesis
    by (simp add: from_section_def if_set_def act ins parse_supported_override_def
        parse_inspect_only_def parse_policy_def matrix_default_def)
qed

end
