(* ===== verification/Proxy_Protocol.thy ===== *)
theory Proxy_Protocol
  imports Rust_Net
begin

text \<open>
  The PROXY protocol v2 header, \<open>src/src/proxy_protocol.rs\<close>. The connection is the list of
  bytes that will arrive on it, \<open>read_exact\<close> takes from its front. The deadline of
  \<open>consume_v2\<close> is an argument that says whether it expired. Writing the source address into
  the socket digest (\<open>apply_peer\<close>) is an effect on a Pingora object and is left out; its
  argument is the address returned here. The locale \<open>framed\<close> is the contract of a
  self-delimiting encoding.
\<close>

unbundle bit_operations_syntax

definition SIGNATURE :: bytes where
  "SIGNATURE = [0x0D, 0x0A, 0x0D, 0x0A, 0x00, 0x0D, 0x0A, 0x51, 0x55, 0x49, 0x54, 0x0A]"

definition MAX_HEADER :: nat where "MAX_HEADER = 16 + 64 * 1024"

abbreviation PREFIX :: nat where "PREFIX \<equiv> 16"
abbreviation CMD_LOCAL :: u8 where "CMD_LOCAL \<equiv> 0"
abbreviation CMD_PROXY :: u8 where "CMD_PROXY \<equiv> 1"
abbreviation FAM_UNSPEC :: u8 where "FAM_UNSPEC \<equiv> 0"
abbreviation FAM_INET :: u8 where "FAM_INET \<equiv> 1"
abbreviation FAM_INET6 :: u8 where "FAM_INET6 \<equiv> 2"
abbreviation FAM_UNIX :: u8 where "FAM_UNIX \<equiv> 3"
abbreviation INET_ADDR :: nat where "INET_ADDR \<equiv> 12"
abbreviation INET6_ADDR :: nat where "INET6_ADDR \<equiv> 36"
abbreviation UNIX_ADDR :: nat where "UNIX_ADDR \<equiv> 216"

datatype proxy_protocol_error = NotV2 | Truncated | Oversized | Invalid | Timeout

text \<open>\<open>PROXY_PROTOCOL=true\<close>, exact match; unset is off.\<close>

definition enabled :: "(string \<Rightarrow> string option) \<Rightarrow> bool" where
  "enabled env = (case env ''PROXY_PROTOCOL'' of Some v \<Rightarrow> v = ''true'' | None \<Rightarrow> False)"

definition rest_len_from_prefix :: "bytes \<Rightarrow> (proxy_protocol_error, nat) result" where
  "rest_len_from_prefix prefix =
     (if take 12 prefix \<noteq> SIGNATURE then Err NotV2
      else if drop_bit 4 (prefix ! 12) \<noteq> 2 then Err NotV2
      else (let len = unat (be_join [prefix ! 14, prefix ! 15] :: u16)
            in if MAX_HEADER < PREFIX + len then Err Oversized else Ok len))"

definition parse_inet4 :: "bytes \<Rightarrow> (proxy_protocol_error, socket_addr) result" where
  "parse_inet4 addr =
     (if length addr < INET_ADDR then Err Invalid
      else Ok (SocketV4 (be_join [addr ! 0, addr ! 1, addr ! 2, addr ! 3]) (be_join [addr ! 8, addr ! 9])))"

definition parse_inet6 :: "bytes \<Rightarrow> (proxy_protocol_error, socket_addr) result" where
  "parse_inet6 addr =
     (if length addr < INET6_ADDR then Err Invalid
      else Ok (SocketV6 (be_join (take 16 addr)) (be_join [addr ! 32, addr ! 33]) 0 0))"

definition parse_v2 :: "bytes \<Rightarrow> (proxy_protocol_error, socket_addr option \<times> nat) result" where
  "parse_v2 bs =
     (if length bs < PREFIX then Err Truncated
      else result_bind (rest_len_from_prefix (take PREFIX bs)) (\<lambda>rest.
        let total = PREFIX + rest
        in if length bs < total then Err Truncated
           else (let command = bs ! 12 AND 0x0F
                 in if command \<noteq> CMD_LOCAL \<and> command \<noteq> CMD_PROXY then Err Invalid
                    else if command = CMD_LOCAL then Ok (None, total)
                    else (let family = drop_bit 4 (bs ! 13);
                              addr = take rest (drop PREFIX bs)
                          in if family = FAM_UNSPEC then Ok (None, total)
                             else if family = FAM_INET then
                               result_bind (parse_inet4 addr) (\<lambda>s. Ok (Some s, total))
                             else if family = FAM_INET6 then
                               result_bind (parse_inet6 addr) (\<lambda>s. Ok (Some s, total))
                             else if family = FAM_UNIX then
                               (if length addr < UNIX_ADDR then Err Invalid else Ok (None, total))
                             else Err Invalid))))"

definition read_exact :: "nat \<Rightarrow> bytes \<Rightarrow> (bytes \<times> bytes) option" where
  "read_exact n stream = (if length stream < n then None else Some (take n stream, drop n stream))"

text \<open>The result and the bytes that are left on the connection; after an error it is closed.\<close>

definition read_v2 :: "bytes \<Rightarrow> (proxy_protocol_error, socket_addr option \<times> bytes) result" where
  "read_v2 stream =
     (case read_exact PREFIX stream of
        None \<Rightarrow> Err Truncated
      | Some (prefix, s1) \<Rightarrow>
          result_bind (rest_len_from_prefix prefix) (\<lambda>rest_len.
            result_bind
              (if 0 < rest_len
               then (case read_exact rest_len s1 of None \<Rightarrow> Err Truncated | Some (body, s2) \<Rightarrow> Ok (body, s2))
               else Ok ([], s1))
              (\<lambda>(body, s2).
                 result_bind (parse_v2 (prefix @ body)) (\<lambda>(source, _). Ok (source, s2)))))"

definition consume_v2 ::
    "bool \<Rightarrow> bytes \<Rightarrow> (proxy_protocol_error, socket_addr option \<times> bytes) result" where
  "consume_v2 deadline_expired stream = (if deadline_expired then Err Timeout else read_v2 stream)"

fun encode_v2 :: "socket_addr \<Rightarrow> socket_addr \<Rightarrow> (proxy_protocol_error, bytes) result" where
  "encode_v2 (SocketV4 sa sp) (SocketV4 da dp) =
     Ok (SIGNATURE @ [0x20 OR CMD_PROXY, push_bit 4 FAM_INET OR 0x01] @ u16_to_be_bytes (of_nat INET_ADDR)
         @ ipv4_octets sa @ ipv4_octets da @ u16_to_be_bytes sp @ u16_to_be_bytes dp)"
| "encode_v2 (SocketV6 sa sp sf sc) (SocketV6 da dp df dc) =
     Ok (SIGNATURE @ [0x20 OR CMD_PROXY, push_bit 4 FAM_INET6 OR 0x01] @ u16_to_be_bytes (of_nat INET6_ADDR)
         @ ipv6_octets sa @ ipv6_octets da @ u16_to_be_bytes sp @ u16_to_be_bytes dp)"
| "encode_v2 _ _ = Err Invalid"

definition encode_v2_local :: bytes where
  "encode_v2_local = SIGNATURE @ [0x20 OR CMD_LOCAL, 0x00] @ u16_to_be_bytes 0"

section \<open>Self-delimiting encodings\<close>

text \<open>
  \<open>dec\<close> reads one value from the front of a byte stream and says how many bytes it took. It
  must give back what \<open>enc\<close> wrote whatever follows.
\<close>

locale framed =
  fixes admissible :: "'a \<Rightarrow> bool" and enc :: "'a \<Rightarrow> bytes" and dec :: "bytes \<Rightarrow> ('a \<times> nat) option"
  assumes dec_enc: "admissible x \<Longrightarrow> dec (enc x @ rest) = Some (x, length (enc x))"
begin

lemma enc_prefix_free:
  assumes "admissible x" "admissible y" "enc x @ r = enc y @ s"
  shows "x = y \<and> r = s"
proof -
  have "Some (x, length (enc x)) = Some (y, length (enc y))"
    using dec_enc [OF assms(1), of r] dec_enc [OF assms(2), of s] assms(3) by simp
  with assms(3) show ?thesis by auto
qed

lemma enc_inj: "admissible x \<Longrightarrow> admissible y \<Longrightarrow> enc x = enc y \<Longrightarrow> x = y"
  using enc_prefix_free [of x y "[]" "[]"] by simp

end

section \<open>Parsing what was encoded\<close>

text \<open>The header carries no IPv6 flow information and no scope.\<close>

fun wire_source :: "socket_addr \<Rightarrow> socket_addr" where
  "wire_source (SocketV4 a p) = SocketV4 a p"
| "wire_source (SocketV6 a p f s) = SocketV6 a p 0 0"

lemma length_SIGNATURE [simp]: "length SIGNATURE = 12"
  by (simp add: SIGNATURE_def)

lemma rest_len_bounds: "rest_len_from_prefix p = Ok n \<Longrightarrow> n < 65536"
  using unsigned_less [of "be_join [p ! 14, p ! 15] :: u16", where 'a = nat]
  by (auto simp: rest_len_from_prefix_def Let_def split: if_splits)

lemma rest_len_not_oversized: "rest_len_from_prefix p \<noteq> Err Oversized"
  using unsigned_less [of "be_join [p ! 14, p ! 15] :: u16", where 'a = nat]
  by (auto simp: rest_len_from_prefix_def Let_def MAX_HEADER_def split: if_splits)

lemma be_join_u16_parts [simp]: "be_join [octet (Suc 0) p, octet 0 p] = (p :: u16)"
  using be_join_u16 [of p] by (simp add: u16_to_be_bytes_def)

lemma be_join_ipv4_parts [simp]:
  "be_join [octet 3 a, octet 2 a, octet (Suc 0) a, octet 0 a] = (a :: u32)"
  using be_join_ipv4 [of a] by (simp add: ipv4_octets_def)

lemma header_rest_len:
  assumes "length tail = 4" and "drop_bit 4 (tail ! 0) = 2"
  shows "rest_len_from_prefix (SIGNATURE @ tail) = Ok (unat (be_join [tail ! 2, tail ! 3] :: u16))"
proof -
  have "unat (be_join [tail ! 2, tail ! 3] :: u16) < 65536"
    using unsigned_less [of "be_join [tail ! 2, tail ! 3] :: u16", where 'a = nat] by simp
  with assms show ?thesis
    by (simp add: rest_len_from_prefix_def nth_append MAX_HEADER_def Let_def)
qed

lemma parse_v2_header:
  assumes "length tail = 4" and "tail ! 0 = 0x21" and "length addr = unat (be_join [tail ! 2, tail ! 3] :: u16)"
  shows "parse_v2 (SIGNATURE @ tail @ addr @ rest) =
    (let family = drop_bit 4 (tail ! 1); total = 16 + length addr
     in if family = FAM_UNSPEC then Ok (None, total)
        else if family = FAM_INET then result_bind (parse_inet4 addr) (\<lambda>s. Ok (Some s, total))
        else if family = FAM_INET6 then result_bind (parse_inet6 addr) (\<lambda>s. Ok (Some s, total))
        else if family = FAM_UNIX then (if length addr < UNIX_ADDR then Err Invalid else Ok (None, total))
        else Err Invalid)"
proof -
  have "rest_len_from_prefix (take 16 (SIGNATURE @ tail @ addr @ rest)) = Ok (length addr)"
    using header_rest_len [OF assms(1)] assms by simp
  then show ?thesis using assms by (simp add: parse_v2_def Let_def nth_append)
qed

lemma parse_encode_v2:
  assumes "encode_v2 src dst = Ok out"
  shows "parse_v2 (out @ rest) = Ok (Some (wire_source src), length out)"
proof (cases "(src, dst)" rule: encode_v2.cases)
  case (1 sa sp da dp)
  let ?tail = "[0x21, 0x11] @ u16_to_be_bytes 12"
  let ?addr = "ipv4_octets sa @ ipv4_octets da @ u16_to_be_bytes sp @ u16_to_be_bytes dp"
  from 1 assms have "out = SIGNATURE @ ?tail @ ?addr" by (simp add: push_bit_eq_mult)
  then show ?thesis using 1 parse_v2_header [of ?tail ?addr rest]
    by (simp add: u16_to_be_bytes_def ipv4_octets_def parse_inet4_def drop_bit_eq_div)
next
  case (2 sa sp sf sc da dp df dc)
  let ?tail = "[0x21, 0x21] @ u16_to_be_bytes 36"
  let ?addr = "ipv6_octets sa @ ipv6_octets da @ u16_to_be_bytes sp @ u16_to_be_bytes dp"
  from 2 assms have "out = SIGNATURE @ ?tail @ ?addr" by (simp add: push_bit_eq_mult)
  then show ?thesis using 2 parse_v2_header [of ?tail ?addr rest]
    by (simp add: u16_to_be_bytes_def parse_inet6_def drop_bit_eq_div nth_append)
qed (use assms in auto)

section \<open>The stream reader and the parser\<close>

lemma take_nth_eq: "i < n \<Longrightarrow> take n xs ! i = xs ! i"
  by simp

lemma parse_v2_prefix:
  assumes "16 \<le> length bs" and "rest_len_from_prefix (take 16 bs) = Ok n" and "16 + n \<le> length bs"
  shows "parse_v2 (take (16 + n) bs) = parse_v2 bs"
proof -
  have "take n (drop 16 (take (16 + n) bs)) = take n (drop 16 bs)"
    by (simp add: drop_take)
  moreover have "take (16 + n) bs ! 12 = bs ! 12" "take (16 + n) bs ! 13 = bs ! 13"
    by (simp_all add: take_nth_eq)
  moreover have "take 16 (take (16 + n) bs) = take 16 bs" by simp
  ultimately show ?thesis using assms by (simp add: parse_v2_def Let_def)
qed

lemma parse_v2_total:
  assumes "parse_v2 bs = Ok (a, n)"
  shows "16 \<le> n \<and> n \<le> length bs \<and> rest_len_from_prefix (take 16 bs) = Ok (n - 16)"
proof (cases "rest_len_from_prefix (take 16 bs)")
  case (Inr r)
  have "n = 16 + r \<and> 16 + r \<le> length bs"
  proof (cases "length bs < 16 \<or> length bs < 16 + r")
    case True
    with assms Inr show ?thesis by (auto simp: parse_v2_def Let_def split: if_splits)
  next
    case False
    with assms Inr show ?thesis
      by (auto simp: parse_v2_def Let_def split: if_splits)
  qed
  with Inr show ?thesis by simp
qed (use assms in \<open>auto simp: parse_v2_def split: if_splits\<close>)

text \<open>How the reader goes through its two reads.\<close>

lemma read_v2_cases:
  "read_v2 stream =
     (if length stream < 16 then Err Truncated
      else result_bind (rest_len_from_prefix (take 16 stream)) (\<lambda>n.
        if length stream < 16 + n then Err Truncated
        else result_bind (parse_v2 (take (16 + n) stream)) (\<lambda>(source, _). Ok (source, drop (16 + n) stream))))"
proof (cases "length stream < 16")
  case False
  show ?thesis
  proof (cases "rest_len_from_prefix (take 16 stream)")
    case (Inr n)
    have split: "take 16 stream @ take n (drop 16 stream) = take (16 + n) stream"
      by (simp add: take_add)
    from False have "length stream - 16 < n \<longleftrightarrow> length stream < 16 + n" by auto
    with False Inr split show ?thesis
      by (cases "n = 0") (simp_all add: read_v2_def read_exact_def add.commute)
  qed (use False in \<open>simp add: read_v2_def read_exact_def\<close>)
qed (simp add: read_v2_def read_exact_def)

lemma read_v2_parse:
  "read_v2 stream = result_bind (parse_v2 stream) (\<lambda>(source, n). Ok (source, drop n stream))"
proof (cases "length stream < 16")
  case True
  then show ?thesis by (simp add: read_v2_cases parse_v2_def)
next
  case long: False
  show ?thesis
  proof (cases "rest_len_from_prefix (take 16 stream)")
    case (Inl e)
    with long show ?thesis by (simp add: read_v2_cases parse_v2_def)
  next
    case (Inr n)
    show ?thesis
    proof (cases "length stream < 16 + n")
      case True
      with long Inr show ?thesis by (simp add: read_v2_cases parse_v2_def)
    next
      case False
      have "parse_v2 (take (16 + n) stream) = parse_v2 stream"
        using parse_v2_prefix long False Inr by simp
      with long False Inr parse_v2_total [of stream] show ?thesis
        by (cases "parse_v2 stream") (auto simp: read_v2_cases)
    qed
  qed
qed

section \<open>The header as a self-delimiting encoding\<close>

definition header_dec :: "bytes \<Rightarrow> (socket_addr \<times> nat) option" where
  "header_dec bs = (case parse_v2 bs of Ok (Some s, n) \<Rightarrow> Some (s, n) | _ \<Rightarrow> None)"

fun header_enc :: "socket_addr \<Rightarrow> bytes" where
  "header_enc src = (case encode_v2 src src of Ok out \<Rightarrow> out | Err e \<Rightarrow> [])"

interpretation header: framed "\<lambda>s. wire_source s = s" header_enc header_dec
proof unfold_locales
  fix s :: socket_addr and rest
  assume "wire_source s = s"
  moreover obtain out where "encode_v2 s s = Ok out" by (cases s) simp_all
  ultimately show "header_dec (header_enc s @ rest) = Some (s, length (header_enc s))"
    using parse_encode_v2 [of s s out rest] by (simp add: header_dec_def)
qed

section \<open>Properties\<close>

text \<open>C20. A header that the encoder wrote is consumed whole and nothing more: the reader returns
  the source address of the header (without the IPv6 flow and scope, which the wire format
  does not carry) and leaves exactly the bytes that follow, the TLS or HTTP data, on the
  connection.\<close>

theorem read_encode_v2:
  assumes "encode_v2 src dst = Ok out"
  shows "consume_v2 False (out @ payload) = Ok (Some (wire_source src), payload)"
  using parse_encode_v2 [OF assms, of payload] by (simp add: consume_v2_def read_v2_parse)

theorem read_encode_v2_witness:
  "\<exists>out. encode_v2 (SocketV4 0xCB00710A 80) (SocketV4 0x0A000001 3000) = Ok out \<and>
     consume_v2 False (out @ [0x16, 0x03]) = Ok (Some (SocketV4 0xCB00710A 80), [0x16, 0x03])"
  using read_encode_v2 [of "SocketV4 0xCB00710A 80" "SocketV4 0x0A000001 3000" _ "[0x16, 0x03]"] by simp

text \<open>Reading from the connection in two steps is the same as parsing the bytes at once:
  the same address, the same error, and the bytes left are those after the length that the
  parser reports. That length is at least the fixed prefix, at most the bytes given, and at
  most the documented maximum, and no header is ever reported as oversized.\<close>

theorem read_v2_refines_parse_v2:
  "read_v2 stream = result_bind (parse_v2 stream) (\<lambda>(source, n). Ok (source, drop n stream)) \<and>
   (case parse_v2 stream of
      Err e \<Rightarrow> e \<noteq> Oversized
    | Ok (_, n) \<Rightarrow> 16 \<le> n \<and> n \<le> length stream \<and> n < MAX_HEADER)"
proof (intro conjI read_v2_parse)
  show "case parse_v2 stream of Err e \<Rightarrow> e \<noteq> Oversized
    | Ok (_, n) \<Rightarrow> 16 \<le> n \<and> n \<le> length stream \<and> n < MAX_HEADER"
  proof (cases "parse_v2 stream")
    case (Inl e)
    then show ?thesis using rest_len_not_oversized [of "take 16 stream"]
      by (auto simp: parse_v2_def parse_inet4_def parse_inet6_def Let_def result_bind_def
          split: if_splits sum.splits)
  next
    case (Inr r)
    then obtain a n where "parse_v2 stream = Ok (a, n)" by (cases r) simp
    from parse_v2_total [OF this] rest_len_bounds Inr this show ?thesis
      by (fastforce simp: MAX_HEADER_def)
  qed
qed

end
