(* ===== verification/Connection_Filter.thy ===== *)
theory Connection_Filter
  imports Sliding_Window Proxy_Protocol Assoc_Maps
begin

text \<open>
  Admission of downstream connections, \<open>src/src/connection.rs\<close>: the attempt-rate filter
  (per address and global) and the count of active connections. \<open>check\<close> holds the global
  lock from its first step to its return, so it is one atomic operation; its two clock
  readings are arguments. The active-connection count is an atomic that several tasks touch
  between their other steps, so beside the sequential operations there is a step relation
  whose steps are the single atomic accesses.
\<close>

section \<open>Attempt-rate filter\<close>

record connection_rate_filter =
  attempts :: "(ip_addr \<times> nat list) list"
  max_attempts :: nat
  conn_window :: nat
  max_conn_ips :: nat
  checks :: u64
  global_attempts :: "nat list"
  max_global_attempts :: nat

definition new_connection_filter :: "nat \<Rightarrow> nat \<Rightarrow> nat \<Rightarrow> nat \<Rightarrow> connection_rate_filter" where
  "new_connection_filter ma w ips mg =
     \<lparr>attempts = [], max_attempts = max ma 1, conn_window = w, max_conn_ips = max ips 1, checks = 0,
      global_attempts = [], max_global_attempts = max mg 1\<rparr>"

definition env_positive :: "nat \<Rightarrow> (string \<Rightarrow> string option) \<Rightarrow> string \<Rightarrow> nat \<Rightarrow> nat" where
  "env_positive mx env name dflt =
     unwrap_or (opt_filter (\<lambda>v. 0 < v) (Option.bind (env name) (parse_uint mx))) dflt"

definition connection_filter_from_env :: "(string \<Rightarrow> string option) \<Rightarrow> connection_rate_filter" where
  "connection_filter_from_env env =
     new_connection_filter
       (env_positive usize_max env ''CONNECTION_RATE_MAX'' 60)
       (env_positive u64_max env ''CONNECTION_RATE_WINDOW'' 1 * 10 ^ 9)
       (env_positive usize_max env ''CONNECTION_RATE_MAX_IPS'' 50000)
       (env_positive usize_max env ''GLOBAL_CONNECTION_RATE_MAX'' 10000)"

definition conn_bucket :: "connection_rate_filter \<Rightarrow> ip_addr \<Rightarrow> nat list" where
  "conn_bucket f ip = unwrap_or (map_of (attempts f) ip) []"

definition conn_evict_expired :: "nat \<Rightarrow> connection_rate_filter \<Rightarrow> connection_rate_filter" where
  "conn_evict_expired now f =
     f\<lparr>attempts := filter (\<lambda>e. snd e \<noteq> [])
        (map (\<lambda>e. (fst e, pop_expired (conn_window f) now (snd e))) (attempts f))\<rparr>"

text \<open>\<open>now\<close> is read on entry, \<open>t_sweep\<close> by the sweep that every 256th call runs.\<close>

definition conn_check ::
    "nat \<Rightarrow> nat \<Rightarrow> bool \<Rightarrow> ip_addr \<Rightarrow> connection_rate_filter \<Rightarrow> bool \<times> connection_rate_filter" where
  "conn_check now t_sweep poisoned ip f =
     (if poisoned then (False, f)
      else
        let g = pop_expired (conn_window f) now (global_attempts f);
            f1 = f\<lparr>global_attempts := g\<rparr>
        in if max_global_attempts f \<le> length g then (False, f1)
           else
             let n = checks f1;
                 f2 = f1\<lparr>checks := n + 1\<rparr>;
                 f3 = (if n mod 256 = 0 then conn_evict_expired t_sweep f2 else f2)
             in if map_of (attempts f3) ip = None \<and> max_conn_ips f \<le> length (attempts f3) then (False, f3)
                else
                  let b = pop_expired (conn_window f) now (conn_bucket f3 ip)
                  in if max_attempts f \<le> length b
                     then (False, f3\<lparr>attempts := AList.update ip b (attempts f3)\<rparr>)
                     else (True, f3\<lparr>attempts := AList.update ip (b @ [now]) (attempts f3),
                                   global_attempts := g @ [now]\<rparr>))"

section \<open>Active connections\<close>

record active_connection_state =
  current :: u64
  max_active :: nat
  pending :: "(socket_addr \<times> nat) list"

definition pending_ttl :: nat where "pending_ttl = 65 * 10 ^ 9"

definition new_active_state :: "nat \<Rightarrow> active_connection_state" where
  "new_active_state mx = \<lparr>current = 0, max_active = max mx 1, pending = []\<rparr>"

definition active_state_from_env :: "(string \<Rightarrow> string option) \<Rightarrow> active_connection_state" where
  "active_state_from_env env = new_active_state (env_positive usize_max env ''MAX_ACTIVE_CONNECTIONS'' 10000)"

definition fetch_sub :: "active_connection_state \<Rightarrow> active_connection_state" where
  "fetch_sub s = s\<lparr>current := current s - 1\<rparr>"

definition increment :: "active_connection_state \<Rightarrow> bool \<times> active_connection_state" where
  "increment s =
     (if unat (current s) < max_active s then (True, s\<lparr>current := current s + 1\<rparr>) else (False, s))"

text \<open>\<open>retain\<close> visits the entries one by one and gives back the slot of each one it drops.\<close>

fun retain_pending :: "nat \<Rightarrow> (socket_addr \<times> nat) list \<Rightarrow> u64 \<Rightarrow> (socket_addr \<times> nat) list \<times> u64" where
  "retain_pending now [] c = ([], c)"
| "retain_pending now ((a, accepted) # ps) c =
     (if now - accepted < pending_ttl
      then (let (qs, d) = retain_pending now ps c in ((a, accepted) # qs, d))
      else retain_pending now ps (c - 1))"

definition evict_expired_pending :: "nat \<Rightarrow> active_connection_state \<Rightarrow> active_connection_state" where
  "evict_expired_pending now s =
     (let (ps, c) = retain_pending now (pending s) (current s) in s\<lparr>pending := ps, current := c\<rparr>)"

definition reserve_pending ::
    "nat \<Rightarrow> nat \<Rightarrow> socket_addr \<Rightarrow> active_connection_state \<Rightarrow> bool \<times> active_connection_state" where
  "reserve_pending t_evict t_insert addr s =
     (case increment (evict_expired_pending t_evict s) of
        (False, s1) \<Rightarrow> (False, s1)
      | (True, s1) \<Rightarrow>
          (let s2 = s1\<lparr>pending := AList.update addr t_insert (pending s1)\<rparr>
           in (True, if map_of (pending s1) addr \<noteq> None then fetch_sub s2 else s2)))"

text \<open>\<open>True\<close> hands out a guard, which gives its slot back when it is dropped.\<close>

definition activate :: "nat \<Rightarrow> socket_addr option \<Rightarrow> active_connection_state \<Rightarrow> bool \<times> active_connection_state" where
  "activate now addr s =
     (let s1 = evict_expired_pending now s
      in case addr of
           Some a \<Rightarrow>
             if map_of (pending s1) a \<noteq> None
             then (True, s1\<lparr>pending := AList.delete a (pending s1)\<rparr>)
             else increment s1
         | None \<Rightarrow> increment s1)"

definition should_accept ::
    "nat \<Rightarrow> nat \<Rightarrow> nat \<Rightarrow> nat \<Rightarrow> bool \<Rightarrow> socket_addr option \<Rightarrow>
     connection_rate_filter \<times> active_connection_state \<Rightarrow>
     bool \<times> connection_rate_filter \<times> active_connection_state" where
  "should_accept now t_sweep t_evict t_insert poisoned addr fs =
     (case addr of
        None \<Rightarrow> (False, fs)
      | Some a \<Rightarrow>
          (case conn_check now t_sweep poisoned (socket_ip a) (fst fs) of
             (False, f) \<Rightarrow> (False, f, snd fs)
           | (True, f) \<Rightarrow>
               (case reserve_pending t_evict t_insert a (snd fs) of
                  (ok, s) \<Rightarrow> (ok, f, s))))"

text \<open>
  What the application behind the filter sees of a connection: the TLS handshake is Pingora's
  and its outcome an argument, \<open>None\<close> when the listener is cleartext.
\<close>

datatype tls_outcome = TlsOk | TlsNotClearTcp | TlsFailed | TlsTimeout

datatype process_outcome =
    LimitReached
  | ProxyRefused proxy_protocol_error
  | TlsRefused tls_outcome
  | Handed "socket_addr option" bytes

definition process_stream :: "bool \<Rightarrow> bool \<Rightarrow> tls_outcome option \<Rightarrow> bytes \<Rightarrow> process_outcome" where
  "process_stream proxy_protocol deadline_expired tls stream =
     (let read = (if proxy_protocol then consume_v2 deadline_expired stream else Ok (None, stream))
      in case read of
           Err e \<Rightarrow> ProxyRefused e
         | Ok (source, rest) \<Rightarrow>
             (case tls of
                None \<Rightarrow> Handed source rest
              | Some TlsOk \<Rightarrow> Handed source rest
              | Some t \<Rightarrow> TlsRefused t))"

definition process_new ::
    "nat \<Rightarrow> socket_addr option \<Rightarrow> bool \<Rightarrow> bool \<Rightarrow> tls_outcome option \<Rightarrow> bytes \<Rightarrow>
     active_connection_state \<Rightarrow> process_outcome \<times> active_connection_state" where
  "process_new now tcp_inet proxy_protocol deadline_expired tls stream s =
     (case activate now tcp_inet s of
        (False, s1) \<Rightarrow> (LimitReached, s1)
      | (True, s1) \<Rightarrow> (process_stream proxy_protocol deadline_expired tls stream, fetch_sub s1))"

section \<open>Bounds of the attempt-rate filter\<close>

definition filter_bounded :: "connection_rate_filter \<Rightarrow> bool" where
  "filter_bounded f \<longleftrightarrow>
     distinct (map fst (attempts f)) \<and>
     length (attempts f) \<le> max_conn_ips f \<and>
     (\<forall>e \<in> set (attempts f). length (snd e) \<le> max_attempts f) \<and>
     length (global_attempts f) \<le> max_global_attempts f"

lemma length_pop_expired: "length (pop_expired w now ts) \<le> length ts"
  by (induction ts) auto

lemma evict_keeps_bounded: "filter_bounded f \<Longrightarrow> filter_bounded (conn_evict_expired now f)"
proof -
  assume f: "filter_bounded f"
  let ?as = "map (\<lambda>e. (fst e, pop_expired (conn_window f) now (snd e))) (attempts f)"
  have "distinct (map fst ?as)" using f by (simp add: filter_bounded_def comp_def)
  then have "distinct (map fst (filter (\<lambda>e. snd e \<noteq> []) ?as))" by (rule distinct_map_filter)
  moreover have "length (filter (\<lambda>e. snd e \<noteq> []) ?as) \<le> max_conn_ips f"
    using f length_filter_le [of "\<lambda>e. snd e \<noteq> []" ?as]
    by (simp only: filter_bounded_def length_map) linarith
  moreover have "\<forall>e \<in> set ?as. length (snd e) \<le> max_attempts f"
    using f by (auto simp: filter_bounded_def intro: order.trans [OF length_pop_expired])
  ultimately show ?thesis
    using f by (auto simp: filter_bounded_def conn_evict_expired_def)
qed

lemma evict_params [simp]:
  "max_attempts (conn_evict_expired now f) = max_attempts f"
  "conn_window (conn_evict_expired now f) = conn_window f"
  "max_conn_ips (conn_evict_expired now f) = max_conn_ips f"
  "max_global_attempts (conn_evict_expired now f) = max_global_attempts f"
  "global_attempts (conn_evict_expired now f) = global_attempts f"
  by (simp_all add: conn_evict_expired_def)

text \<open>Storing a bucket keeps the bounds when the address is known or there is room for it.\<close>

lemma update_keeps_bounded:
  assumes "filter_bounded f" and "length b \<le> max_attempts f" and "length g \<le> max_global_attempts f"
    and "map_of (attempts f) ip = None \<longrightarrow> length (attempts f) < max_conn_ips f"
  shows "filter_bounded (f\<lparr>attempts := AList.update ip b (attempts f), global_attempts := g\<rparr>)"
  using assms
  by (auto simp: filter_bounded_def length_alist_update distinct_update map_of_eq_None_iff
      dest: set_alist_update)

definition swept :: "nat \<Rightarrow> nat \<Rightarrow> connection_rate_filter \<Rightarrow> connection_rate_filter" where
  "swept now t_sweep f =
     (let f2 = f\<lparr>global_attempts := pop_expired (conn_window f) now (global_attempts f), checks := checks f + 1\<rparr>
      in if checks f mod 256 = 0 then conn_evict_expired t_sweep f2 else f2)"

lemma swept_params [simp]:
  "max_attempts (swept now t f) = max_attempts f"
  "conn_window (swept now t f) = conn_window f"
  "max_conn_ips (swept now t f) = max_conn_ips f"
  "max_global_attempts (swept now t f) = max_global_attempts f"
  "global_attempts (swept now t f) = pop_expired (conn_window f) now (global_attempts f)"
  by (simp_all add: swept_def Let_def)

lemma swept_bounded: "filter_bounded f \<Longrightarrow> filter_bounded (swept now t f)"
proof -
  assume f: "filter_bounded f"
  let ?f2 = "f\<lparr>global_attempts := pop_expired (conn_window f) now (global_attempts f), checks := checks f + 1\<rparr>"
  have "filter_bounded ?f2"
    using f length_pop_expired [of "conn_window f" now "global_attempts f"]
    by (simp add: filter_bounded_def)
  then show ?thesis by (simp add: swept_def Let_def evict_keeps_bounded)
qed

text \<open>\<open>check\<close> with the pruning and the sweep folded into \<open>swept\<close>.\<close>

lemma conn_check_swept:
  "conn_check now t poisoned ip f =
     (let g = pop_expired (conn_window f) now (global_attempts f);
          f3 = swept now t f;
          b = pop_expired (conn_window f) now (conn_bucket f3 ip)
      in if poisoned then (False, f)
         else if max_global_attempts f \<le> length g then (False, f\<lparr>global_attempts := g\<rparr>)
         else if map_of (attempts f3) ip = None \<and> max_conn_ips f \<le> length (attempts f3) then (False, f3)
         else if max_attempts f \<le> length b
         then (False, f3\<lparr>attempts := AList.update ip b (attempts f3), global_attempts := g\<rparr>)
         else (True, f3\<lparr>attempts := AList.update ip (b @ [now]) (attempts f3), global_attempts := g @ [now]\<rparr>))"
  by (simp add: conn_check_def swept_def Let_def)

lemma conn_check_bounded:
  assumes "filter_bounded f"
  shows "filter_bounded (snd (conn_check now t poisoned ip f))"
proof -
  define g where "g = pop_expired (conn_window f) now (global_attempts f)"
  define f3 where "f3 = swept now t f"
  define b where "b = pop_expired (conn_window f) now (conn_bucket f3 ip)"
  have f3: "filter_bounded f3" "max_attempts f3 = max_attempts f" "max_conn_ips f3 = max_conn_ips f"
    "max_global_attempts f3 = max_global_attempts f"
    using assms by (simp_all add: f3_def swept_bounded)
  have g: "length g \<le> max_global_attempts f"
    using assms by (auto simp: g_def filter_bounded_def intro: order.trans [OF length_pop_expired])
  have "length (conn_bucket f3 ip) \<le> max_attempts f"
    using f3 by (cases "map_of (attempts f3) ip")
      (fastforce simp: conn_bucket_def filter_bounded_def dest: map_of_SomeD)+
  then have b: "length b \<le> max_attempts f"
    by (auto simp: b_def intro: order.trans [OF length_pop_expired])
  have upd: "filter_bounded (f3\<lparr>attempts := AList.update ip b' (attempts f3), global_attempts := g'\<rparr>)"
    if "length b' \<le> max_attempts f" "length g' \<le> max_global_attempts f"
      "\<not> (map_of (attempts f3) ip = None \<and> max_conn_ips f \<le> length (attempts f3))" for b' g'
    using f3 that by (intro update_keeps_bounded) auto
  have "filter_bounded (f\<lparr>global_attempts := g\<rparr>)"
    using assms g by (simp add: filter_bounded_def)
  then show ?thesis
    using assms f3 g b upd [of b g] upd [of "b @ [now]" "g @ [now]"]
    by (simp add: conn_check_swept Let_def g_def [symmetric] f3_def [symmetric] b_def [symmetric])
qed

lemma conn_check_params:
  "conn_window (snd (conn_check now t poisoned ip f)) = conn_window f"
  "max_global_attempts (snd (conn_check now t poisoned ip f)) = max_global_attempts f"
  by (simp_all add: conn_check_swept Let_def)

text \<open>The global deque after a check, as the window contract sees it.\<close>

lemma conn_check_global:
  "case conn_check now t poisoned ip f of (ok, f') \<Rightarrow>
     if ok then global_attempts f' = pop_expired (conn_window f) now (global_attempts f) @ [now] \<and>
          length (pop_expired (conn_window f) now (global_attempts f)) < max_global_attempts f
     else global_attempts f' = global_attempts f \<or>
          global_attempts f' = pop_expired (conn_window f) now (global_attempts f)"
  by (auto simp: conn_check_swept Let_def)

section \<open>Runs of the filter\<close>

text \<open>Calls in the order in which they get the lock, with the instants they admit.\<close>

inductive filter_run :: "connection_rate_filter \<Rightarrow> nat \<Rightarrow> nat list \<Rightarrow> bool" where
  filter_start: "filter_run (new_connection_filter ma w ips mg) 0 []"
| filter_check: "filter_run f c hist \<Longrightarrow> c \<le> now \<Longrightarrow> conn_check now t poisoned ip f = (ok, f') \<Longrightarrow>
    filter_run f' now (if ok then hist @ [now] else hist)"

lemma filter_run_tracks:
  "filter_run f c hist \<Longrightarrow>
     tracks (conn_window f) (max_global_attempts f) c (global_attempts f) hist \<and> filter_bounded f"
proof (induction rule: filter_run.induct)
  case (filter_start ma w ips mg)
  show ?case by (simp add: new_connection_filter_def filter_bounded_def)
next
  case (filter_check f c hist now t poisoned ip ok f')
  have tr: "tracks (conn_window f) (max_global_attempts f) c (global_attempts f) hist"
    using filter_check by simp
  note pruned = pop.prune_tracks [OF tr \<open>c \<le> now\<close>]
  have f': "f' = snd (conn_check now t poisoned ip f)" using filter_check by simp
  have glob: "if ok then global_attempts f' = pop_expired (conn_window f) now (global_attempts f) @ [now] \<and>
          length (pop_expired (conn_window f) now (global_attempts f)) < max_global_attempts f
     else global_attempts f' = global_attempts f \<or>
          global_attempts f' = pop_expired (conn_window f) now (global_attempts f)"
    using conn_check_global [where now = now and t = t and poisoned = poisoned and ip = ip and f = f] filter_check by simp
  have "tracks (conn_window f) (max_global_attempts f) now (global_attempts f') (if ok then hist @ [now] else hist)"
  proof (cases ok)
    case True
    with glob show ?thesis using pop.push_tracks [OF tr \<open>c \<le> now\<close>] by simp
  next
    case False
    with glob show ?thesis using pruned tracks_later [OF tr \<open>c \<le> now\<close>] by auto
  qed
  moreover have "filter_bounded f'" unfolding f' by (rule conn_check_bounded) (use filter_check in simp)
  ultimately show ?case by (simp add: f' conn_check_params)
qed

section \<open>Slot accounting\<close>

text \<open>
  A configuration is the shared state, the number of guards alive and the number of units of
  \<open>current\<close> that some task has taken or must give back but has not yet turned into an entry of
  \<open>pending\<close>, a guard or a decrement. Each step is one atomic access. An eviction decrements
  inside the closure of \<open>retain\<close>, with the shard of its entry locked, so it is one step.
\<close>

type_synonym conn_config = "active_connection_state \<times> nat \<times> nat"

inductive conn_step :: "conn_config \<Rightarrow> conn_config \<Rightarrow> bool" where
  step_increment: "increment s = (True, s') \<Longrightarrow> conn_step (s, g, k) (s', g, Suc k)"
| step_give_back: "conn_step (s, g, Suc k) (fetch_sub s, g, k)"
| step_insert_new: "map_of (pending s) a = None \<Longrightarrow>
    conn_step (s, g, Suc k) (s\<lparr>pending := AList.update a t (pending s)\<rparr>, g, k)"
| step_insert_again: "map_of (pending s) a \<noteq> None \<Longrightarrow>
    conn_step (s, g, Suc k) (s\<lparr>pending := AList.update a t (pending s)\<rparr>, g, Suc k)"
| step_evict: "map_of (pending s) a = Some t \<Longrightarrow> \<not> now - t < pending_ttl \<Longrightarrow>
    conn_step (s, g, k) (fetch_sub (s\<lparr>pending := AList.delete a (pending s)\<rparr>), g, k)"
| step_take_pending: "map_of (pending s) a \<noteq> None \<Longrightarrow>
    conn_step (s, g, k) (s\<lparr>pending := AList.delete a (pending s)\<rparr>, Suc g, k)"
| step_guard: "conn_step (s, g, Suc k) (s, Suc g, k)"
| step_drop: "conn_step (s, Suc g, k) (fetch_sub s, g, k)"

definition accounted :: "conn_config \<Rightarrow> bool" where
  "accounted cfg = (case cfg of (s, g, k) \<Rightarrow>
     distinct (map fst (pending s)) \<and> max_active s < 2 ^ 64 \<and>
     unat (current s) = length (pending s) + g + k \<and> unat (current s) \<le> max_active s)"

lemma unat_minus_one_u64: "0 < unat (c :: u64) \<Longrightarrow> unat (c - 1) = unat c - 1"
  by (rule unat_minus_one) auto

lemma unat_plus_one_u64: "unat (c :: u64) < m \<Longrightarrow> m < 2 ^ 64 \<Longrightarrow> unat (c + 1) = Suc (unat c)"
  by (simp add: unat_word_ariths)

lemma conn_step_accounted: "conn_step x y \<Longrightarrow> accounted x \<Longrightarrow> accounted y"
proof (induction rule: conn_step.induct)
  case (step_increment s s' g k)
  then show ?case by (auto simp: accounted_def increment_def unat_plus_one_u64 split: if_splits)
next
  case (step_evict s a t now g k)
  have "Suc (length (AList.delete a (pending s))) = length (pending s)"
    using step_evict by (intro length_alist_delete) (auto simp: accounted_def)
  moreover from this have "unat (current s - 1) = unat (current s) - 1"
    using step_evict by (intro unat_minus_one_u64) (auto simp: accounted_def)
  ultimately show ?case using step_evict by (auto simp: accounted_def fetch_sub_def distinct_delete)
next
  case (step_take_pending s a g k)
  then show ?case using length_alist_delete [of "pending s" a]
    by (auto simp: accounted_def distinct_delete)
qed (auto simp: accounted_def fetch_sub_def unat_minus_one_u64 distinct_update length_update_new length_update_old)

lemma conn_steps_accounted: "conn_step\<^sup>*\<^sup>* x y \<Longrightarrow> accounted x \<Longrightarrow> accounted y"
  by (induction rule: rtranclp_induct) (auto intro: conn_step_accounted)

lemma accounted_start: "mx < 2 ^ 64 \<Longrightarrow> accounted (new_active_state mx, 0, 0)"
  by (simp add: accounted_def new_active_state_def)

section \<open>The operations as runs of atomic steps\<close>

lemma retain_pending_eq:
  "retain_pending now ps c =
     (filter (\<lambda>p. now - snd p < pending_ttl) ps,
      c - of_nat (length (filter (\<lambda>p. \<not> now - snd p < pending_ttl) ps)))"
  by (induction now ps c rule: retain_pending.induct) (simp_all add: Let_def)

lemma update_swap: "s\<lparr>current := c, pending := r\<rparr> = s\<lparr>pending := r, current := c\<rparr>"
  by simp

lemma delete_append: "AList.delete a (ps @ qs) = AList.delete a ps @ AList.delete a qs"
  by (simp add: AList.delete_eq)

lemma evict_steps:
  assumes "distinct (map fst (ps @ pending s))" and "\<forall>p \<in> set ps. now - snd p < pending_ttl"
  shows "conn_step\<^sup>*\<^sup>* (s\<lparr>pending := ps @ pending s\<rparr>, g, k)
    (s\<lparr>pending := ps @ filter (\<lambda>p. now - snd p < pending_ttl) (pending s),
       current := current s - of_nat (length (filter (\<lambda>p. \<not> now - snd p < pending_ttl) (pending s)))\<rparr>, g, k)"
  using assms
proof (induction "pending s" arbitrary: s ps)
  case Nil
  then show ?case by simp
next
  case (Cons p qs)
  obtain a t where p: "p = (a, t)" by (cases p)
  show ?case
  proof (cases "now - t < pending_ttl")
    case True
    then show ?thesis
      using Cons.hyps(1) [of "s\<lparr>pending := qs\<rparr>" "ps @ [p]"] Cons.hyps(2) [symmetric] Cons.prems p by simp
  next
    case False
    let ?s = "s\<lparr>pending := qs, current := current s - 1\<rparr>"
    have notin: "a \<notin> fst ` set ps" "a \<notin> fst ` set qs"
      using Cons.prems(1) Cons.hyps(2) [symmetric] p by auto
    then have "AList.delete a (ps @ (a, t) # qs) = ps @ qs"
      by (simp add: delete_append)
    moreover have "map_of ps a = None" using notin by (simp add: map_of_eq_None_iff)
    ultimately have "conn_step (s\<lparr>pending := ps @ pending s\<rparr>, g, k) (?s\<lparr>pending := ps @ qs\<rparr>, g, k)"
      using step_evict [of "s\<lparr>pending := ps @ pending s\<rparr>" a t now g k] False
        Cons.hyps(2) [symmetric] p by (simp add: fetch_sub_def map_add_def update_swap)
    moreover have "conn_step\<^sup>*\<^sup>* (?s\<lparr>pending := ps @ qs\<rparr>, g, k)
      (s\<lparr>pending := ps @ filter (\<lambda>p. now - snd p < pending_ttl) (pending s),
         current := current s - of_nat (length (filter (\<lambda>p. \<not> now - snd p < pending_ttl) (pending s)))\<rparr>, g, k)"
      using Cons.hyps(1) [of ?s ps] Cons.hyps(2) [symmetric] Cons.prems False p by (simp add: algebra_simps)
    ultimately show ?thesis by (rule converse_rtranclp_into_rtranclp)
  qed
qed

lemma evict_expired_pending_steps:
  assumes "distinct (map fst (pending s))"
  shows "conn_step\<^sup>*\<^sup>* (s, g, k) (evict_expired_pending now s, g, k)"
  using evict_steps [of "[]" s now g k] assms
  by (simp add: evict_expired_pending_def retain_pending_eq)

lemma reserve_pending_steps:
  assumes "distinct (map fst (pending s))"
  shows "conn_step\<^sup>*\<^sup>* (s, g, k) (snd (reserve_pending t1 t2 a s), g, k)"
proof -
  let ?e = "evict_expired_pending t1 s"
  have e: "conn_step\<^sup>*\<^sup>* (s, g, k) (?e, g, k)" using assms by (rule evict_expired_pending_steps)
  obtain ok s1 where inc: "increment ?e = (ok, s1)" by (cases "increment ?e")
  let ?s2 = "s1\<lparr>pending := AList.update a t2 (pending s1)\<rparr>"
  show ?thesis
  proof (cases ok)
    case False
    then have "s1 = ?e" using inc by (simp add: increment_def split: if_splits)
    with False inc e show ?thesis by (simp add: reserve_pending_def)
  next
    case True
    then have i: "conn_step (?e, g, k) (s1, g, Suc k)" using inc by (simp add: step_increment)
    show ?thesis
    proof (cases "map_of (pending s1) a")
      case None
      with True inc e i step_insert_new [OF None, of g k t2] show ?thesis
        by (simp add: reserve_pending_def Let_def)
    next
      case (Some t)
      then have "conn_step (s1, g, Suc k) (?s2, g, Suc k)" by (simp add: step_insert_again)
      with Some True inc e i step_give_back [of ?s2 g k] show ?thesis
        by (simp add: reserve_pending_def Let_def)
    qed
  qed
qed

lemma increment_steps:
  "conn_step\<^sup>*\<^sup>* (s, g, k) (snd (increment s), if fst (increment s) then Suc g else g, k)"
proof (cases "increment s")
  case (Pair ok s1)
  show ?thesis
  proof (cases ok)
    case True
    with Pair have "conn_step (s, g, k) (s1, g, Suc k)" by (simp add: step_increment)
    with step_guard [of s1 g k] True Pair show ?thesis by simp
  next
    case False
    with Pair show ?thesis by (simp add: increment_def split: if_splits)
  qed
qed

lemma activate_steps:
  assumes "distinct (map fst (pending s))"
  shows "conn_step\<^sup>*\<^sup>* (s, g, k) (snd (activate now addr s), if fst (activate now addr s) then Suc g else g, k)"
proof -
  let ?e = "evict_expired_pending now s"
  have e: "conn_step\<^sup>*\<^sup>* (s, g, k) (?e, g, k)" using assms by (rule evict_expired_pending_steps)
  show ?thesis
  proof (cases "\<exists>a. addr = Some a \<and> map_of (pending ?e) a \<noteq> None")
    case True
    then obtain a where a: "addr = Some a" "map_of (pending ?e) a \<noteq> None" by blast
    from e step_take_pending [OF a(2), of g k] a show ?thesis by (simp add: activate_def Let_def)
  next
    case False
    then have "activate now addr s = increment ?e" by (auto simp: activate_def Let_def split: option.splits)
    with e increment_steps [of ?e g k] show ?thesis by simp
  qed
qed

lemma process_new_steps:
  assumes "distinct (map fst (pending s))"
  shows "conn_step\<^sup>*\<^sup>* (s, g, k) (snd (process_new now addr pp dl tls stream s), g, k)"
proof (cases "activate now addr s")
  case (Pair ok s1)
  with activate_steps [OF assms, of g k now addr]
  have "conn_step\<^sup>*\<^sup>* (s, g, k) (s1, if ok then Suc g else g, k)" by simp
  with rtranclp.rtrancl_into_rtrancl [of conn_step "(s, g, k)" "(s1, Suc g, k)" "(fetch_sub s1, g, k)"]
    step_drop [of s1 g k] Pair show ?thesis
    by (cases ok) (auto simp: process_new_def)
qed

section \<open>Properties\<close>

text \<open>C21. Whatever the addresses, no window of the configured length sees more accepted
  connections than \<open>GLOBAL_CONNECTION_RATE_MAX\<close>, and the memory of the filter is bounded: at
  most \<open>CONNECTION_RATE_MAX_IPS\<close> addresses, at most \<open>CONNECTION_RATE_MAX\<close> instants for each
  and at most \<open>GLOBAL_CONNECTION_RATE_MAX\<close> in the global deque.\<close>

theorem connection_rate_bound:
  assumes "filter_run f c hist"
  shows "window_count (conn_window f) a hist \<le> max_global_attempts f \<and>
    length (attempts f) \<le> max_conn_ips f \<and>
    (\<forall>e \<in> set (attempts f). length (snd e) \<le> max_attempts f) \<and>
    length (global_attempts f) \<le> max_global_attempts f"
  using filter_run_tracks [OF assms] tracks_bound by (auto simp: filter_bounded_def)

theorem connection_rate_bound_witness:
  "let f = snd (conn_check 3 3 False (V4 1) (new_connection_filter 2 10 5 1)) in
     filter_run f 3 [3] \<and> window_count (conn_window f) 0 [3] \<le> max_global_attempts f"
proof -
  let ?f = "snd (conn_check 3 3 False (V4 1) (new_connection_filter 2 10 5 1))"
  have "conn_check 3 3 False (V4 1) (new_connection_filter 2 10 5 1) = (True, ?f)"
    by code_simp
  from filter_check [OF filter_start _ this] have "filter_run ?f 3 [3]" by simp
  with connection_rate_bound [OF this, of 0] show ?thesis by (simp add: Let_def)
qed



text \<open>Each operation of the code is a sequence of those accesses that ends with nothing
  outstanding: a reservation leaves the guards alone, activation hands out a guard exactly
  when it succeeds, and a connection gives its slot back on every path, whether the PROXY
  header is refused, the handshake fails or the application runs.\<close>

theorem connection_operations_balanced:
  assumes "accounted (s, g, 0)"
  shows "accounted (snd (reserve_pending t1 t2 a s), g, 0) \<and>
    accounted (snd (activate now addr s), if fst (activate now addr s) then Suc g else g, 0) \<and>
    accounted (snd (process_new now addr pp dl tls stream s), g, 0)"
proof -
  have d: "distinct (map fst (pending s))" using assms by (simp add: accounted_def)
  show ?thesis
    using conn_steps_accounted [OF reserve_pending_steps [OF d] assms]
      conn_steps_accounted [OF activate_steps [OF d] assms]
      conn_steps_accounted [OF process_new_steps [OF d] assms] by blast
qed

theorem connection_operations_balanced_witness:
  "accounted (snd (process_new 7 (Some (SocketV4 1 2)) True False None [1, 2, 3] (new_active_state 1)), 0, 0)"
  using connection_operations_balanced [OF accounted_start, of 1 0 0 "SocketV4 1 2" 7 "Some (SocketV4 1 2)" True False None "[1, 2, 3]"]
  by simp

end
