(* ===== verification/Rust_Utf8.thy ===== *)
theory Rust_Utf8
  imports Prelude
begin

text \<open>
  Well-formed UTF-8 as \<open>String::from_utf8\<close> checks it, on a string whose characters are the
  bytes: the ranges are those of the table in the Unicode standard (no overlong forms, no
  surrogates, nothing above U+10FFFF). The lemmas say that a well-formed text may be cut and
  joined at any ASCII byte.
\<close>

definition utf8_cont :: "char \<Rightarrow> bool" where
  "utf8_cont c \<longleftrightarrow> 0x80 \<le> byte_of c \<and> byte_of c < 0xC0"

definition utf8_second3 :: "char \<Rightarrow> char \<Rightarrow> bool" where
  "utf8_second3 a c \<longleftrightarrow>
     utf8_cont c \<and> (byte_of a = 0xE0 \<longrightarrow> 0xA0 \<le> byte_of c) \<and> (byte_of a = 0xED \<longrightarrow> byte_of c < 0xA0)"

definition utf8_second4 :: "char \<Rightarrow> char \<Rightarrow> bool" where
  "utf8_second4 a c \<longleftrightarrow>
     utf8_cont c \<and> (byte_of a = 0xF0 \<longrightarrow> 0x90 \<le> byte_of c) \<and> (byte_of a = 0xF4 \<longrightarrow> byte_of c < 0x90)"

text \<open>The text after one encoded character, when the text starts with a well-formed one.\<close>

definition utf8_step :: "string \<Rightarrow> string option" where
  "utf8_step s = (case s of
     [] \<Rightarrow> None
   | a # r \<Rightarrow>
       if is_ascii a then Some r
       else if byte_of a < 0xC2 then None
       else if byte_of a < 0xE0 then (case r of x # r' \<Rightarrow> if utf8_cont x then Some r' else None | _ \<Rightarrow> None)
       else if byte_of a < 0xF0 then
         (case r of x # y # r' \<Rightarrow> if utf8_second3 a x \<and> utf8_cont y then Some r' else None | _ \<Rightarrow> None)
       else if byte_of a < 0xF5 then
         (case r of x # y # z # r' \<Rightarrow>
            if utf8_second4 a x \<and> utf8_cont y \<and> utf8_cont z then Some r' else None
          | _ \<Rightarrow> None)
       else None)"

lemma utf8_step_shorter: "utf8_step s = Some r \<Longrightarrow> length r < length s"
  by (auto simp: utf8_step_def split: list.splits if_splits)

function utf8_valid :: "string \<Rightarrow> bool" where
  "utf8_valid s = (s = [] \<or> (case utf8_step s of Some r \<Rightarrow> utf8_valid r | None \<Rightarrow> False))"
  by pat_completeness auto
termination
  by (relation "measure length") (auto dest: utf8_step_shorter)

declare utf8_valid.simps [simp del]

lemma ascii_not_cont [simp]: "is_ascii c \<Longrightarrow> \<not> utf8_cont c"
  by (simp add: is_ascii_def utf8_cont_def)

lemma ascii_not_second [simp]:
  "is_ascii c \<Longrightarrow> \<not> utf8_second3 a c" "is_ascii c \<Longrightarrow> \<not> utf8_second4 a c"
  by (simp_all add: utf8_second3_def utf8_second4_def)

lemma utf8_valid_Nil [simp]: "utf8_valid []"
  by (simp add: utf8_valid.simps)

lemma utf8_valid_ascii_Cons [simp]: "is_ascii c \<Longrightarrow> utf8_valid (c # s) \<longleftrightarrow> utf8_valid s"
  by (subst utf8_valid.simps) (simp add: utf8_step_def)

lemma utf8_valid_ascii: "\<forall>c \<in> set s. is_ascii c \<Longrightarrow> utf8_valid s"
  by (induction s) auto

lemma utf8_step_append:
  assumes "is_ascii c" and "a \<noteq> []"
  shows "utf8_step (a @ c # b) = map_option (\<lambda>r. r @ c # b) (utf8_step a)"
proof -
  obtain x r where a: "a = x # r" using assms(2) by (cases a) auto
  consider "r = []" | y where "r = [y]" | y z where "r = [y, z]" | y z w t where "r = y # z # w # t"
    by (metis list.exhaust)
  then show ?thesis
    by cases (use assms(1) a in \<open>auto simp: utf8_step_def split: list.splits\<close>)
qed

lemma utf8_valid_append_ascii:
  assumes "is_ascii c"
  shows "utf8_valid (a @ c # b) \<longleftrightarrow> utf8_valid a \<and> utf8_valid b"
proof (induction a rule: utf8_valid.induct)
  case (1 a)
  show ?case
  proof (cases "a = []")
    case True
    then show ?thesis using assms by simp
  next
    case False
    note step = utf8_step_append [OF assms False, of b]
    show ?thesis
    proof (cases "utf8_step a")
      case None
      with step False show ?thesis
        by (simp add: utf8_valid.simps [of "a @ c # b"] utf8_valid.simps [of a])
    next
      case (Some r)
      with step False 1 [OF Some] show ?thesis
        by (simp add: utf8_valid.simps [of "a @ c # b"] utf8_valid.simps [of a])
    qed
  qed
qed

lemma utf8_valid_split_on:
  assumes "is_ascii c" and "utf8_valid s"
  shows "\<forall>p \<in> set (split_on c s). utf8_valid p"
proof -
  have "utf8_valid (join_with c ps) \<Longrightarrow> \<forall>p \<in> set ps. utf8_valid p" for ps
    using assms(1) by (induction ps) (auto simp: utf8_valid_append_ascii split: if_splits)
  from this [of "split_on c s"] assms(2) show ?thesis by (simp add: join_split_on)
qed

lemma utf8_valid_join_with:
  assumes "is_ascii c" and "\<forall>p \<in> set ps. utf8_valid p"
  shows "utf8_valid (join_with c ps)"
  using assms by (induction ps) (auto simp: utf8_valid_append_ascii)

text \<open>Exchanging one ASCII byte for another keeps a text well-formed.\<close>

lemma utf8_step_map:
  assumes "\<And>x. is_ascii x \<Longrightarrow> is_ascii (f x)" and "\<And>x. \<not> is_ascii x \<Longrightarrow> f x = x"
    and "utf8_step s = Some r"
  shows "utf8_step (map f s) = Some (map f r)"
proof -
  obtain a t where s: "s = a # t" using assms(3) by (cases s) (auto simp: utf8_step_def)
  have cont: "utf8_cont x \<Longrightarrow> f x = x" for x
    using assms(2) ascii_not_cont by blast
  show ?thesis
  proof (cases "is_ascii a")
    case True
    with s assms(1,3) show ?thesis by (simp add: utf8_step_def)
  next
    case False
    then have fa: "f a = a" by (rule assms(2))
    have sec: "utf8_second3 a x \<Longrightarrow> f x = x" "utf8_second4 a x \<Longrightarrow> f x = x" for x
      by (simp_all add: utf8_second3_def utf8_second4_def cont)
    consider "t = []" | y where "t = [y]" | y z where "t = [y, z]" | y z w u where "t = y # z # w # u"
      by (metis list.exhaust)
    then show ?thesis
      by cases (use assms(3) s False fa cont sec in \<open>simp_all add: utf8_step_def split: if_split_asm\<close>, auto)
  qed
qed

lemma utf8_valid_map:
  assumes "\<And>x. is_ascii x \<Longrightarrow> is_ascii (f x)" and "\<And>x. \<not> is_ascii x \<Longrightarrow> f x = x"
  shows "utf8_valid s \<Longrightarrow> utf8_valid (map f s)"
proof (induction s rule: utf8_valid.induct)
  case (1 s)
  show ?case
  proof (cases "s = []")
    case False
    with 1(2) obtain r where r: "utf8_step s = Some r" "utf8_valid r"
      by (auto simp: utf8_valid.simps [of s] split: option.splits)
    with 1(1) [OF r(1)] utf8_step_map [of f s r] assms show ?thesis
      by (subst utf8_valid.simps) simp
  qed simp
qed

section \<open>Character boundaries and encoding\<close>

definition is_char_boundary :: "string \<Rightarrow> nat \<Rightarrow> bool" where
  "is_char_boundary s i \<longleftrightarrow> i = 0 \<or> i = length s \<or> (i < length s \<and> \<not> utf8_cont (s ! i))"

text \<open>The loop that walks an index back to a boundary before a text is cut there.\<close>

fun floor_boundary :: "string \<Rightarrow> nat \<Rightarrow> nat" where
  "floor_boundary s i = (if 0 < i \<and> \<not> is_char_boundary s i then floor_boundary s (i - 1) else i)"

declare floor_boundary.simps [simp del]

lemma floor_boundary_le: "floor_boundary s i \<le> i"
proof (induction s i rule: floor_boundary.induct)
  case (1 s i)
  then show ?case by (subst floor_boundary.simps) auto
qed

lemma floor_boundary_is: "is_char_boundary s (floor_boundary s i)"
proof (induction s i rule: floor_boundary.induct)
  case (1 s i)
  then show ?case by (subst floor_boundary.simps) (auto simp: is_char_boundary_def)
qed

lemma floor_boundary_ascii:
  assumes "\<forall>c \<in> set s. is_ascii c" and "i \<le> length s"
  shows "floor_boundary s i = i"
proof -
  have "i < length s \<Longrightarrow> \<not> utf8_cont (s ! i)"
    using assms(1) ascii_not_cont nth_mem by blast
  then have "is_char_boundary s i"
    using assms(2) by (auto simp: is_char_boundary_def)
  then show ?thesis by (simp add: floor_boundary.simps)
qed

text \<open>\<open>char::from_u32\<close> refuses surrogates and values above U+10FFFF; \<open>String::push\<close> encodes.\<close>

definition char_from_u32 :: "nat \<Rightarrow> nat option" where
  "char_from_u32 cp = (if 0xD800 \<le> cp \<and> cp < 0xE000 \<or> 0x10FFFF < cp then None else Some cp)"

definition encode_utf8 :: "nat \<Rightarrow> string" where
  "encode_utf8 cp =
     (if cp < 0x80 then [char_of cp]
      else if cp < 0x800 then [char_of (0xC0 + cp div 64), char_of (0x80 + cp mod 64)]
      else if cp < 0x10000 then
        [char_of (0xE0 + cp div 4096), char_of (0x80 + cp div 64 mod 64), char_of (0x80 + cp mod 64)]
      else
        [char_of (0xF0 + cp div 262144), char_of (0x80 + cp div 4096 mod 64),
         char_of (0x80 + cp div 64 mod 64), char_of (0x80 + cp mod 64)])"

lemma encode_utf8_ascii: "cp < 128 \<Longrightarrow> encode_utf8 cp = [char_of cp]"
  by (simp add: encode_utf8_def)

lemma encode_utf8_latin1:
  assumes "128 \<le> cp" and "cp < 256"
  shows "length (encode_utf8 cp) = 2" "\<forall>c \<in> set (encode_utf8 cp). \<not> is_ascii c"
  using assms by (auto simp: encode_utf8_def is_ascii_def)

end
