(* ===== verification/Route_Path.thy ===== *)
theory Route_Path
  imports Rust_Utf8
begin

text \<open>
  Paths and sizes of the site configuration, \<open>src/src/config.rs\<close>: the canonical form of a
  request path, prefix matching and byte sizes. Every route-scoped policy (inspection, DLP,
  GraphQL, authorization, gRPC, JWT bindings) looks a path up in this form. A path is the
  list of its bytes.
\<close>

definition hex_value :: "char \<Rightarrow> nat option" where
  "hex_value c =
     (let b = byte_of c
      in if 48 \<le> b \<and> b \<le> 57 then Some (b - 48)
         else if 97 \<le> b \<and> b \<le> 102 then Some (b - 97 + 10)
         else if 65 \<le> b \<and> b \<le> 70 then Some (b - 65 + 10)
         else None)"

fun percent_decode :: "string \<Rightarrow> string option" where
  "percent_decode [] = Some []"
| "percent_decode (c # r) =
     (if c \<noteq> CHR ''%'' then map_option (Cons c) (percent_decode r)
      else (case r of
              high # low # r' \<Rightarrow>
                (case (hex_value high, hex_value low) of
                   (Some h, Some l) \<Rightarrow> map_option (Cons (char_of (16 * h + l))) (percent_decode r')
                 | _ \<Rightarrow> None)
            | _ \<Rightarrow> None))"

text \<open>
  The decoding loop: up to eight passes, leaving at the first that changes nothing, and one
  more look when none did.
\<close>

fun decode_passes :: "nat \<Rightarrow> string \<Rightarrow> string option" where
  "decode_passes 0 decoded =
     (case percent_decode decoded of
        None \<Rightarrow> None
      | Some next \<Rightarrow> if next \<noteq> decoded then None else Some decoded)"
| "decode_passes (Suc n) decoded =
     (case percent_decode decoded of
        None \<Rightarrow> None
      | Some next \<Rightarrow> if next = decoded then Some decoded else decode_passes n next)"

abbreviation slash :: char where "slash \<equiv> CHR ''/''"
abbreviation backslash :: char where "backslash \<equiv> CHR 0x5C"

definition unbackslash :: "string \<Rightarrow> string" where
  "unbackslash s = map (\<lambda>c. if c = backslash then slash else c) s"

definition push_segment :: "string list \<Rightarrow> string \<Rightarrow> string list" where
  "push_segment segments segment =
     (if segment = [] \<or> segment = ''.'' then segments
      else if segment = ''..'' then butlast segments
      else segments @ [segment])"

definition canonical_route_path :: "string \<Rightarrow> string option" where
  "canonical_route_path path =
     (case decode_passes 8 path of
        None \<Rightarrow> None
      | Some decoded \<Rightarrow>
          if \<not> utf8_valid decoded then None
          else Some (slash # join_with slash (foldl push_segment [] (split_on slash (unbackslash decoded)))))"

definition path_matches_prefix :: "string \<Rightarrow> string \<Rightarrow> bool" where
  "path_matches_prefix path prefix \<longleftrightarrow>
     path = prefix \<or> prefix = ''/'' \<or>
     (ends_with prefix ''/'' \<and> starts_with path prefix) \<or>
     (case strip_prefix path prefix of Some suffix \<Rightarrow> starts_with suffix ''/'' | None \<Rightarrow> False)"

datatype size_error = EmptySize | InvalidSize

definition parse_byte_size :: "string \<Rightarrow> (size_error, nat) result" where
  "parse_byte_size raw =
     (let trimmed = trim raw
      in if trimmed = [] then Err EmptySize
         else
           let lower = to_ascii_lowercase trimmed;
               (number, multiplier) =
                 (case strip_suffix lower ''kib'' of
                    Some number \<Rightarrow> (trim number, 1024)
                  | None \<Rightarrow>
                    (case strip_suffix lower ''mib'' of
                       Some number \<Rightarrow> (trim number, 1024 * 1024)
                     | None \<Rightarrow>
                       (case strip_suffix lower ''gib'' of
                          Some number \<Rightarrow> (trim number, 1024 * 1024 * 1024)
                        | None \<Rightarrow> (trimmed, 1))))
           in case parse_uint usize_max number of
                None \<Rightarrow> Err InvalidSize
              | Some value \<Rightarrow>
                  (case opt_filter (\<lambda>sz. 0 < sz) (checked_mul usize_max value multiplier) of
                     Some sz \<Rightarrow> Ok sz
                   | None \<Rightarrow> Err InvalidSize))"

text \<open>A configured prefix is absolute, without a query, and stored in canonical form.\<close>

datatype prefix_error = RelativeOrQuery string | UndecodablePrefix string

definition parse_path_prefixes :: "string list \<Rightarrow> (prefix_error, string list) result" where
  "parse_path_prefixes values =
     collect_results
       (\<lambda>v. if \<not> starts_with v ''/'' \<or> CHR ''?'' \<in> set v \<or> CHR ''#'' \<in> set v then Err (RelativeOrQuery v)
            else (case canonical_route_path v of Some p \<Rightarrow> Ok p | None \<Rightarrow> Err (UndecodablePrefix v)))
       (filter (\<lambda>v. v \<noteq> []) (map trim values))"

section \<open>Decoding\<close>

lemma percent_decode_length:
  "percent_decode s = Some t \<Longrightarrow> length t \<le> length s \<and> (CHR ''%'' \<in> set s \<longrightarrow> length t < length s)"
proof (induction s arbitrary: t rule: percent_decode.induct)
  case (2 c r)
  show ?case
  proof (cases "c = CHR ''%''")
    case False
    with 2 show ?thesis by auto
  next
    case True
    with 2(3) obtain high low r' h l t' where *: "r = high # low # r'" "hex_value high = Some h"
      "hex_value low = Some l" "percent_decode r' = Some t'" "t = char_of (16 * h + l) # t'"
      by (auto split: list.splits option.splits)
    moreover from * True have "length t' \<le> length r'" using 2(2) by fastforce
    ultimately show ?thesis by simp
  qed
qed simp

lemma percent_decode_plain: "CHR ''%'' \<notin> set s \<Longrightarrow> percent_decode s = Some s"
  by (induction s) auto

lemma percent_decode_fixed: "percent_decode s = Some s \<longleftrightarrow> CHR ''%'' \<notin> set s"
  using percent_decode_length [of s s] percent_decode_plain [of s] by auto

lemma decode_passes_plain: "decode_passes n s = Some t \<Longrightarrow> CHR ''%'' \<notin> set t"
  by (induction n s rule: decode_passes.induct)
    (auto simp: percent_decode_fixed [symmetric] split: option.splits if_splits)

lemma decode_passes_id: "CHR ''%'' \<notin> set s \<Longrightarrow> decode_passes n s = Some s"
  by (cases n) (simp_all add: percent_decode_plain)

section \<open>Segments\<close>

definition plain_segment :: "string \<Rightarrow> bool" where
  "plain_segment p \<longleftrightarrow> p \<noteq> [] \<and> p \<noteq> ''.'' \<and> p \<noteq> ''..'' \<and> slash \<notin> set p"

lemma split_on_join_with:
  "ps \<noteq> [] \<Longrightarrow> \<forall>p \<in> set ps. c \<notin> set p \<Longrightarrow> split_on c (join_with c ps) = ps"
proof (induction ps)
  case (Cons p ps)
  then show ?case by (cases "ps = []") (simp_all add: split_on_append split_on_no_sep)
qed simp

lemma push_segments_from:
  "set (foldl push_segment acc ps) \<subseteq> set acc \<union> {p \<in> set ps. p \<noteq> [] \<and> p \<noteq> ''.'' \<and> p \<noteq> ''..''}"
  by (induction ps arbitrary: acc) (force simp: push_segment_def dest: in_set_butlastD split: if_splits)+

lemma push_plain_segments: "\<forall>p \<in> set ps. plain_segment p \<Longrightarrow> foldl push_segment acc ps = acc @ ps"
  by (induction ps arbitrary: acc) (simp_all add: push_segment_def plain_segment_def)

lemma split_on_slash_path:
  assumes "\<forall>p \<in> set ps. plain_segment p"
  shows "foldl push_segment [] (split_on slash (slash # join_with slash ps)) = ps"
proof -
  have "split_on slash (slash # join_with slash ps) = [] # split_on slash (join_with slash ps)"
    using split_on_append [of slash "[]" "join_with slash ps"] by simp
  moreover have "foldl push_segment [] (split_on slash (join_with slash ps)) = ps"
    using assms push_plain_segments [of ps "[]"]
    by (cases "ps = []") (auto simp: split_on_join_with push_segment_def plain_segment_def)
  ultimately show ?thesis by (simp add: push_segment_def)
qed

lemma set_join_with: "set (join_with c ps) \<subseteq> insert c (\<Union> (set ` set ps))"
  by (induction ps) auto

lemma set_split_on: "p \<in> set (split_on c s) \<Longrightarrow> set p \<subseteq> set s"
  by (induction s arbitrary: p) (auto split: list.splits if_splits, blast+)

section \<open>The canonical form\<close>

definition canonical_path :: "string \<Rightarrow> bool" where
  "canonical_path q \<longleftrightarrow>
     (\<exists>ps. q = slash # join_with slash ps \<and>
       (\<forall>p \<in> set ps. plain_segment p \<and> CHR ''%'' \<notin> set p \<and> backslash \<notin> set p \<and> utf8_valid p))"

lemma unbackslash_id: "backslash \<notin> set s \<Longrightarrow> unbackslash s = s"
  by (auto simp: unbackslash_def intro: map_idI)

lemma utf8_valid_unbackslash: "utf8_valid s \<Longrightarrow> utf8_valid (unbackslash s)"
  unfolding unbackslash_def by (rule utf8_valid_map) (auto simp: is_ascii_def)

lemma canonical_route_path_canonical:
  assumes "canonical_route_path s = Some q"
  shows "canonical_path q"
proof -
  from assms obtain d where d: "decode_passes 8 s = Some d" "utf8_valid d"
    and q: "q = slash # join_with slash (foldl push_segment [] (split_on slash (unbackslash d)))"
    by (auto simp: canonical_route_path_def split: option.splits if_splits)
  have "plain_segment p \<and> CHR ''%'' \<notin> set p \<and> backslash \<notin> set p \<and> utf8_valid p"
    if p: "p \<in> set (foldl push_segment [] (split_on slash (unbackslash d)))" for p
  proof -
    have p': "p \<in> set (split_on slash (unbackslash d))" "p \<noteq> []" "p \<noteq> ''.''" "p \<noteq> ''..''"
      using p push_segments_from [of "[]" "split_on slash (unbackslash d)"] by auto
    have "CHR ''%'' \<notin> set (unbackslash d)" "backslash \<notin> set (unbackslash d)"
      using decode_passes_plain [OF d(1)] by (auto simp: unbackslash_def)
    moreover have "utf8_valid p"
      using utf8_valid_split_on [OF _ utf8_valid_unbackslash [OF d(2)], of slash] p'(1)
      by (simp add: is_ascii_def)
    ultimately show ?thesis
      using p' split_on_pieces [OF p'(1)] set_split_on [OF p'(1)] by (auto simp: plain_segment_def)
  qed
  with q show ?thesis unfolding canonical_path_def by blast
qed

lemma canonical_route_path_fixed:
  assumes "canonical_path q"
  shows "canonical_route_path q = Some q"
proof -
  from assms obtain ps where q: "q = slash # join_with slash ps"
    and ps: "\<forall>p \<in> set ps. plain_segment p \<and> CHR ''%'' \<notin> set p \<and> backslash \<notin> set p \<and> utf8_valid p"
    by (auto simp: canonical_path_def)
  have "CHR ''%'' \<notin> set q" "backslash \<notin> set q"
    using ps set_join_with [of slash ps] by (auto simp: q)
  moreover have "utf8_valid q"
    using ps utf8_valid_join_with [of slash ps] by (simp add: q is_ascii_def)
  ultimately show ?thesis
    using ps split_on_slash_path [of ps]
    by (simp add: canonical_route_path_def decode_passes_id unbackslash_id) (simp add: q)
qed

section \<open>Properties\<close>

text \<open>C23. The canonical path is a normal form: it starts with a slash, has no empty, dot or
  dot-dot segment, no percent sign and no backslash, and canonicalising it again changes
  nothing. Encoding a path once more, or adding dot segments, therefore cannot make the
  route lookup see a different spelling of the same path.\<close>

theorem canonical_route_path_normal_form:
  assumes "canonical_route_path s = Some q"
  shows "canonical_route_path q = Some q \<and> starts_with q ''/'' \<and>
    CHR ''%'' \<notin> set q \<and> backslash \<notin> set q \<and>
    (\<forall>p \<in> set (tl (split_on slash q)). q \<noteq> ''/'' \<longrightarrow> p \<noteq> [] \<and> p \<noteq> ''.'' \<and> p \<noteq> ''..'')"
proof -
  have c: "canonical_path q" using assms by (rule canonical_route_path_canonical)
  then obtain ps where q: "q = slash # join_with slash ps"
    and ps: "\<forall>p \<in> set ps. plain_segment p \<and> CHR ''%'' \<notin> set p \<and> backslash \<notin> set p \<and> utf8_valid p"
    by (auto simp: canonical_path_def)
  have "CHR ''%'' \<notin> set q" "backslash \<notin> set q"
    using ps set_join_with [of slash ps] by (auto simp: q)
  moreover have "tl (split_on slash q) = ps" if "q \<noteq> ''/''"
  proof -
    have "ps \<noteq> []" using that q by auto
    then show ?thesis
      using split_on_append [of slash "[]" "join_with slash ps"] ps
      by (simp add: q split_on_join_with plain_segment_def)
  qed
  moreover have "starts_with q ''/''" by (simp add: q starts_with_def)
  ultimately show ?thesis
    using canonical_route_path_fixed [OF c] ps by (auto simp: plain_segment_def)
qed

theorem canonical_route_path_normal_form_witness:
  "canonical_route_path ''/a/%252e%252e/./admin'' = Some ''/admin'' \<and>
   canonical_route_path ''/admin'' = Some ''/admin''"
proof -
  have "canonical_route_path ''/a/%252e%252e/./admin'' = Some ''/admin''" by code_simp
  with canonical_route_path_normal_form [OF this] show ?thesis by simp
qed

end
