(* ===== verification/Grpc_Gate.thy ===== *)
theory Grpc_Gate
  imports Route_Path Proxy_Protocol
begin

text \<open>
  The gRPC method allowlist, \<open>src/src/grpc.rs\<close>. The descriptor pool of \<open>prost_reflect\<close> is a
  parameter: \<open>pool_decode\<close> reads a descriptor set, \<open>services\<close> gives the methods of a service
  with their input types, \<open>message_ok\<close> says whether a payload decodes as an input type. A
  \<open>Duration\<close> is its number of nanoseconds. Error texts are replaced by the constructors of
  \<open>grpc_error\<close>.
\<close>

abbreviation DEFAULT_MAX_MESSAGE :: nat where "DEFAULT_MAX_MESSAGE \<equiv> 64 * 1024"
abbreviation HARD_MAX_MESSAGE :: nat where "HARD_MAX_MESSAGE \<equiv> 16 * 1024 * 1024"
abbreviation HARD_MAX_ALLOW :: nat where "HARD_MAX_ALLOW \<equiv> 10000"

definition from_secs :: "nat \<Rightarrow> nat" where "from_secs s = s * 10 ^ 9"
definition from_millis :: "nat \<Rightarrow> nat" where "from_millis s = s * 10 ^ 6"

definition DEFAULT_DEADLINE :: nat where "DEFAULT_DEADLINE = from_secs 10"
definition HARD_MAX_DEADLINE :: nat where "HARD_MAX_DEADLINE = from_secs 600"

record grpc_file =
  file_descriptor :: string
  file_allow :: "string list"
  file_max_message_bytes :: "string option"
  file_reflection :: "bool option"
  file_deadline :: "string option"
  file_require_deadline :: "bool option"

record 'pool grpc_policy =
  pool :: 'pool
  allow :: "string list"
  max_message_bytes :: nat
  reflection :: bool
  deadline :: nat
  require_deadline :: bool

datatype grpc_failure = ParseError | Method string

datatype grpc_verdict = Skip | Allow "string option" | Deny grpc_failure

datatype grpc_error =
    EmptyDescriptor | InvalidDescriptor | TooManyMethods | InvalidEntry string | UnknownMethod string
  | BadSize size_error | SizeAboveCeiling | EmptyDeadline | InvalidDeadline | DeadlineAboveCeiling

section \<open>Names\<close>

definition normalize_rpc :: "string \<Rightarrow> string option" where
  "normalize_rpc raw =
     (let trimmed = trim raw
      in if trimmed = [] then None
         else (case rsplit_once slash (dropWhile (\<lambda>c. c = slash) trimmed) of
                 None \<Rightarrow> None
               | Some (service, mth) \<Rightarrow>
                   if service = [] \<or> mth = [] then None
                   else if slash \<in> set service \<or> slash \<in> set mth then None
                   else if \<not> list_all (\<lambda>c. is_ascii_alphanumeric c \<or> c = CHR ''_'' \<or> c = CHR ''.'') service \<or>
                           \<not> list_all (\<lambda>c. is_ascii_alphanumeric c \<or> c = CHR ''_'') mth then None
                   else Some (service @ slash # mth)))"

abbreviation split_rpc :: "string \<Rightarrow> (string \<times> string) option" where
  "split_rpc rpc \<equiv> rsplit_once slash rpc"

definition is_reflection :: "string \<Rightarrow> bool" where
  "is_reflection rpc \<longleftrightarrow>
     rpc = ''grpc.reflection.v1.ServerReflection/ServerReflectionInfo'' \<or>
     rpc = ''grpc.reflection.v1alpha.ServerReflection/ServerReflectionInfo''"

definition rpc_from_path :: "string \<Rightarrow> string" where
  "rpc_from_path path =
     (let path = first_piece CHR ''?'' path;
          path = unwrap_or (canonical_route_path path) path
      in unwrap_or (normalize_rpc path) (dropWhile (\<lambda>c. c = slash) path))"

definition method_by_name :: "(string \<times> 'msg) list \<Rightarrow> string \<Rightarrow> 'msg option" where
  "method_by_name methods mth = map_option snd (find (\<lambda>item. fst item = mth) methods)"

definition input_descriptor ::
    "('pool \<Rightarrow> string \<Rightarrow> (string \<times> 'msg) list option) \<Rightarrow> 'pool \<Rightarrow> string \<Rightarrow> string \<Rightarrow> 'msg option" where
  "input_descriptor services pl service mth =
     (case services pl service of None \<Rightarrow> None | Some methods \<Rightarrow> method_by_name methods mth)"

definition is_grpc_content_type :: "string option \<Rightarrow> bool" where
  "is_grpc_content_type ct =
     (case ct of
        None \<Rightarrow> False
      | Some c \<Rightarrow> starts_with (to_ascii_lowercase (trim (first_piece CHR '';'' c))) ''application/grpc'')"

section \<open>Deadlines\<close>

definition parse_deadline :: "string \<Rightarrow> (grpc_error, nat) result" where
  "parse_deadline raw =
     (let trimmed = trim raw
      in if trimmed = [] then Err EmptyDeadline
         else
           let lower = to_ascii_lowercase trimmed;
               (number, unit_ms) =
                 (case strip_suffix lower ''ms'' of
                    Some number \<Rightarrow> (trim number, 1)
                  | None \<Rightarrow>
                    (case strip_suffix lower ''s'' of
                       Some number \<Rightarrow> (trim number, 1000)
                     | None \<Rightarrow>
                       (case strip_suffix lower ''m'' of
                          Some number \<Rightarrow> (trim number, 60000)
                        | None \<Rightarrow> (trimmed, 1000))))
           in case parse_uint u64_max number of
                None \<Rightarrow> Err InvalidDeadline
              | Some value \<Rightarrow>
                  (case checked_mul u64_max value unit_ms of
                     None \<Rightarrow> Err InvalidDeadline
                   | Some millis \<Rightarrow>
                       if millis = 0 then Err InvalidDeadline
                       else if HARD_MAX_DEADLINE < from_millis millis then Err DeadlineAboveCeiling
                       else Ok (from_millis millis)))"

text \<open>
  The header value has passed \<open>HeaderValue::to_str\<close>, which accepts visible ASCII only, so the
  cut before its last byte is a character boundary.
\<close>

definition parse_grpc_timeout :: "string \<Rightarrow> nat option" where
  "parse_grpc_timeout raw0 =
     (let raw = trim raw0
      in if length raw < 2 \<or> 9 < length raw then None
         else
           let digits = butlast raw; unit = last raw
           in if digits = [] \<or> \<not> list_all is_ascii_digit digits then None
              else (case parse_uint u64_max digits of
                      None \<Rightarrow> None
                    | Some value \<Rightarrow>
                        if unit = CHR ''H'' then map_option from_secs (checked_mul u64_max value 3600)
                        else if unit = CHR ''M'' then map_option from_secs (checked_mul u64_max value 60)
                        else if unit = CHR ''S'' then Some (from_secs value)
                        else if unit = CHR ''m'' then Some (from_millis value)
                        else if unit = CHR ''u'' then Some (value * 1000)
                        else if unit = CHR ''n'' then Some value
                        else None))"

definition encode_grpc_timeout :: "nat \<Rightarrow> string" where
  "encode_grpc_timeout dl =
     (let millis = dl div 10 ^ 6
      in if millis mod 1000 = 0 then nat_to_string (min (millis div 1000) 99999999) @ ''S''
         else nat_to_string (min millis 99999999) @ ''m'')"

definition timeout_verdict :: "string \<Rightarrow> string option \<Rightarrow> 'pool grpc_policy \<Rightarrow> grpc_verdict" where
  "timeout_verdict rpc grpc_timeout inner =
     (case opt_filter (\<lambda>v. v \<noteq> []) (map_option trim grpc_timeout) of
        None \<Rightarrow>
          if require_deadline inner then Deny (Method rpc)
          else Allow (Some (encode_grpc_timeout (deadline inner)))
      | Some raw \<Rightarrow>
          (case parse_grpc_timeout raw of
             None \<Rightarrow> Deny (Method rpc)
           | Some got \<Rightarrow>
               if deadline inner < got then Allow (Some (encode_grpc_timeout (deadline inner)))
               else Allow None))"

section \<open>Policy\<close>

text \<open>One entry of the allow list, and the loop over them.\<close>

definition allow_entry ::
    "('pool \<Rightarrow> string \<Rightarrow> (string \<times> 'msg) list option) \<Rightarrow> 'pool \<Rightarrow> string \<Rightarrow> (grpc_error, string) result" where
  "allow_entry services pl raw =
     (case normalize_rpc raw of
        None \<Rightarrow> Err (InvalidEntry raw)
      | Some rpc \<Rightarrow>
          if is_reflection rpc then Ok rpc
          else (case split_rpc rpc of
                  None \<Rightarrow> Err (InvalidEntry raw)
                | Some (service, mth) \<Rightarrow>
                    (case services pl service of
                       None \<Rightarrow> Err (UnknownMethod rpc)
                     | Some methods \<Rightarrow>
                         if method_by_name methods mth = None then Err (UnknownMethod rpc) else Ok rpc)))"

primrec allow_loop ::
    "('pool \<Rightarrow> string \<Rightarrow> (string \<times> 'msg) list option) \<Rightarrow> 'pool \<Rightarrow> string list \<Rightarrow> string list \<Rightarrow>
     (grpc_error, string list) result" where
  "allow_loop services pl acc [] = Ok acc"
| "allow_loop services pl acc (raw # raws) =
     result_bind (allow_entry services pl raw) (\<lambda>rpc. allow_loop services pl (List.insert rpc acc) raws)"

definition message_limit :: "string option \<Rightarrow> (grpc_error, nat) result" where
  "message_limit v =
     (case v of
        None \<Rightarrow> Ok DEFAULT_MAX_MESSAGE
      | Some raw \<Rightarrow>
          (case parse_byte_size raw of
             Err e \<Rightarrow> Err (BadSize e)
           | Ok n \<Rightarrow> if HARD_MAX_MESSAGE < n then Err SizeAboveCeiling else Ok n))"

definition grpc_from_bytes ::
    "(bytes \<Rightarrow> 'pool option) \<Rightarrow> ('pool \<Rightarrow> string \<Rightarrow> (string \<times> 'msg) list option) \<Rightarrow> bytes \<Rightarrow> grpc_file \<Rightarrow>
     (grpc_error, 'pool grpc_policy) result" where
  "grpc_from_bytes pool_decode services bs file =
     (if bs = [] then Err EmptyDescriptor
      else (case pool_decode bs of
              None \<Rightarrow> Err InvalidDescriptor
            | Some pl \<Rightarrow>
                if HARD_MAX_ALLOW < length (file_allow file) then Err TooManyMethods
                else
                  result_bind (allow_loop services pl [] (file_allow file)) (\<lambda>al.
                  result_bind (message_limit (file_max_message_bytes file)) (\<lambda>mx.
                  result_bind (case file_deadline file of Some raw \<Rightarrow> parse_deadline raw | None \<Rightarrow> Ok DEFAULT_DEADLINE)
                    (\<lambda>dl.
                      Ok \<lparr>pool = pl, allow = al, max_message_bytes = mx,
                          reflection = unwrap_or (file_reflection file) False, deadline = dl,
                          require_deadline = unwrap_or (file_require_deadline file) False\<rparr>)))))"

definition check_headers ::
    "'pool grpc_policy \<Rightarrow> string \<Rightarrow> string \<Rightarrow> string option \<Rightarrow> string option \<Rightarrow> grpc_verdict" where
  "check_headers p mth path ct grpc_timeout =
     (if \<not> is_grpc_content_type ct then Skip
      else
        let rpc = rpc_from_path path
        in if \<not> eq_ignore_ascii_case mth ''POST'' then Deny (Method rpc)
           else if is_reflection rpc then
             (if \<not> reflection p then Deny (Method rpc) else timeout_verdict rpc grpc_timeout p)
           else if rpc \<notin> set (allow p) then Deny (Method rpc)
           else timeout_verdict rpc grpc_timeout p)"

section \<open>Frames\<close>

datatype frame_fail = FrameParse | FrameSize

text \<open>One turn of the frame loop: the payload and the rest of the body.\<close>

definition frame_step :: "nat \<Rightarrow> bytes \<Rightarrow> (frame_fail, bytes \<times> bytes) result" where
  "frame_step mx body =
     (if length body < 5 then Err FrameParse
      else
        let compressed = body ! 0;
            claimed = unat (be_join [body ! 1, body ! 2, body ! 3, body ! 4] :: u32)
        in if mx < claimed then Err FrameSize
           else if compressed \<noteq> 0 then Err FrameParse
           else
             let rest = drop 5 body
             in if length rest < claimed then Err FrameParse
                else Ok (take claimed rest, drop claimed rest))"

lemma frame_step_shorter: "frame_step mx body = Ok (f, rest) \<Longrightarrow> length rest < length body"
  by (auto simp: frame_step_def Let_def split: if_splits)

function iter_frames :: "nat \<Rightarrow> bytes \<Rightarrow> (frame_fail, bytes list) result" where
  "iter_frames mx body =
     (if body = [] then Ok []
      else (case frame_step mx body of
              Err e \<Rightarrow> Err e
            | Ok (frame, rest) \<Rightarrow>
                (case iter_frames mx rest of Err e \<Rightarrow> Err e | Ok frames \<Rightarrow> Ok (frame # frames))))"
  by pat_completeness auto
termination
  by (relation "measure (\<lambda>(mx, body). length body)") (auto dest: frame_step_shorter)

declare iter_frames.simps [simp del]

definition check_body ::
    "('pool \<Rightarrow> string \<Rightarrow> (string \<times> 'msg) list option) \<Rightarrow> ('msg \<Rightarrow> bytes \<Rightarrow> bool) \<Rightarrow>
     'pool grpc_policy \<Rightarrow> string \<Rightarrow> string \<Rightarrow> string option \<Rightarrow> bytes \<Rightarrow> grpc_verdict" where
  "check_body services message_ok p mth path ct body =
     (if \<not> is_grpc_content_type ct then Skip
      else if \<not> eq_ignore_ascii_case mth ''POST'' then Deny (Method (rpc_from_path path))
      else
        let rpc = rpc_from_path path
        in case iter_frames (max_message_bytes p) body of
             Err FrameSize \<Rightarrow> Deny (Method rpc)
           | Err FrameParse \<Rightarrow> Deny ParseError
           | Ok frames \<Rightarrow>
               if is_reflection rpc then
                 (if \<not> reflection p then Deny (Method rpc) else Allow None)
               else if rpc \<notin> set (allow p) then Deny (Method rpc)
               else (case split_rpc rpc of
                       None \<Rightarrow> Deny ParseError
                     | Some (service, method_name) \<Rightarrow>
                         (case input_descriptor services (pool p) service method_name of
                            None \<Rightarrow> Deny ParseError
                          | Some input \<Rightarrow>
                              if \<not> list_all (message_ok input) frames then Deny ParseError
                              else Allow None)))"

section \<open>Frames as a self-delimiting encoding\<close>

definition u32_to_be_bytes :: "u32 \<Rightarrow> bytes" where
  "u32_to_be_bytes w = ipv4_octets w"

definition frame_enc :: "bytes \<Rightarrow> bytes" where
  "frame_enc payload = 0 # u32_to_be_bytes (of_nat (length payload)) @ payload"

definition frame_dec :: "nat \<Rightarrow> bytes \<Rightarrow> (bytes \<times> nat) option" where
  "frame_dec mx body =
     (case frame_step mx body of Ok (f, rest) \<Rightarrow> Some (f, length body - length rest) | Err e \<Rightarrow> None)"

lemma frame_step_enc:
  assumes "length payload \<le> mx" and "mx < 2 ^ 32"
  shows "frame_step mx (frame_enc payload @ rest) = Ok (payload, rest)"
proof -
  have "unat (of_nat (length payload) :: u32) = length payload"
    using assms by (simp add: unsigned_of_nat take_bit_nat_eq_self)
  moreover obtain a b c d where w: "ipv4_octets (of_nat (length payload)) = [a, b, c, d]"
    by (simp add: ipv4_octets_def)
  moreover have "be_join [a, b, c, d] = (of_nat (length payload) :: u32)"
    using be_join_ipv4 [of "of_nat (length payload)"] by (simp add: w)
  ultimately show ?thesis
    using assms by (simp add: frame_step_def frame_enc_def u32_to_be_bytes_def)
qed

lemma frame_step_Ok:
  assumes "frame_step mx body = Ok (f, rest)"
  shows "body = frame_enc f @ rest \<and> length f \<le> mx"
proof -
  from assms have len: "5 \<le> length body" by (auto simp: frame_step_def split: if_splits)
  then obtain z a b c d r where body: "body = z # a # b # c # d # r"
    by (auto simp: numeral_eq_Suc Suc_le_length_iff)
  let ?n = "unat (be_join [a, b, c, d] :: u32)"
  from assms body have f: "z = 0" "?n \<le> mx" "?n \<le> length r" "f = take ?n r" "rest = drop ?n r"
    by (auto simp: frame_step_def Let_def split: if_splits)
  then have "length f = ?n" by simp
  then have "ipv4_octets (of_nat (length f)) = ipv4_octets (be_join [a, b, c, d] :: u32)" by simp
  also have "\<dots> = [a, b, c, d]" by (rule ipv4_octets_be_join)
  finally have "frame_enc f @ rest = body"
    using f body by (simp add: frame_enc_def u32_to_be_bytes_def)
  with f \<open>length f = ?n\<close> show ?thesis by simp
qed

interpretation frame: framed "\<lambda>p. length p \<le> mx \<and> mx < 2 ^ 32" frame_enc "frame_dec mx"
  by unfold_locales (simp add: frame_dec_def frame_step_enc)

lemma iter_frames_enc:
  "mx < 2 ^ 32 \<Longrightarrow> \<forall>f \<in> set fs. length f \<le> mx \<Longrightarrow> iter_frames mx (concat (map frame_enc fs)) = Ok fs"
proof (induction fs)
  case Nil
  then show ?case by (simp add: iter_frames.simps)
next
  case (Cons f fs)
  then show ?case
    by (subst iter_frames.simps) (simp add: frame_step_enc, simp add: frame_enc_def)
qed

lemma iter_frames_Ok:
  "iter_frames mx body = Ok fs \<Longrightarrow> body = concat (map frame_enc fs) \<and> (\<forall>f \<in> set fs. length f \<le> mx)"
proof (induction mx body arbitrary: fs rule: iter_frames.induct)
  case (1 mx body)
  show ?case
  proof (cases "body = []")
    case True
    with 1(2) show ?thesis by (simp add: iter_frames.simps)
  next
    case False
    with 1(2) obtain f rest fs' where *: "frame_step mx body = Ok (f, rest)"
      "iter_frames mx rest = Ok fs'" "fs = f # fs'"
      by (auto simp: iter_frames.simps [of mx body] split: sum.splits)
    from 1(1) [OF False *(1) refl *(2)] frame_step_Ok [OF *(1)] *(3) show ?thesis by simp
  qed
qed

section \<open>Deadline facts\<close>

text \<open>A configured deadline is a whole number of milliseconds below the ceiling.\<close>

definition deadline_ok :: "nat \<Rightarrow> bool" where
  "deadline_ok dl \<longleftrightarrow> 0 < dl \<and> dl \<le> HARD_MAX_DEADLINE \<and> 10 ^ 6 dvd dl"

lemma parse_deadline_ok: "parse_deadline raw = Ok dl \<Longrightarrow> deadline_ok dl"
  by (auto simp: parse_deadline_def deadline_ok_def Let_def from_millis_def
      split: if_splits option.splits prod.splits)

lemma default_deadline_ok: "deadline_ok DEFAULT_DEADLINE"
  by (simp add: deadline_ok_def DEFAULT_DEADLINE_def HARD_MAX_DEADLINE_def from_secs_def)

lemma parse_timeout_digits:
  assumes "n < 10 ^ 8" and "u \<in> {CHR ''S'', CHR ''m''}"
  shows "parse_grpc_timeout (nat_to_string n @ [u]) =
    (if u = CHR ''S'' then Some (from_secs n) else Some (from_millis n))"
proof -
  let ?d = "nat_to_string n"
  have ne: "?d \<noteq> []" by simp
  have digits: "list_all is_ascii_digit ?d"
    using nat_to_string_digits by (simp add: list_all_iff)
  then have "is_ascii_digit (hd ?d)" using ne by (cases ?d) (simp_all del: nat_to_string.simps)
  then have tr: "trim (?d @ [u]) = ?d @ [u]"
    using assms(2) ne by (intro trim_visible) (auto simp: visible_ascii_def is_ascii_digit_def simp del: nat_to_string.simps)
  have len: "length ?d \<le> 8" "1 \<le> length ?d"
    using assms(1) ne by (auto intro!: nat_to_string_length simp: Suc_le_eq simp del: nat_to_string.simps)
  have "parse_uint u64_max ?d = Some n"
    using assms(1) by (intro parse_nat_to_string) simp
  with digits ne tr len assms(2) show ?thesis
    by (auto simp: parse_grpc_timeout_def Let_def simp del: nat_to_string.simps)
qed

lemma parse_encode_timeout:
  assumes "deadline_ok dl"
  shows "parse_grpc_timeout (encode_grpc_timeout dl) = Some dl"
proof -
  obtain ms where dl: "dl = ms * 10 ^ 6"
    using assms by (auto simp: deadline_ok_def elim!: dvdE)
  have le: "ms \<le> 600000"
    using assms by (simp add: dl deadline_ok_def HARD_MAX_DEADLINE_def from_secs_def)
  show ?thesis
  proof (cases "ms mod 1000 = 0")
    case True
    then obtain s where s: "ms = s * 1000" by (metis mod_eq_0_iff_dvd dvd_def mult.commute)
    then have "encode_grpc_timeout dl = nat_to_string s @ ''S''"
      using le by (simp add: encode_grpc_timeout_def dl del: nat_to_string.simps)
    then show ?thesis using parse_timeout_digits [of s "CHR ''S''"] s le
      by (simp add: dl from_secs_def del: nat_to_string.simps)
  next
    case False
    then have "encode_grpc_timeout dl = nat_to_string ms @ ''m''"
      using le by (simp add: encode_grpc_timeout_def dl del: nat_to_string.simps)
    then show ?thesis using parse_timeout_digits [of ms "CHR ''m''"] le
      by (simp add: dl from_millis_def del: nat_to_string.simps)
  qed
qed

section \<open>Policy facts\<close>

text \<open>An RPC name that the descriptor knows.\<close>

definition rpc_known ::
    "('pool \<Rightarrow> string \<Rightarrow> (string \<times> 'msg) list option) \<Rightarrow> 'pool \<Rightarrow> string \<Rightarrow> bool" where
  "rpc_known services pl rpc \<longleftrightarrow>
     (\<exists>service mth. split_rpc rpc = Some (service, mth) \<and> input_descriptor services pl service mth \<noteq> None)"

lemma allow_entry_known: "allow_entry services pl raw = Ok rpc \<Longrightarrow> is_reflection rpc \<or> rpc_known services pl rpc"
  unfolding allow_entry_def rpc_known_def input_descriptor_def
  by (cases "normalize_rpc raw"; cases "split_rpc rpc") (auto split: option.split_asm if_split_asm)

lemma allow_loop_known:
  assumes "allow_loop services pl acc raws = Ok al"
    and "\<forall>r \<in> set acc. is_reflection r \<or> rpc_known services pl r"
  shows "\<forall>r \<in> set al. is_reflection r \<or> rpc_known services pl r"
  using assms
proof (induction raws arbitrary: acc)
  case (Cons raw raws)
  from Cons.prems(1) obtain rpc where rpc: "allow_entry services pl raw = Ok rpc"
    and rest: "allow_loop services pl (List.insert rpc acc) raws = Ok al" by auto
  have "\<forall>r \<in> set (List.insert rpc acc). is_reflection r \<or> rpc_known services pl r"
    using allow_entry_known [OF rpc] Cons.prems(2) by simp
  with Cons.IH [OF rest] show ?case by blast
qed simp

lemma from_bytes_wf:
  assumes "grpc_from_bytes pool_decode services bs file = Ok p"
  shows "(\<forall>r \<in> set (allow p). is_reflection r \<or> rpc_known services (pool p) r) \<and>
    max_message_bytes p \<le> HARD_MAX_MESSAGE \<and> deadline_ok (deadline p)"
proof -
  from assms obtain pl al mx dl where
    "allow_loop services pl [] (file_allow file) = Ok al"
    "message_limit (file_max_message_bytes file) = Ok mx"
    "(case file_deadline file of Some raw \<Rightarrow> parse_deadline raw | None \<Rightarrow> Ok DEFAULT_DEADLINE) = Ok dl"
    and p: "pool p = pl" "allow p = al" "max_message_bytes p = mx" "deadline p = dl"
    by (auto simp: grpc_from_bytes_def split: if_splits option.splits)
  moreover from this have "mx \<le> HARD_MAX_MESSAGE"
    by (auto simp: message_limit_def split: option.splits sum.splits if_splits)
  moreover have "deadline_ok dl"
    using calculation by (auto split: option.splits simp: default_deadline_ok dest: parse_deadline_ok)
  ultimately show ?thesis using allow_loop_known [of services pl "[]" "file_allow file" al] by simp
qed

text \<open>The RPCs that a policy lets through.\<close>

definition rpc_admitted :: "'pool grpc_policy \<Rightarrow> string \<Rightarrow> bool" where
  "rpc_admitted p rpc \<longleftrightarrow> (if is_reflection rpc then reflection p else rpc \<in> set (allow p))"

lemma timeout_verdict_not_Skip [simp]: "timeout_verdict rpc t p \<noteq> Skip"
  by (simp add: timeout_verdict_def split: option.splits)

lemma timeout_verdict_Allow:
  assumes "timeout_verdict rpc header p = Allow t" and "deadline_ok (deadline p)"
  shows "(case t of
      Some sent \<Rightarrow> parse_grpc_timeout sent = Some (deadline p)
    | None \<Rightarrow> \<exists>raw d. header = Some raw \<and> parse_grpc_timeout (trim raw) = Some d \<and> d \<le> deadline p)"
  using assms parse_encode_timeout [OF assms(2)]
  by (auto simp: timeout_verdict_def split: option.splits if_splits)

section \<open>Properties\<close>

text \<open>C24. The frame walk accepts exactly the bodies that are a sequence of uncompressed
  length-prefixed messages, none above the limit, and returns these messages: no byte of
  the body escapes the inspection and no message is cut or merged.\<close>

theorem iter_frames_exact:
  assumes "mx < 2 ^ 32"
  shows "iter_frames mx body = Ok fs \<longleftrightarrow>
    body = concat (map frame_enc fs) \<and> (\<forall>f \<in> set fs. length f \<le> mx)"
  using iter_frames_enc [OF assms] iter_frames_Ok by blast

theorem iter_frames_exact_witness:
  "iter_frames 4 [0, 0, 0, 0, 2, 7, 9, 0, 0, 0, 0, 0] = Ok [[7, 9], []]"
proof -
  have "[0, 0, 0, 0, 2, 7, 9, 0, 0, 0, 0, 0] = concat (map frame_enc [[7, 9], []])" by code_simp
  then show ?thesis by (subst iter_frames_exact) simp_all
qed

text \<open>A gRPC request passes the header check exactly when it is a POST whose RPC is on the
  allow list, or is the reflection service with reflection switched on, and its timeout
  header is acceptable; everything else that carries a gRPC content type is denied.\<close>

theorem check_headers_admits_iff:
  assumes "is_grpc_content_type ct"
  shows "((\<exists>t. check_headers p mth path ct header = Allow t) \<longleftrightarrow>
      eq_ignore_ascii_case mth ''POST'' \<and> rpc_admitted p (rpc_from_path path) \<and>
      (case opt_filter (\<lambda>v. v \<noteq> []) (map_option trim header) of
         None \<Rightarrow> \<not> require_deadline p
       | Some raw \<Rightarrow> parse_grpc_timeout raw \<noteq> None)) \<and>
    check_headers p mth path ct header \<noteq> Skip"
  using assms
  by (auto simp: check_headers_def rpc_admitted_def timeout_verdict_def Let_def split: option.splits)

definition sample_policy :: "unit grpc_policy" where
  "sample_policy = \<lparr>pool = (), allow = [''pkg.Service/Allowed''], max_message_bytes = 64,
     reflection = False, deadline = 10 ^ 10, require_deadline = False\<rparr>"

theorem check_headers_admits_iff_witness:
  "(\<exists>t. check_headers sample_policy ''POST'' ''/pkg.Service/Allowed'' (Some ''application/grpc'') None = Allow t) \<and>
   \<not> (\<exists>t. check_headers sample_policy ''POST'' ''/pkg.Service/Other'' (Some ''application/grpc'') None = Allow t)"
proof -
  have ct: "is_grpc_content_type (Some ''application/grpc'')" by code_simp
  have "rpc_from_path ''/pkg.Service/Allowed'' = ''pkg.Service/Allowed''"
    and "rpc_from_path ''/pkg.Service/Other'' = ''pkg.Service/Other''" by code_simp+
  then have "rpc_admitted sample_policy (rpc_from_path ''/pkg.Service/Allowed'')"
    and "\<not> rpc_admitted sample_policy (rpc_from_path ''/pkg.Service/Other'')"
    by (simp_all add: rpc_admitted_def is_reflection_def sample_policy_def)
  moreover have "\<not> require_deadline sample_policy" by (simp add: sample_policy_def)
  ultimately show ?thesis by (simp add: check_headers_admits_iff [OF ct, THEN conjunct1])
qed

text \<open>No admitted call reaches the backend with a longer timeout than the configured
  deadline: either the header sent on is the deadline itself, or the client's own value is
  kept and is at most the deadline.\<close>

theorem forwarded_timeout_bounded:
  assumes "grpc_from_bytes pool_decode services bs file = Ok p"
    and "check_headers p mth path ct header = Allow t"
  shows "case t of
      Some sent \<Rightarrow> parse_grpc_timeout sent = Some (deadline p)
    | None \<Rightarrow> \<exists>raw d. header = Some raw \<and> parse_grpc_timeout (trim raw) = Some d \<and> d \<le> deadline p"
proof -
  have "timeout_verdict (rpc_from_path path) header p = Allow t"
    using assms(2) by (auto simp: check_headers_def Let_def split: if_splits)
  with from_bytes_wf [OF assms(1)] show ?thesis by (intro timeout_verdict_Allow) simp_all
qed

definition sample_services :: "unit \<Rightarrow> string \<Rightarrow> (string \<times> unit) list option" where
  "sample_services pl service = (if service = ''pkg.Service'' then Some [(''Allowed'', ())] else None)"

definition sample_file :: grpc_file where
  "sample_file = \<lparr>file_descriptor = ''hello.pb'', file_allow = [''pkg.Service/Allowed''],
     file_max_message_bytes = None, file_reflection = None, file_deadline = None, file_require_deadline = None\<rparr>"

lemma sample_from_bytes:
  "grpc_from_bytes (\<lambda>_. Some ()) sample_services [1] sample_file =
     Ok \<lparr>pool = (), allow = [''pkg.Service/Allowed''], max_message_bytes = 65536,
         reflection = False, deadline = DEFAULT_DEADLINE, require_deadline = False\<rparr>"
proof -
  have "allow_entry sample_services () ''pkg.Service/Allowed'' = Ok ''pkg.Service/Allowed''" by code_simp
  then show ?thesis by (simp add: grpc_from_bytes_def sample_file_def message_limit_def)
qed

theorem forwarded_timeout_bounded_witness:
  "parse_grpc_timeout (encode_grpc_timeout DEFAULT_DEADLINE) = Some DEFAULT_DEADLINE"
proof -
  let ?p = "\<lparr>pool = (), allow = [''pkg.Service/Allowed''], max_message_bytes = 65536,
         reflection = False, deadline = DEFAULT_DEADLINE, require_deadline = False\<rparr>"
  have ct: "is_grpc_content_type (Some ''application/grpc'')" by code_simp
  have "rpc_from_path ''/pkg.Service/Allowed'' = ''pkg.Service/Allowed''"
    and "\<not> is_reflection ''pkg.Service/Allowed''" by code_simp+
  then have "check_headers ?p ''POST'' ''/pkg.Service/Allowed'' (Some ''application/grpc'') None =
      Allow (Some (encode_grpc_timeout DEFAULT_DEADLINE))"
    using ct by (simp add: check_headers_def timeout_verdict_def)
  from forwarded_timeout_bounded [OF sample_from_bytes this] show ?thesis by simp
qed

text \<open>A body is admitted exactly when the call is a POST to an admitted RPC and the body is
  a sequence of bounded messages that, outside reflection, all decode as the input type of
  the method. With a policy that loaded, an allowed method always has an input type, so an
  allowed call is never refused for a descriptor that is missing.\<close>

theorem check_body_admits_iff:
  assumes "grpc_from_bytes pool_decode services bs file = Ok p" and "is_grpc_content_type ct"
  shows "(check_body services message_ok p mth path ct body = Allow None \<longleftrightarrow>
    eq_ignore_ascii_case mth ''POST'' \<and> rpc_admitted p (rpc_from_path path) \<and>
    (\<exists>fs. iter_frames (max_message_bytes p) body = Ok fs \<and>
       (is_reflection (rpc_from_path path) \<or>
        (\<exists>service name input. split_rpc (rpc_from_path path) = Some (service, name) \<and>
           input_descriptor services (pool p) service name = Some input \<and>
           (\<forall>f \<in> set fs. message_ok input f))))) \<and>
    (rpc_admitted p (rpc_from_path path) \<longrightarrow>
       is_reflection (rpc_from_path path) \<or> rpc_known services (pool p) (rpc_from_path path))"
proof (intro conjI)
  show "check_body services message_ok p mth path ct body = Allow None \<longleftrightarrow>
    eq_ignore_ascii_case mth ''POST'' \<and> rpc_admitted p (rpc_from_path path) \<and>
    (\<exists>fs. iter_frames (max_message_bytes p) body = Ok fs \<and>
       (is_reflection (rpc_from_path path) \<or>
        (\<exists>service name input. split_rpc (rpc_from_path path) = Some (service, name) \<and>
           input_descriptor services (pool p) service name = Some input \<and>
           (\<forall>f \<in> set fs. message_ok input f))))"
    using assms(2) by (auto simp: check_body_def rpc_admitted_def Let_def list_all_iff
        split: sum.splits frame_fail.splits option.splits)
  show "rpc_admitted p (rpc_from_path path) \<longrightarrow>
       is_reflection (rpc_from_path path) \<or> rpc_known services (pool p) (rpc_from_path path)"
    using from_bytes_wf [OF assms(1)] by (auto simp: rpc_admitted_def)
qed

theorem check_body_admits_iff_witness:
  "check_body sample_services (\<lambda>_ b. b \<noteq> [])
     \<lparr>pool = (), allow = [''pkg.Service/Allowed''], max_message_bytes = 65536,
      reflection = False, deadline = DEFAULT_DEADLINE, require_deadline = False\<rparr>
     ''POST'' ''/pkg.Service/Allowed'' (Some ''application/grpc'') (frame_enc [7]) = Allow None"
proof -
  have ct: "is_grpc_content_type (Some ''application/grpc'')" by code_simp
  have rpc: "rpc_from_path ''/pkg.Service/Allowed'' = ''pkg.Service/Allowed''"
    and "\<not> is_reflection ''pkg.Service/Allowed''"
    and "split_rpc ''pkg.Service/Allowed'' = Some (''pkg.Service'', ''Allowed'')"
    and "input_descriptor sample_services () ''pkg.Service'' ''Allowed'' = Some ()" by code_simp+
  moreover have "iter_frames 65536 (frame_enc [7]) = Ok [[7]]"
    using iter_frames_enc [of 65536 "[[7]]"] by simp
  ultimately show ?thesis
    by (subst check_body_admits_iff [OF sample_from_bytes ct, THEN conjunct1]) (simp add: rpc_admitted_def)
qed

end
