(* ===== verification/Waf_Decode.thy ===== *)
theory Waf_Decode
  imports Rust_Utf8
begin

text \<open>
  Percent decoding before inspection, \<open>urldecode\<close>, \<open>recursive_urldecode\<close> and \<open>decode_uri\<close> of
  \<open>src/src/waf.rs\<close>. The lemmas say what the repeated passes undo, and what they do to text
  that is not ASCII: every byte above 0x7F is pushed as a character of its own and so becomes
  two bytes.
\<close>

abbreviation MAX_DECODE_PASSES :: nat where "MAX_DECODE_PASSES \<equiv> 8"

text \<open>The escape after a percent sign: its output and the text behind it, if it is one.\<close>

definition unicode_escape :: "string \<Rightarrow> (string \<times> string) option" where
  "unicode_escape r =
     (if 5 \<le> length r \<and> (hd r = CHR ''u'' \<or> hd r = CHR ''U'') then
        (let hex = take 4 (drop 1 r)
         in if utf8_valid hex then
              (case from_str_radix 16 u32_max hex of
                 None \<Rightarrow> None
               | Some cp \<Rightarrow> map_option (\<lambda>ch. (encode_utf8 ch, drop 5 r)) (char_from_u32 cp))
            else None)
      else None)"

definition byte_escape :: "string \<Rightarrow> (string \<times> string) option" where
  "byte_escape r =
     (if 2 \<le> length r then
        (let hex = take 2 r
         in if utf8_valid hex then
              map_option (\<lambda>b. (encode_utf8 b, drop 2 r)) (from_str_radix 16 u8_max hex)
            else None)
      else None)"

definition escape :: "string \<Rightarrow> (string \<times> string) option" where
  "escape r = opt_or (unicode_escape r) (byte_escape r)"

lemma escape_shorter: "escape r = Some (out, rest) \<Longrightarrow> length rest < length r"
  by (auto simp: escape_def opt_or_def unicode_escape_def byte_escape_def Let_def
      split: option.splits if_splits)

function urldecode :: "string \<Rightarrow> string" where
  "urldecode [] = []"
| "urldecode (c # r) =
     (case (if c = CHR ''%'' then escape r else None) of
        Some (out, rest) \<Rightarrow> out @ urldecode rest
      | None \<Rightarrow> encode_utf8 (byte_of c) @ urldecode r)"
  by pat_completeness auto
termination
  by (relation "measure length") (auto dest: escape_shorter split: if_splits)

fun decode_loop :: "nat \<Rightarrow> string \<Rightarrow> string" where
  "decode_loop 0 current = current"
| "decode_loop (Suc n) current =
     (let decoded = urldecode current in if decoded = current then current else decode_loop n decoded)"

definition recursive_urldecode :: "string \<Rightarrow> string" where
  "recursive_urldecode input = decode_loop MAX_DECODE_PASSES input"

definition plus_to_space :: "string \<Rightarrow> string" where
  "plus_to_space s = map (\<lambda>c. if c = CHR ''+'' then CHR '' '' else c) s"

definition decode_uri :: "string \<Rightarrow> string" where
  "decode_uri uri =
     (case split_once CHR ''?'' uri of
        Some (path, query) \<Rightarrow> recursive_urldecode path @ CHR ''?'' # recursive_urldecode (plus_to_space query)
      | None \<Rightarrow> recursive_urldecode uri)"

section \<open>What the passes undo\<close>

text \<open>Full percent encoding of a text, the layer an attacker can add any number of times.\<close>

definition hex_digit :: "nat \<Rightarrow> char" where
  "hex_digit d = (if d < 10 then char_of (48 + d) else char_of (87 + d))"

definition pct_encode :: "string \<Rightarrow> string" where
  "pct_encode s = concat (map (\<lambda>c. [CHR ''%'', hex_digit (byte_of c div 16), hex_digit (byte_of c mod 16)]) s)"

lemma byte_of_hex_digit: "d < 16 \<Longrightarrow> byte_of (hex_digit d) = (if d < 10 then 48 + d else 87 + d)"
  by (simp add: hex_digit_def)

lemma to_digit_hex_digit: "d < 16 \<Longrightarrow> to_digit 16 (hex_digit d) = Some d"
  by (auto simp: to_digit_def byte_of_hex_digit Let_def)

lemma is_ascii_hex_digit: "d < 16 \<Longrightarrow> is_ascii (hex_digit d)"
  by (simp add: is_ascii_def byte_of_hex_digit)

lemma hex_digit_neq: "d < 16 \<Longrightarrow> byte_of c < 48 \<or> 57 < byte_of c \<and> byte_of c < 97 \<or> 102 < byte_of c \<Longrightarrow> hex_digit d \<noteq> c"
  using byte_of_hex_digit [of d] by (auto split: if_splits)

lemma byte_escape_encoded:
  assumes "is_ascii c"
  shows "escape (hex_digit (byte_of c div 16) # hex_digit (byte_of c mod 16) # r) = Some ([c], r)"
proof -
  let ?h = "byte_of c div 16" and ?l = "byte_of c mod 16"
  have b: "?h < 16" "?l < 16" "byte_of c < 128" using assms by (auto simp: is_ascii_def)
  have "from_str_radix 16 u8_max [hex_digit ?h, hex_digit ?l] = Some (byte_of c)"
    using b hex_digit_neq [of ?h "CHR ''+''"]
    by (simp add: from_str_radix_def to_digit_hex_digit Let_def)
  moreover have "utf8_valid [hex_digit ?h, hex_digit ?l]"
    using b by (simp add: is_ascii_hex_digit)
  ultimately have "byte_escape (hex_digit ?h # hex_digit ?l # r) = Some ([c], r)"
    using b by (simp add: byte_escape_def encode_utf8_ascii)
  moreover have "unicode_escape (hex_digit ?h # hex_digit ?l # r) = None"
    using hex_digit_neq [of ?h "CHR ''u''"] hex_digit_neq [of ?h "CHR ''U''"] b
    by (simp add: unicode_escape_def)
  ultimately show ?thesis by (simp add: escape_def)
qed

lemma urldecode_pct_encode: "\<forall>c \<in> set s. is_ascii c \<Longrightarrow> urldecode (pct_encode s) = s"
  by (induction s) (simp_all add: pct_encode_def byte_escape_encoded)

lemma pct_encode_ascii: "\<forall>c \<in> set (pct_encode s). is_ascii c"
proof -
  have "is_ascii CHR ''%''" by (simp add: is_ascii_def)
  moreover have "is_ascii (hex_digit (byte_of c div 16))" "is_ascii (hex_digit (byte_of c mod 16))" for c
    using byte_of_less [of c] by (auto intro!: is_ascii_hex_digit simp: less_mult_imp_div_less)
  ultimately show ?thesis by (auto simp: pct_encode_def)
qed

lemma length_pct_encode: "length (pct_encode s) = 3 * length s"
  by (induction s) (simp_all add: pct_encode_def)

lemma pct_layers_ascii: "\<forall>c \<in> set s. is_ascii c \<Longrightarrow> \<forall>c \<in> set ((pct_encode ^^ n) s). is_ascii c"
  using pct_encode_ascii by (cases n) auto

lemma urldecode_pct_layer:
  "\<forall>c \<in> set s. is_ascii c \<Longrightarrow> urldecode ((pct_encode ^^ Suc n) s) = (pct_encode ^^ n) s"
  using urldecode_pct_encode [OF pct_layers_ascii] by simp

lemma decode_loop_layers:
  assumes "\<forall>c \<in> set s. is_ascii c"
  shows "decode_loop (n + k) ((pct_encode ^^ n) s) = decode_loop k s"
proof (induction n)
  case (Suc n)
  let ?s = "(pct_encode ^^ Suc n) s"
  show ?case
  proof (cases "s = []")
    case True
    have e: "(pct_encode ^^ m) [] = []" for m by (induction m) (simp_all add: pct_encode_def)
    have "decode_loop m [] = []" for m by (induction m) simp_all
    with True show ?thesis by (simp only: e)
  next
    case False
    have "length ((pct_encode ^^ m) s) = 3 ^ m * length s" for m
      by (induction m) (simp_all add: length_pct_encode)
    from this [of "Suc n"] this [of n] False
    have "length ((pct_encode ^^ n) s) \<noteq> length ?s" by simp
    then have "(pct_encode ^^ n) s \<noteq> ?s" by metis
    with Suc urldecode_pct_layer [OF assms, of n] show ?thesis
      by (simp add: Let_def del: funpow.simps)
  qed
qed simp

lemma decode_loop_fixed: "urldecode s = s \<Longrightarrow> decode_loop n s = s"
  by (cases n) simp_all

lemma urldecode_plain: "\<forall>c \<in> set s. is_ascii c \<and> c \<noteq> CHR ''%'' \<Longrightarrow> urldecode s = s"
  by (induction s) (simp_all add: is_ascii_def encode_utf8_ascii)

section \<open>Text that is not ASCII\<close>

lemma urldecode_non_ascii:
  "\<forall>c \<in> set s. \<not> is_ascii c \<Longrightarrow>
     length (urldecode s) = 2 * length s \<and> (\<forall>c \<in> set (urldecode s). \<not> is_ascii c)"
proof (induction s)
  case (Cons c s)
  have "128 \<le> byte_of c" "byte_of c < 256"
    using Cons.prems by (simp_all add: is_ascii_def)
  from encode_utf8_latin1 [OF this] Cons show ?case by (auto simp: is_ascii_def)
qed simp

lemma decode_loop_non_ascii:
  assumes "\<forall>c \<in> set s. \<not> is_ascii c"
  shows "length (decode_loop n s) = 2 ^ n * length s"
  using assms
proof (induction n arbitrary: s)
  case (Suc n)
  note g = urldecode_non_ascii [OF Suc.prems]
  show ?case
  proof (cases "urldecode s = s")
    case True
    with g have "length s = 2 * length s" by simp
    with True show ?thesis by simp
  next
    case False
    with g Suc.IH [of "urldecode s"] show ?thesis by (simp add: Let_def)
  qed
qed simp

end
