(* ===== verification/Json_Value.thy ===== *)
theory Json_Value
  imports Prelude
begin

text \<open>
  A parsed JSON document, with the constructors of \<open>serde_json::Value\<close>. An object is the list
  of its members in iteration order. A number is kept as its text. The parser itself is a
  parameter wherever it is used.
\<close>

datatype json_value =
    Null
  | Bool bool
  | Number string
  | String string
  | Array "json_value list"
  | Object "(string \<times> json_value) list"

text \<open>\<open>Value::get\<close> with a string key and \<open>Value::as_str\<close>.\<close>

fun json_get :: "string \<Rightarrow> json_value \<Rightarrow> json_value option" where
  "json_get k (Object ms) = map_of ms k"
| "json_get k _ = None"

fun as_str :: "json_value \<Rightarrow> string option" where
  "as_str (String s) = Some s"
| "as_str _ = None"

text \<open>
  \<open>Value::as_i64\<close> and \<open>Value::as_u64\<close> of a number: the integers of that range, written without
  point or exponent. The parser reads \<open>-0\<close> as a float.
\<close>

definition as_i64 :: "string \<Rightarrow> int option" where
  "as_i64 n = (if n = ''-0'' then None else parse_i64 n)"

definition as_u64 :: "string \<Rightarrow> nat option" where
  "as_u64 n = parse_uint u64_max n"

lemma json_value_induct [case_names Null Bool Number String Array Object]:
  assumes "P Null" and "\<And>b. P (Bool b)" and "\<And>n. P (Number n)" and "\<And>s. P (String s)"
    and "\<And>vs. (\<And>v. v \<in> set vs \<Longrightarrow> P v) \<Longrightarrow> P (Array vs)"
    and "\<And>ms. (\<And>k v. (k, v) \<in> set ms \<Longrightarrow> P v) \<Longrightarrow> P (Object ms)"
  shows "P v"
proof (induction v)
  case (Object ms)
  have "P v" if "(k, v) \<in> set ms" for k v
    using Object [of "(k, v)" v] that by simp
  then show ?case by (rule assms(6))
qed (use assms in auto)

end
