(* ===== verification/Waf_Inspection.thy ===== *)
theory Waf_Inspection
  imports Waf_Decode Json_Value Protocol_Matrix "HOL-Library.Multiset"
begin

text \<open>
  The built-in WAF rules, \<open>src/src/waf.rs\<close>: inspection outcomes, the request line and header
  checks, the body checks and bounded inflation. The compiled regular expressions, the
  Unicode lowercase mapping, the JSON parser and the decompressor are parameters; a theorem
  that relies on one states what it relies on. Bodies and texts are lists of bytes. Block
  messages are replaced by the constructors of \<open>block_reason\<close>; logging and metrics are left
  out.
\<close>

section \<open>Profiles, outcomes, verdicts\<close>

datatype waf_profile = Generic | Wordpress | Strict

definition waf_profile_parse :: "string \<Rightarrow> waf_profile option" where
  "waf_profile_parse v =
     (let name = to_ascii_lowercase (trim v)
      in if name = ''generic'' then Some Generic
         else if name = ''wordpress'' then Some Wordpress
         else if name = ''strict'' then Some Strict
         else None)"

datatype inspection_outcome =
    Complete
  | Truncated nat "nat option"
  | UnsupportedEncoding
  | UnsupportedContentType
  | ParseError
  | BudgetExceeded
  | TimedOut

fun outcome_as_str :: "inspection_outcome \<Rightarrow> string" where
  "outcome_as_str Complete = ''complete''"
| "outcome_as_str (Truncated _ _) = ''truncated''"
| "outcome_as_str UnsupportedEncoding = ''unsupported_encoding''"
| "outcome_as_str UnsupportedContentType = ''unsupported_content_type''"
| "outcome_as_str ParseError = ''parse_error''"
| "outcome_as_str BudgetExceeded = ''budget_exceeded''"
| "outcome_as_str TimedOut = ''timed_out''"

fun outcome_event_type :: "inspection_outcome \<Rightarrow> string" where
  "outcome_event_type Complete = ''waf_inspection''"
| "outcome_event_type (Truncated _ _) = ''waf_incomplete''"
| "outcome_event_type UnsupportedEncoding = ''waf_incomplete''"
| "outcome_event_type UnsupportedContentType = ''waf_incomplete''"
| "outcome_event_type ParseError = ''inspection_parse_error''"
| "outcome_event_type BudgetExceeded = ''inspection_budget''"
| "outcome_event_type TimedOut = ''inspection_timeout''"

fun denied_status :: "inspection_outcome \<Rightarrow> nat" where
  "denied_status Complete = 200"
| "denied_status TimedOut = 408"
| "denied_status BudgetExceeded = 503"
| "denied_status _ = 403"

fun outcome_severity :: "inspection_outcome \<Rightarrow> nat" where
  "outcome_severity Complete = 0"
| "outcome_severity (Truncated _ _) = 1"
| "outcome_severity UnsupportedContentType = 2"
| "outcome_severity UnsupportedEncoding = 3"
| "outcome_severity ParseError = 4"
| "outcome_severity BudgetExceeded = 5"
| "outcome_severity TimedOut = 6"

fun combine_hint :: "nat option \<Rightarrow> nat option \<Rightarrow> nat option" where
  "combine_hint (Some a) (Some b) = Some (max a b)"
| "combine_hint a b = opt_or a b"

definition combine :: "inspection_outcome \<Rightarrow> inspection_outcome \<Rightarrow> inspection_outcome" where
  "combine x y =
     (if outcome_severity y < outcome_severity x then x
      else if outcome_severity x < outcome_severity y then y
      else (case (x, y) of
              (Truncated left left_hint, Truncated right right_hint) \<Rightarrow>
                Truncated (min left right) (combine_hint left_hint right_hint)
            | _ \<Rightarrow> x))"

datatype location = InUri | InHeader | InBody

datatype block_reason =
    StrictProfile
  | SensitivePath string
  | SensitivePrefix string
  | Crlf location
  | Jndi location
  | Sqli location string
  | Traversal location string
  | Xss location string

datatype waf_verdict = Allow | Block block_reason


record inspection_body =
  body_bytes :: string
  body_status :: inspection_outcome

section \<open>Pattern checks\<close>

record waf_regexes =
  sqli_classic_re :: "string \<Rightarrow> bool"
  sqli_stacked_re :: "string \<Rightarrow> bool"
  sqli_blind_re :: "string \<Rightarrow> bool"
  sqli_functions_re :: "string \<Rightarrow> bool"
  sqli_evasion_re :: "string \<Rightarrow> bool"
  path_traversal_re :: "string \<Rightarrow> string option"
  crlf_re :: "string \<Rightarrow> bool"
  body_crlf_re :: "string \<Rightarrow> bool"
  jndi_replace :: "string \<Rightarrow> string"
  xss_re :: "string \<Rightarrow> string option"
  to_lowercase :: "string \<Rightarrow> string"

definition check_sqli :: "waf_regexes \<Rightarrow> string \<Rightarrow> string option" where
  "check_sqli rx input =
     (if sqli_classic_re rx input then Some ''sqli_classic''
      else if sqli_stacked_re rx input then Some ''sqli_stacked''
      else if sqli_blind_re rx input then Some ''sqli_blind''
      else if sqli_functions_re rx input then Some ''sqli_functions''
      else if sqli_evasion_re rx input then Some ''sqli_evasion''
      else None)"

fun collapse_loop :: "waf_regexes \<Rightarrow> nat \<Rightarrow> string \<Rightarrow> string" where
  "collapse_loop rx 0 current = current"
| "collapse_loop rx (Suc n) current =
     (let replaced = jndi_replace rx current
      in if replaced = current then current else collapse_loop rx n replaced)"

definition collapse_jndi_obfuscation :: "waf_regexes \<Rightarrow> string \<Rightarrow> string" where
  "collapse_jndi_obfuscation rx input = collapse_loop rx 5 input"

definition contains_jndi :: "waf_regexes \<Rightarrow> string \<Rightarrow> bool" where
  "contains_jndi rx input =
     (if \<not> str_contains input ''${'' then False
      else
        let lower = to_lowercase rx input
        in if str_contains lower ''${jndi:'' then True
           else str_contains (collapse_jndi_obfuscation rx lower) ''${jndi:'')"

definition BLOCKED_PATHS :: "string list" where
  "BLOCKED_PATHS =
     [''/.env'', ''/.git'', ''/.git/'', ''/.git/config'', ''/.git/HEAD'', ''/.gitignore'', ''/.svn'',
      ''/.hg'', ''/.DS_Store'', ''/phpmyadmin'', ''/phpinfo.php'', ''/.htaccess'', ''/.htpasswd'',
      ''/server-status'', ''/server-info'', ''/debug'', ''/actuator'', ''/actuator/env'', ''/console'',
      ''/config.php'', ''/config.yml'', ''/config.json'', ''/database.yml'', ''/docker-compose.yml'',
      ''/Dockerfile'', ''/.dockerenv'', ''/id_rsa'', ''/id_ed25519'', ''/.ssh'', ''/.bash_history'',
      ''/.npmrc'', ''/.aws/credentials'', ''/wp-config.php'', ''/web.config'', ''/.vscode'', ''/.idea'']"

definition BLOCKED_PATH_PREFIXES :: "string list" where
  "BLOCKED_PATH_PREFIXES =
     [''/.git/'', ''/.svn/'', ''/.hg/'', ''/phpmyadmin/'', ''/actuator/'', ''/.aws/'', ''/.ssh/'']"

definition WORDPRESS_OPERATIONAL_PATHS :: "string list" where
  "WORDPRESS_OPERATIONAL_PATHS = [''/wp-admin'', ''/wp-admin/'', ''/wp-login.php'', ''/xmlrpc.php'']"

definition wordpress_operational_path :: "string \<Rightarrow> bool" where
  "wordpress_operational_path path_lower =
     list_ex (\<lambda>candidate. path_lower = candidate \<or> (ends_with candidate ''/'' \<and> starts_with path_lower candidate))
       WORDPRESS_OPERATIONAL_PATHS"

definition sensitive_path :: "string \<Rightarrow> block_reason option" where
  "sensitive_path path_lower =
     (case find (\<lambda>blocked. path_lower = blocked) BLOCKED_PATHS of
        Some blocked \<Rightarrow> Some (SensitivePath blocked)
      | None \<Rightarrow> map_option SensitivePrefix (find (\<lambda>prefix. starts_with path_lower prefix) BLOCKED_PATH_PREFIXES))"

text \<open>The five pattern families in the order in which each text goes through them.\<close>

definition pattern_check :: "waf_regexes \<Rightarrow> location \<Rightarrow> bool \<Rightarrow> string \<Rightarrow> block_reason option" where
  "pattern_check rx loc crlf input =
     (if crlf then Some (Crlf loc)
      else if contains_jndi rx input then Some (Jndi loc)
      else (case check_sqli rx input of
              Some category \<Rightarrow> Some (Sqli loc category)
            | None \<Rightarrow>
              (case path_traversal_re rx input of
                 Some m \<Rightarrow> Some (Traversal loc m)
               | None \<Rightarrow> map_option (Xss loc) (xss_re rx input))))"

primrec header_loop :: "waf_regexes \<Rightarrow> string list \<Rightarrow> block_reason option" where
  "header_loop rx [] = None"
| "header_loop rx (val # vals) =
     (let decoded_header = recursive_urldecode val
      in opt_or (pattern_check rx InHeader (crlf_re rx val) val)
          (opt_or (pattern_check rx InHeader (crlf_re rx decoded_header) decoded_header)
            (header_loop rx vals)))"

definition inspect_request_with_profile ::
    "waf_regexes \<Rightarrow> string \<Rightarrow> string list \<Rightarrow> waf_profile \<Rightarrow> waf_verdict" where
  "inspect_request_with_profile rx uri header_values profile =
     (let decoded_uri = decode_uri uri;
          path_lower = to_lowercase rx (first_piece CHR ''?'' decoded_uri)
      in if wordpress_operational_path path_lower \<and> profile = Strict then Block StrictProfile
         else (case sensitive_path path_lower of
                 Some r \<Rightarrow> Block r
               | None \<Rightarrow>
                   (case pattern_check rx InUri (crlf_re rx uri \<or> crlf_re rx decoded_uri) decoded_uri of
                      Some r \<Rightarrow> Block r
                    | None \<Rightarrow>
                        (case header_loop rx header_values of
                           Some r \<Rightarrow> Block r
                         | None \<Rightarrow> Allow))))"

section \<open>Bodies\<close>

abbreviation MAX_INFLATE_FOR_INSPECT :: nat where "MAX_INFLATE_FOR_INSPECT \<equiv> 256 * 1024"
abbreviation INSPECT_TEXT_LIMIT :: nat where "INSPECT_TEXT_LIMIT \<equiv> 65536"


definition cut_output :: "nat \<Rightarrow> string \<Rightarrow> string" where
  "cut_output text_limit output =
     (if text_limit < length output then take (floor_boundary output text_limit) output else output)"

fun visit :: "nat \<Rightarrow> json_value \<Rightarrow> string \<Rightarrow> string"
  and visit_items :: "nat \<Rightarrow> json_value list \<Rightarrow> string \<Rightarrow> string"
  and visit_members :: "nat \<Rightarrow> (string \<times> json_value) list \<Rightarrow> string \<Rightarrow> string" where
  "visit text_limit v output =
     (if text_limit \<le> length output then output
      else cut_output text_limit
        (case v of
           String s \<Rightarrow> output @ s @ [CHR 0x0A]
         | Array items \<Rightarrow> visit_items text_limit items output
         | Object ms \<Rightarrow> visit_members text_limit ms output
         | _ \<Rightarrow> output))"
| "visit_items text_limit [] output = output"
| "visit_items text_limit (v # vs) output = visit_items text_limit vs (visit text_limit v output)"
| "visit_members text_limit [] output = output"
| "visit_members text_limit ((key, v) # ms) output =
     visit_members text_limit ms (visit text_limit v (output @ key @ [CHR 0x0A]))"

declare visit.simps [simp del]

definition json_strings :: "json_value \<Rightarrow> nat \<Rightarrow> string" where
  "json_strings v text_limit = visit text_limit v []"







section \<open>Inflation\<close>

text \<open>
  A decompressor is the sequence of results of its \<open>read\<close> calls. A read that has more than
  the buffer takes fills the buffer; \<open>Interrupted\<close> is tried again.
\<close>

datatype read_event = Data string | Interrupted | Failed

fun read_loop :: "nat \<Rightarrow> read_event list \<Rightarrow> string \<Rightarrow> string option" where
  "read_loop 0 es out = Some out"
| "read_loop (Suc n) [] out = Some out"
| "read_loop (Suc n) (Data bs # es) out =
     (if bs = [] then Some out else read_loop (Suc n - length bs) es (out @ take (Suc n) bs))"
| "read_loop (Suc n) (Interrupted # es) out = read_loop (Suc n) es out"
| "read_loop (Suc n) (Failed # es) out = None"

definition inflate_buffer_bytes :: "nat \<Rightarrow> nat" where
  "inflate_buffer_bytes limit = min (limit + 1) usize_max"

definition read_capped_inflate :: "nat \<Rightarrow> read_event list \<Rightarrow> string option" where
  "read_capped_inflate inflate_limit decoder = read_loop (inflate_buffer_bytes inflate_limit) decoder []"

definition unsupported_encoding :: "string \<Rightarrow> inspection_body" where
  "unsupported_encoding body = \<lparr>body_bytes = body, body_status = UnsupportedEncoding\<rparr>"

definition inflate_with :: "read_event list \<Rightarrow> string \<Rightarrow> nat \<Rightarrow> inspection_body" where
  "inflate_with decoder fallback inflate_limit =
     (case read_capped_inflate inflate_limit decoder of
        Some out \<Rightarrow>
          if out \<noteq> [] then
            (if inflate_limit < length out then
               (let cut = take inflate_limit out
                in \<lparr>body_bytes = cut, body_status = Truncated (length cut) None\<rparr>)
             else \<lparr>body_bytes = out, body_status = Complete\<rparr>)
          else unsupported_encoding fallback
      | None \<Rightarrow> unsupported_encoding fallback)"

definition inflate_for_inspect_limited ::
    "(string \<Rightarrow> read_event list) \<Rightarrow> (string \<Rightarrow> read_event list) \<Rightarrow> string \<Rightarrow> string option \<Rightarrow> nat \<Rightarrow>
     inspection_body" where
  "inflate_for_inspect_limited gunzip inflate body encoding inflate_limit =
     (let enc = to_ascii_lowercase (unwrap_or encoding [])
      in if enc = [] \<or> enc = ''identity'' then \<lparr>body_bytes = body, body_status = Complete\<rparr>
         else
           let tokens = map trim (split_on CHR '','' enc)
           in if length tokens \<noteq> 1 then unsupported_encoding body
              else if hd tokens = ''gzip'' \<or> hd tokens = ''x-gzip'' then inflate_with (gunzip body) body inflate_limit
              else if hd tokens = ''deflate'' then inflate_with (inflate body) body inflate_limit
              else unsupported_encoding body)"

section \<open>Combining outcomes\<close>

text \<open>
  The outcome of a request is put together from the outcomes of its stages in whatever order
  they finish. \<open>combine\<close> is a join: a semilattice with \<open>Complete\<close> as its least element.
\<close>

lemma combine_hint_assoc: "combine_hint (combine_hint a b) c = combine_hint a (combine_hint b c)"
  by (cases a; cases b; cases c; simp add: max.assoc)

lemma combine_hint_commute: "combine_hint a b = combine_hint b a"
  by (cases a; cases b; simp add: max.commute)

lemma combine_hint_idem: "combine_hint a a = a"
  by (cases a; simp)

interpretation outcome: semilattice_neutr combine Complete
proof
  fix a b c :: inspection_outcome
  show "combine (combine a b) c = combine a (combine b c)"
    by (cases a; cases b; cases c; simp add: combine_def combine_hint_assoc min.assoc)
  show "combine a b = combine b a"
    by (cases a; cases b; simp add: combine_def combine_hint_commute min.commute)
  show "combine a a = a"
    by (cases a) (simp_all add: combine_def combine_hint_idem)
  show "combine a Complete = a"
    by (cases a) (simp_all add: combine_def)
qed

definition combine_all :: "inspection_outcome list \<Rightarrow> inspection_outcome" where
  "combine_all os = foldl combine Complete os"

lemma combine_severity: "outcome_severity (combine a b) = max (outcome_severity a) (outcome_severity b)"
  by (auto simp: combine_def max_def split: inspection_outcome.splits)

lemma severity_zero_iff: "outcome_severity a = 0 \<longleftrightarrow> a = Complete"
  by (cases a) simp_all

lemma foldl_combine_perm:
  assumes "mset xs = mset ys"
  shows "foldl combine a xs = foldl combine a ys"
proof -
  have "fold (\<lambda>x y. combine y x) xs = fold (\<lambda>x y. combine y x) ys"
    using assms by (intro fold_multiset_equiv)
      (simp_all add: fun_eq_iff outcome.assoc outcome.left_commute outcome.commute)
  then show ?thesis by (simp add: foldl_conv_fold)
qed

section \<open>The request line and the headers\<close>

definition clean :: "waf_regexes \<Rightarrow> string \<Rightarrow> bool" where
  "clean rx t \<longleftrightarrow>
     \<not> crlf_re rx t \<and> \<not> contains_jndi rx t \<and> check_sqli rx t = None \<and>
     path_traversal_re rx t = None \<and> xss_re rx t = None"

lemma pattern_check_None:
  "pattern_check rx loc crlf t = None \<longleftrightarrow>
     \<not> crlf \<and> \<not> contains_jndi rx t \<and> check_sqli rx t = None \<and>
     path_traversal_re rx t = None \<and> xss_re rx t = None"
  by (simp add: pattern_check_def split: option.splits)

lemma header_loop_None:
  "header_loop rx hs = None \<longleftrightarrow> (\<forall>h \<in> set hs. clean rx h \<and> clean rx (recursive_urldecode h))"
  by (induction hs) (auto simp: Let_def opt_or_None pattern_check_None clean_def)

lemma sensitive_path_None:
  "sensitive_path p = None \<longleftrightarrow>
     p \<notin> set BLOCKED_PATHS \<and> (\<forall>pre \<in> set BLOCKED_PATH_PREFIXES. \<not> starts_with p pre)"
proof (cases "find (\<lambda>blocked. p = blocked) BLOCKED_PATHS")
  case None
  then have "p \<notin> set BLOCKED_PATHS" by (auto simp: find_None_iff)
  moreover from None have "sensitive_path p = None \<longleftrightarrow> find (\<lambda>pre. starts_with p pre) BLOCKED_PATH_PREFIXES = None"
    by (simp add: sensitive_path_def)
  ultimately show ?thesis by (auto simp: find_None_iff)
next
  case (Some b)
  then have "p \<in> set BLOCKED_PATHS" by (auto simp: find_Some_iff)
  with Some show ?thesis by (simp add: sensitive_path_def)
qed

text \<open>When the verdict on a request line depends on the decoded text only.\<close>

definition path_admitted :: "waf_regexes \<Rightarrow> waf_profile \<Rightarrow> string \<Rightarrow> bool" where
  "path_admitted rx profile decoded =
     (let p = to_lowercase rx (first_piece CHR ''?'' decoded)
      in \<not> (profile = Strict \<and> wordpress_operational_path p) \<and> p \<notin> set BLOCKED_PATHS \<and>
         (\<forall>pre \<in> set BLOCKED_PATH_PREFIXES. \<not> starts_with p pre))"

lemma inspect_request_Allow:
  "inspect_request_with_profile rx uri hs profile = Allow \<longleftrightarrow>
     path_admitted rx profile (decode_uri uri) \<and> \<not> crlf_re rx uri \<and> clean rx (decode_uri uri) \<and>
     (\<forall>h \<in> set hs. clean rx h \<and> clean rx (recursive_urldecode h))"
proof -
  let ?p = "to_lowercase rx (first_piece CHR ''?'' (decode_uri uri))"
  have "inspect_request_with_profile rx uri hs profile = Allow \<longleftrightarrow>
      \<not> (wordpress_operational_path ?p \<and> profile = Strict) \<and> sensitive_path ?p = None \<and>
      pattern_check rx InUri (crlf_re rx uri \<or> crlf_re rx (decode_uri uri)) (decode_uri uri) = None \<and>
      header_loop rx hs = None"
    by (simp add: inspect_request_with_profile_def Let_def split: option.splits)
  then show ?thesis
    by (simp add: sensitive_path_None pattern_check_None header_loop_None path_admitted_def clean_def Let_def)
      blast
qed

section \<open>Layers of encoding\<close>

lemma urldecode_plain_append:
  "\<forall>c \<in> set a. is_ascii c \<and> c \<noteq> CHR ''%'' \<Longrightarrow> urldecode (a @ b) = a @ urldecode b"
  by (induction a) (simp_all add: is_ascii_def encode_utf8_ascii)

lemma decode_loop_plain_append:
  "\<forall>c \<in> set a. is_ascii c \<and> c \<noteq> CHR ''%'' \<Longrightarrow> decode_loop n (a @ b) = a @ decode_loop n b"
  by (induction n arbitrary: b) (simp_all add: Let_def urldecode_plain_append)

lemma recursive_urldecode_layers:
  assumes "\<forall>c \<in> set a \<union> set s. is_ascii c \<and> c \<noteq> CHR ''%''" and "n \<le> 8"
  shows "recursive_urldecode (a @ (pct_encode ^^ n) s) = a @ s"
proof -
  have "decode_loop 8 ((pct_encode ^^ n) s) = decode_loop (8 - n) s"
    using decode_loop_layers [of s n "8 - n"] assms by simp
  also have "\<dots> = s" using assms by (simp add: decode_loop_fixed urldecode_plain)
  finally show ?thesis using assms by (simp add: recursive_urldecode_def decode_loop_plain_append)
qed

lemma pct_encode_chars: "CHR ''?'' \<notin> set (pct_encode s)"
proof -
  have "byte_of c div 16 < 16" for c using byte_of_less [of c] by (simp add: less_mult_imp_div_less)
  then have "hex_digit (byte_of c div 16) \<noteq> CHR ''?''" "hex_digit (byte_of c mod 16) \<noteq> CHR ''?''" for c
    by (simp_all add: hex_digit_neq)
  note ne = this [symmetric]
  show ?thesis by (induction s) (simp_all add: pct_encode_def ne)
qed

lemma pct_layers_chars: "CHR ''?'' \<notin> set s \<Longrightarrow> CHR ''?'' \<notin> set ((pct_encode ^^ n) s)"
  using pct_encode_chars by (cases n) auto

section \<open>Body text\<close>

text \<open>All string values and keys of a document, one per line.\<close>

fun all_strings :: "json_value \<Rightarrow> string" where
  "all_strings (String s) = s @ [CHR 0x0A]"
| "all_strings (Array vs) = concat (map all_strings vs)"
| "all_strings (Object ms) = concat (map (\<lambda>m. fst m @ CHR 0x0A # all_strings (snd m)) ms)"
| "all_strings _ = []"

lemma cut_output_short: "length s \<le> n \<Longrightarrow> cut_output n s = s"
  by (simp add: cut_output_def)

lemma length_cut: "length (cut_output n s) \<le> n"
  using floor_boundary_le [of s n] by (auto simp: cut_output_def)

lemma visit_bound: "length out \<le> n \<Longrightarrow> length (visit n v out) \<le> n"
  by (subst visit.simps) (simp add: length_cut)

lemma visit_all:
  "length (out @ all_strings v) \<le> n \<Longrightarrow> visit n v out = out @ all_strings v"
  "length (out @ concat (map all_strings vs)) \<le> n \<Longrightarrow> visit_items n vs out = out @ concat (map all_strings vs)"
  "length (out @ all_strings (Object ms)) \<le> n \<Longrightarrow> visit_members n ms out = out @ all_strings (Object ms)"
proof (induction n v out and n vs out and n ms out rule: visit_visit_items_visit_members.induct)
  case (1 n v out)
  show ?case
  proof (cases "n \<le> length out")
    case True
    with "1.prems" have "length (all_strings v) = 0" unfolding length_append by linarith
    then have "all_strings v = []" by simp
    with True show ?thesis by (simp add: visit.simps)
  next
    case False
    with 1 show ?thesis
      by (subst visit.simps) (auto simp: cut_output_short split: json_value.split)
  qed
qed simp_all




section \<open>Bounded reads\<close>

text \<open>What a decompressor yields in all, if it ends without an error.\<close>

fun decoder_output :: "read_event list \<Rightarrow> string option" where
  "decoder_output [] = Some []"
| "decoder_output (Data bs # es) = (if bs = [] then Some [] else map_option (\<lambda>r. bs @ r) (decoder_output es))"
| "decoder_output (Interrupted # es) = decoder_output es"
| "decoder_output (Failed # es) = None"

lemma read_loop_length: "read_loop n es out = Some r \<Longrightarrow> length r \<le> length out + n"
proof (induction n es out rule: read_loop.induct)
  case (3 n bs es out)
  then show ?case by (cases "bs = []") (force simp: min_def split: if_splits)+
qed auto

lemma read_loop_whole:
  "decoder_output es = Some r \<Longrightarrow> length r < n \<Longrightarrow> read_loop n es out = Some (out @ r)"
proof (induction n es out arbitrary: r rule: read_loop.induct)
  case (3 n bs es out)
  show ?case
  proof (cases "bs = []")
    case True
    with 3 show ?thesis by simp
  next
    case False
    with 3(2) obtain r' where r': "decoder_output es = Some r'" "r = bs @ r'" by auto
    with 3(1) [OF False r'(1)] 3(3) False show ?thesis by simp
  qed
qed auto

lemma read_loop_short:
  "read_loop n es out = Some r \<Longrightarrow> length r < length out + n \<Longrightarrow>
     \<exists>t. decoder_output es = Some t \<and> r = out @ t"
proof (induction n es out arbitrary: r rule: read_loop.induct)
  case (3 n bs es out)
  show ?case
  proof (cases "bs = []")
    case True
    with 3 show ?thesis by simp
  next
    case False
    from 3(2) False have rec: "read_loop (Suc n - length bs) es (out @ take (Suc n) bs) = Some r" by simp
    have "length bs < Suc n"
    proof (rule ccontr)
      assume "\<not> length bs < Suc n"
      with rec have "length r = length out + Suc n" by auto
      with 3(3) show False by simp
    qed
    with 3(1) [OF False rec] 3(3) obtain t where "decoder_output es = Some t" "r = out @ take (Suc n) bs @ t"
      by auto
    with False \<open>length bs < Suc n\<close> show ?thesis by simp
  qed
qed auto

lemma inflate_with_Complete:
  assumes "limit < usize_max"
  shows "body_status (inflate_with es fb limit) = Complete \<longleftrightarrow>
    (\<exists>out. decoder_output es = Some out \<and> out \<noteq> [] \<and> length out \<le> limit)"
proof -
  have cap: "inflate_buffer_bytes limit = Suc limit" using assms by (simp add: inflate_buffer_bytes_def)
  have "body_status (inflate_with es fb limit) = Complete \<longleftrightarrow>
      (\<exists>out. read_loop (Suc limit) es [] = Some out \<and> out \<noteq> [] \<and> length out \<le> limit)"
    by (auto simp: inflate_with_def read_capped_inflate_def cap unsupported_encoding_def Let_def split: option.splits)
  also have "\<dots> \<longleftrightarrow> (\<exists>out. decoder_output es = Some out \<and> out \<noteq> [] \<and> length out \<le> limit)"
  proof -
    have "read_loop (Suc limit) es [] = Some out \<longleftrightarrow> decoder_output es = Some out"
      if "length out \<le> limit" for out
      using read_loop_whole [of es out "Suc limit" "[]"] read_loop_short [of "Suc limit" es "[]" out] that
      by (auto simp del: read_loop.simps)
    then show ?thesis by blast
  qed
  finally show ?thesis .
qed

section \<open>Properties\<close>

text \<open>The outcome of a request does not depend on the order in which its stages report,
  is complete only when every stage was, and is otherwise as severe as the worst of them.\<close>

theorem outcome_order_irrelevant:
  assumes "mset xs = mset ys"
  shows "combine_all xs = combine_all ys \<and>
    (combine_all xs = Complete \<longleftrightarrow> (\<forall>x \<in> set xs. x = Complete)) \<and>
    (\<forall>x \<in> set xs. outcome_severity x \<le> outcome_severity (combine_all xs))"
proof -
  have sev: "outcome_severity (foldl combine a zs) = fold max (map outcome_severity zs) (outcome_severity a)" for a zs
    by (induction zs arbitrary: a) (simp_all add: combine_severity max.commute)
  have le: "\<forall>x \<in> set xs. outcome_severity x \<le> outcome_severity (combine_all xs)"
    unfolding combine_all_def sev Max.set_eq_fold [symmetric] by (auto intro!: Max_ge)
  have all: "combine_all xs = Complete" if "\<forall>x \<in> set xs. x = Complete"
    using that unfolding combine_all_def by (induction xs) simp_all
  show ?thesis
    using assms foldl_combine_perm [OF assms] le all
    by (auto simp: combine_all_def severity_zero_iff [symmetric])
qed

theorem outcome_order_irrelevant_witness:
  "combine_all [Truncated 5 None, Complete, Truncated 3 (Some 9)] =
   combine_all [Truncated 3 (Some 9), Truncated 5 None, Complete]"
  using outcome_order_irrelevant
    [of "[Truncated 5 None, Complete, Truncated 3 (Some 9)]" "[Truncated 3 (Some 9), Truncated 5 None, Complete]"]
  by simp


definition no_match :: waf_regexes where
  "no_match = \<lparr>sqli_classic_re = (\<lambda>_. False), sqli_stacked_re = (\<lambda>_. False), sqli_blind_re = (\<lambda>_. False),
     sqli_functions_re = (\<lambda>_. False), sqli_evasion_re = (\<lambda>_. False),
     path_traversal_re = (\<lambda>s. if str_contains s ''../'' then Some ''../'' else None),
     crlf_re = (\<lambda>_. False), body_crlf_re = (\<lambda>_. False), jndi_replace = (\<lambda>s. s), xss_re = (\<lambda>_. None),
     to_lowercase = to_ascii_lowercase\<rparr>"


text \<open>C5. Percent encoding a path up to eight times over never gets a refused request through:
  if the plain request line is refused, so is the one whose tail is encoded in that many
  layers.\<close>

theorem encoding_layers_hide_nothing:
  assumes "\<forall>c \<in> set a \<union> set s. is_ascii c \<and> c \<noteq> CHR ''%'' \<and> c \<noteq> CHR ''?''" and "n \<le> 8"
    and "inspect_request_with_profile rx (a @ s) hs profile \<noteq> Allow"
  shows "inspect_request_with_profile rx (a @ (pct_encode ^^ n) s) hs profile \<noteq> Allow"
proof -
  have plain: "\<forall>c \<in> set a \<union> set s. is_ascii c \<and> c \<noteq> CHR ''%''" using assms(1) by blast
  have "CHR ''?'' \<notin> set ((pct_encode ^^ n) s)" "CHR ''?'' \<notin> set (a @ s)" "CHR ''?'' \<notin> set a"
    using assms(1) by (auto intro!: pct_layers_chars)
  then have "decode_uri (a @ (pct_encode ^^ n) s) = a @ s"
    using recursive_urldecode_layers [OF plain assms(2)]
    by (simp add: decode_uri_def split_once_None [THEN iffD2])
  moreover have "decode_uri (a @ s) = a @ s"
    using recursive_urldecode_layers [OF plain, of 0] \<open>CHR ''?'' \<notin> set (a @ s)\<close>
    by (simp add: decode_uri_def split_once_None [THEN iffD2])
  ultimately show ?thesis
    using assms(3) by (auto simp: inspect_request_Allow clean_def)
qed

theorem encoding_layers_hide_nothing_witness:
  "inspect_request_with_profile no_match (''/files/'' @ (pct_encode ^^ 3) ''../etc'') [] Generic \<noteq> Allow"
proof (rule encoding_layers_hide_nothing)
  show "\<forall>c \<in> set ''/files/'' \<union> set ''../etc''. is_ascii c \<and> c \<noteq> CHR ''%'' \<and> c \<noteq> CHR ''?''" by code_simp
  show "inspect_request_with_profile no_match (''/files/'' @ ''../etc'') [] Generic \<noteq> Allow" by code_simp
qed simp



text \<open>The strings collected from a JSON body for inspection never exceed the text limit,
  and are all of its keys and string values whenever these fit: an escape sequence in the
  raw text cannot keep a string from being looked at.\<close>

theorem json_strings_exact:
  "length (json_strings v n) \<le> n \<and> (length (all_strings v) \<le> n \<longrightarrow> json_strings v n = all_strings v)"
  using visit_bound [of "[]" n v] visit_all(1) [of "[]" v n] by (simp add: json_strings_def)

theorem json_strings_exact_witness:
  "json_strings (Object [(''a'', Array [String ''<b'', Null])]) 9 = ''a'' @ [CHR 0x0A] @ ''<b'' @ [CHR 0x0A]"
  using json_strings_exact [of "Object [(''a'', Array [String ''<b'', Null])]" 9] by simp

text \<open>C27. Inflation never hands more than the limit to the inspection, and reports a body as
  complete exactly when the decompressor ended without error with a non-empty output within
  the limit; a corrupt or empty stream is reported as unsupported and inspected raw.\<close>

theorem inflate_bounded_and_honest:
  assumes "limit < usize_max"
  shows "(body_status (inflate_with es fb limit) = Complete \<longleftrightarrow>
      (\<exists>out. decoder_output es = Some out \<and> out \<noteq> [] \<and> length out \<le> limit)) \<and>
    (case body_status (inflate_with es fb limit) of
       UnsupportedEncoding \<Rightarrow> body_bytes (inflate_with es fb limit) = fb
     | _ \<Rightarrow> length (body_bytes (inflate_with es fb limit)) \<le> limit)"
proof (rule conjI)
  show "body_status (inflate_with es fb limit) = Complete \<longleftrightarrow>
      (\<exists>out. decoder_output es = Some out \<and> out \<noteq> [] \<and> length out \<le> limit)"
    using assms by (rule inflate_with_Complete)
  show "case body_status (inflate_with es fb limit) of
       UnsupportedEncoding \<Rightarrow> body_bytes (inflate_with es fb limit) = fb
     | _ \<Rightarrow> length (body_bytes (inflate_with es fb limit)) \<le> limit"
    by (auto simp: inflate_with_def unsupported_encoding_def Let_def split: option.splits)
qed

theorem inflate_bounded_and_honest_witness:
  "body_status (inflate_with [Data ''ab'', Interrupted, Data ''c''] ''raw'' 3) = Complete"
  using inflate_bounded_and_honest [of 3 "[Data ''ab'', Interrupted, Data ''c'']" "''raw''"] by simp

section \<open>Observations on the rules\<close>

text \<open>
  The path is lowercased before the comparison, so an entry of \<open>BLOCKED_PATHS\<close> with a capital
  letter matches nothing: \<open>/Dockerfile\<close> and \<open>/.DS_Store\<close> are not blocked.
\<close>

lemma capital_entries_never_match:
  "sensitive_path (to_ascii_lowercase ''/Dockerfile'') = None \<and>
   sensitive_path (to_ascii_lowercase ''/.DS_Store'') = None"
  by code_simp

text \<open>
  Bytes above 0x7F are pushed as characters, so each pass doubles them and the eight passes
  make such a text 256 times as long.
\<close>

lemma non_ascii_text_grows:
  assumes "\<forall>c \<in> set s. \<not> is_ascii c"
  shows "length (recursive_urldecode s) = 256 * length s"
  using decode_loop_non_ascii [OF assms, of 8] by (simp add: recursive_urldecode_def)

text \<open>Dot segments are not removed before the comparison with the sensitive paths.\<close>

lemma dot_segment_not_sensitive: "sensitive_path ''/./.env'' = None \<and> sensitive_path ''//.env'' = None"
  by code_simp
end
