(* ===== verification/Dlp.thy ===== *)
theory Dlp
  imports Waf_Inspection "HOL-Library.AList"
begin

text \<open>
  Response data-loss prevention, \<open>src/src/dlp.rs\<close>: check digits, masking of CPF, CNPJ, card
  numbers and bearer tokens, field redaction in JSON, and the handling of encoded bodies.
  The three regular expressions, the JSON parser and printer and the compressors are
  parameters. \<open>replace_all\<close> sees the text cut into unmatched pieces and matches. Text is a
  list of bytes; a byte of a multi-byte character is never an ASCII digit, so the card scan
  may go byte by byte. Logging and metrics are left out.
\<close>

abbreviation MAX_FIELDS :: nat where "MAX_FIELDS \<equiv> 32"

datatype dlp_action = Monitor | Redact | Block

definition reject_incomplete_response :: "dlp_action \<Rightarrow> bool" where
  "reject_incomplete_response a \<longleftrightarrow> a = Block"

fun record_verb :: "dlp_action \<Rightarrow> string" where
  "record_verb Monitor = ''Detected''"
| "record_verb Redact = ''Masked''"
| "record_verb Block = ''Blocked''"

datatype detector = Cpf | Cnpj | Card

datatype dlp_error =
    BadDetector string | BadAction string | PathWithoutDollar | PathEmpty | PathInvalid | PathTooDeep

definition detector_parse :: "string \<Rightarrow> (dlp_error, detector) result" where
  "detector_parse raw =
     (let name = trim raw
      in if name = ''cpf'' then Ok Cpf
         else if name = ''cnpj'' then Ok Cnpj
         else if name = ''card'' then Ok Card
         else Err (BadDetector name))"

definition parse_action :: "string option \<Rightarrow> (dlp_error, dlp_action) result" where
  "parse_action raw =
     (case opt_filter (\<lambda>v. v \<noteq> []) (map_option trim raw) of
        None \<Rightarrow> Ok Redact
      | Some v \<Rightarrow>
          if v = ''monitor'' then Ok Monitor
          else if v = ''redact'' then Ok Redact
          else if v = ''block'' then Ok Block
          else Err (BadAction v))"

definition dlp_is_enabled :: "(string \<Rightarrow> string option) \<Rightarrow> bool" where
  "dlp_is_enabled env = (case env ''DLP_ENABLED'' of Some v \<Rightarrow> v \<noteq> ''false'' | None \<Rightarrow> True)"

section \<open>Check digits\<close>

definition digits_only :: "string \<Rightarrow> nat list" where
  "digits_only raw = map (\<lambda>c. byte_of c - 48) (filter is_ascii_digit raw)"

definition mask_digit :: "char \<Rightarrow> char" where
  "mask_digit c = (if is_ascii_digit c then CHR ''*'' else c)"

definition mask_digits :: "string \<Rightarrow> string" where
  "mask_digits raw = map mask_digit raw"

definition all_same :: "nat list \<Rightarrow> bool" where
  "all_same digits = (case digits of [] \<Rightarrow> False | first # _ \<Rightarrow> list_all (\<lambda>d. d = first) digits)"

primrec weighted :: "nat \<Rightarrow> nat list \<Rightarrow> nat" where
  "weighted w [] = 0"
| "weighted w (d # ds) = d * w + weighted (w - 1) ds"

definition check_digit :: "nat \<Rightarrow> nat" where
  "check_digit acc = (let r = acc mod 11 in if r < 2 then 0 else 11 - r)"

definition mod11 :: "nat list \<Rightarrow> nat \<Rightarrow> nat" where
  "mod11 digits start_weight = check_digit (weighted start_weight digits)"

primrec cnpj_weighted :: "nat \<Rightarrow> nat list \<Rightarrow> nat" where
  "cnpj_weighted weight [] = 0"
| "cnpj_weighted weight (d # ds) = d * weight + cnpj_weighted (if weight = 2 then 9 else weight - 1) ds"

definition cnpj_check :: "nat list \<Rightarrow> nat \<Rightarrow> nat" where
  "cnpj_check digits first_weight = check_digit (cnpj_weighted first_weight digits)"

definition cpf_valid :: "nat list \<Rightarrow> bool" where
  "cpf_valid digits =
     (if length digits \<noteq> 11 \<or> all_same digits then False
      else digits ! 9 = mod11 (take 9 digits) 10 \<and> digits ! 10 = mod11 (take 10 digits) 11)"

definition cnpj_valid :: "nat list \<Rightarrow> bool" where
  "cnpj_valid digits =
     (if length digits \<noteq> 14 \<or> all_same digits then False
      else digits ! 12 = cnpj_check (take 12 digits) 5 \<and> digits ! 13 = cnpj_check (take 13 digits) 6)"

definition luhn_value :: "bool \<Rightarrow> nat \<Rightarrow> nat" where
  "luhn_value double d = (if double then (if 9 < d * 2 then d * 2 - 9 else d * 2) else d)"

fun luhn_loop :: "bool \<Rightarrow> nat \<Rightarrow> nat list \<Rightarrow> nat" where
  "luhn_loop double acc [] = acc"
| "luhn_loop double acc (d # ds) = luhn_loop (\<not> double) (acc + luhn_value double d) ds"

definition luhn :: "nat list \<Rightarrow> bool" where
  "luhn digits \<longleftrightarrow> luhn_loop False 0 (rev digits) mod 10 = 0"

definition card_valid :: "nat list \<Rightarrow> bool" where
  "card_valid digits \<longleftrightarrow> 13 \<le> length digits \<and> length digits \<le> 19 \<and> \<not> all_same digits \<and> luhn digits"

definition detector_matches :: "detector \<Rightarrow> string \<Rightarrow> bool" where
  "detector_matches d raw =
     (let digits = digits_only raw
      in case d of Cpf \<Rightarrow> cpf_valid digits | Cnpj \<Rightarrow> cnpj_valid digits | Card \<Rightarrow> card_valid digits)"

section \<open>Field paths\<close>

record dlp_field =
  segments :: "string list"
  field_detector :: detector
  field_raw :: string

definition is_path_char :: "char \<Rightarrow> bool" where
  "is_path_char c \<longleftrightarrow> is_ascii_alphanumeric c \<or> c = CHR ''_'' \<or> c = CHR ''-''"

function path_loop :: "string list \<Rightarrow> string \<Rightarrow> (dlp_error, string list) result" where
  "path_loop segs rest =
     (if rest = [] then (if segs = [] then Err PathInvalid else Ok segs)
      else if hd rest \<noteq> CHR ''.'' then Err PathInvalid
      else
        let segment = takeWhile is_path_char (tl rest);
            rest' = dropWhile is_path_char (tl rest)
        in if segment = [] \<or> 64 < length segment then Err PathInvalid
           else if 16 < length (segs @ [segment]) then Err PathTooDeep
           else path_loop (segs @ [segment]) rest')"
  by pat_completeness auto
termination
proof (relation "measure (\<lambda>(segs, rest). length rest)", goal_cases)
  case (2 segs rest x xa)
  have "length (dropWhile is_path_char (tl rest)) \<le> length (tl rest)" by (rule length_dropWhile_le)
  with 2 show ?case by (cases rest) auto
qed simp

definition parse_json_path :: "string \<Rightarrow> (dlp_error, string list) result" where
  "parse_json_path raw =
     (case strip_prefix (trim raw) ''$'' of
        None \<Rightarrow> Err PathWithoutDollar
      | Some rest \<Rightarrow> if rest = [] then Err PathEmpty else path_loop [] rest)"

definition dlp_field_parse :: "string \<Rightarrow> string \<Rightarrow> (dlp_error, dlp_field) result" where
  "dlp_field_parse path det =
     result_bind (detector_parse det) (\<lambda>d.
     result_bind (parse_json_path path) (\<lambda>segs.
       Ok \<lparr>segments = segs, field_detector = d, field_raw = trim path\<rparr>))"

section \<open>Hits\<close>

record hits =
  hits_cpf :: nat
  hits_cnpj :: nat
  hits_card :: nat
  hits_bearer :: nat
  hits_fields :: "string list"

definition no_hits :: hits where
  "no_hits = \<lparr>hits_cpf = 0, hits_cnpj = 0, hits_card = 0, hits_bearer = 0, hits_fields = []\<rparr>"

definition hits_add :: "hits \<Rightarrow> hits \<Rightarrow> hits" where
  "hits_add a b =
     \<lparr>hits_cpf = hits_cpf a + hits_cpf b, hits_cnpj = hits_cnpj a + hits_cnpj b,
      hits_card = hits_card a + hits_card b, hits_bearer = hits_bearer a + hits_bearer b,
      hits_fields = hits_fields a @ hits_fields b\<rparr>"

fun bump_detector :: "detector \<Rightarrow> hits \<Rightarrow> hits" where
  "bump_detector Cpf h = h\<lparr>hits_cpf := hits_cpf h + 1\<rparr>"
| "bump_detector Cnpj h = h\<lparr>hits_cnpj := hits_cnpj h + 1\<rparr>"
| "bump_detector Card h = h\<lparr>hits_card := hits_card h + 1\<rparr>"

definition hits_any :: "hits \<Rightarrow> bool" where
  "hits_any h \<longleftrightarrow> 0 < hits_cpf h \<or> 0 < hits_cnpj h \<or> 0 < hits_card h \<or> 0 < hits_bearer h"

record dlp_result =
  result_bytes :: string
  inspection_complete :: bool
  result_hits :: hits

definition passthrough :: "string \<Rightarrow> bool \<Rightarrow> dlp_result" where
  "passthrough body complete = \<lparr>result_bytes = body, inspection_complete = complete, result_hits = no_hits\<rparr>"

definition found_sensitive :: "dlp_result \<Rightarrow> bool" where
  "found_sensitive r = hits_any (result_hits r)"

section \<open>Masking text\<close>

text \<open>
  What a regular expression finds in a text: each unmatched piece with the match behind it,
  and the rest. \<open>replace_all\<close> keeps the pieces and replaces the matches.
\<close>

type_synonym pieces = "(string \<times> string) list \<times> string"

definition replace_all :: "(string \<Rightarrow> string) \<Rightarrow> pieces \<Rightarrow> string" where
  "replace_all f ps = concat (map (\<lambda>p. fst p @ f (snd p)) (fst ps)) @ snd ps"

record dlp_regexes =
  cpf_re :: "string \<Rightarrow> pieces"
  cnpj_re :: "string \<Rightarrow> pieces"
  bearer_re :: "string \<Rightarrow> pieces"
  ct_lowercase :: "string \<Rightarrow> string"

definition mask_if :: "(nat list \<Rightarrow> bool) \<Rightarrow> string \<Rightarrow> string" where
  "mask_if valid matched = (if valid (digits_only matched) then mask_digits matched else matched)"

definition count_valid :: "(nat list \<Rightarrow> bool) \<Rightarrow> pieces \<Rightarrow> nat" where
  "count_valid valid ps = length (filter (\<lambda>p. valid (digits_only (snd p))) (fst ps))"

text \<open>The digits at the front of a text, with single separators between digits.\<close>

fun card_run :: "string \<Rightarrow> string" where
  "card_run [] = []"
| "card_run (c # r) =
     (if is_ascii_digit c \<or> ((c = CHR '' '' \<or> c = CHR ''-'') \<and> r \<noteq> [] \<and> is_ascii_digit (hd r))
      then c # card_run r else [])"

text \<open>
  The longest prefix of a run whose digits are a card: \<open>seen\<close> are the digits so far, \<open>k\<close> the
  bytes walked. A card must not be followed by another digit of the run.
\<close>

fun best_loop :: "nat list \<Rightarrow> nat option \<Rightarrow> nat \<Rightarrow> string \<Rightarrow> nat option" where
  "best_loop seen best k [] = best"
| "best_loop seen best k (c # r) =
     (if is_ascii_digit c then
        (let seen' = seen @ [byte_of c - 48]; n = length seen';
             best' = (if 13 \<le> n \<and> n \<le> 19 \<and> card_valid seen' \<and> (r = [] \<or> \<not> is_ascii_digit (hd r))
                      then Some (k + 1) else best)
         in best_loop seen' best' (k + 1) r)
      else if c = CHR '' '' \<or> c = CHR ''-'' then best_loop seen best (k + 1) r
      else best)"

definition best_card_end :: "string \<Rightarrow> nat option" where
  "best_card_end run = best_loop [] None 0 run"

definition is_json_number_token :: "string \<Rightarrow> string \<Rightarrow> string \<Rightarrow> bool" where
  "is_json_number_token before pan after =
     (if \<not> list_all is_ascii_digit pan then False
      else
        let b = trim_end before; a = trim_start after
        in b \<noteq> [] \<and> last b \<in> {CHR '':'', CHR ''['', CHR '',''} \<and>
           (a = [] \<or> hd a \<in> {CHR '','', CHR ''}'', CHR '']''}))"

lemma best_loop_range: "best_loop seen best k r = Some e \<Longrightarrow> best = Some e \<or> k < e \<and> e \<le> k + length r"
  by (induction r arbitrary: seen best k) (force simp: Let_def split: if_splits)+

lemma best_card_end_range: "best_card_end run = Some e \<Longrightarrow> 0 < e \<and> e \<le> length run"
  using best_loop_range [of "[]" None 0 run e] by (simp add: best_card_end_def)

lemma length_card_run: "length (card_run s) \<le> length s"
  by (induction s rule: card_run.induct) auto

text \<open>\<open>before\<close> is the text behind the scan, of which the quoting decision looks at the end.\<close>

function mask_cards_from :: "bool \<Rightarrow> string \<Rightarrow> string \<Rightarrow> string \<times> nat" where
  "mask_cards_from json_body before [] = ([], 0)"
| "mask_cards_from json_body before (c # r) =
     (if \<not> is_ascii_digit c then
        (let (out, n) = mask_cards_from json_body (before @ [c]) r in (c # out, n))
      else
        let text = c # r; run = card_run text
        in case best_card_end run of
             Some e \<Rightarrow>
               (let pan = take e text; rest = drop e text;
                    quote = json_body \<and> is_json_number_token before pan rest;
                    q = (if quote then [CHR 0x22] else []);
                    (out, n) = mask_cards_from json_body (before @ pan) rest
                in (q @ mask_digits pan @ q @ out, n + 1))
           | None \<Rightarrow>
               (let rest = drop (length run) text;
                    (out, n) = mask_cards_from json_body (before @ run) rest
                in (run @ out, n)))"
  by pat_completeness auto
termination
  by (relation "measure (\<lambda>(j, b, s). length s)") (auto dest: best_card_end_range)

definition mask_cards :: "string \<Rightarrow> bool \<Rightarrow> string \<times> nat" where
  "mask_cards text json_body = mask_cards_from json_body [] text"

definition redact_blob :: "dlp_regexes \<Rightarrow> string \<Rightarrow> bool \<Rightarrow> string \<times> hits" where
  "redact_blob rx text json_body =
     (let cpfs = cpf_re rx text;
          after_cpf = replace_all (mask_if cpf_valid) cpfs;
          cnpjs = cnpj_re rx after_cpf;
          after_cnpj = replace_all (mask_if cnpj_valid) cnpjs;
          (after_card, card_count) = mask_cards after_cnpj json_body;
          bearers = bearer_re rx after_card
      in (replace_all (\<lambda>_. ''Bearer [REDACTED]'') bearers,
          \<lparr>hits_cpf = count_valid cpf_valid cpfs, hits_cnpj = count_valid cnpj_valid cnpjs,
           hits_card = card_count, hits_bearer = length (fst bearers), hits_fields = []\<rparr>))"

section \<open>Fields\<close>

text \<open>\<open>navigate_mut\<close> as reading the target and as storing into it; keys of a map are unique.\<close>

fun navigate :: "json_value \<Rightarrow> string list \<Rightarrow> json_value option" where
  "navigate v [] = Some v"
| "navigate (Object ms) (k # ks) = (case map_of ms k of Some v \<Rightarrow> navigate v ks | None \<Rightarrow> None)"
| "navigate v (k # ks) = None"

fun store_at :: "json_value \<Rightarrow> string list \<Rightarrow> json_value \<Rightarrow> json_value" where
  "store_at v [] new = new"
| "store_at (Object ms) (k # ks) new =
     (case map_of ms k of Some v \<Rightarrow> Object (AList.update k (store_at v ks new) ms) | None \<Rightarrow> Object ms)"
| "store_at v (k # ks) new = v"

fun scalar_text :: "json_value \<Rightarrow> string option" where
  "scalar_text (String s) = Some s"
| "scalar_text (Number n) = Some n"
| "scalar_text _ = None"

fun apply_fields :: "dlp_action \<Rightarrow> dlp_field list \<Rightarrow> json_value \<Rightarrow> json_value \<times> hits \<times> bool" where
  "apply_fields action [] v = (v, no_hits, False)"
| "apply_fields action (field # fs) v =
     (case Option.bind (navigate v (segments field)) scalar_text of
        None \<Rightarrow> apply_fields action fs v
      | Some raw \<Rightarrow>
          if \<not> detector_matches (field_detector field) raw then apply_fields action fs v
          else
            let redact = (action = Redact);
                v' = (if redact then store_at v (segments field) (String (mask_digits raw)) else v);
                (w, h, mutated) = apply_fields action fs v'
            in (w, hits_add (bump_detector (field_detector field) no_hits\<lparr>hits_fields := [field_raw field]\<rparr>) h,
                redact \<or> mutated))"

section \<open>Whole bodies\<close>

definition dlp_is_json :: "string option \<Rightarrow> bool" where
  "dlp_is_json ct =
     (case ct of
        None \<Rightarrow> False
      | Some c \<Rightarrow>
          (let mime = to_ascii_lowercase (trim (first_piece CHR '';'' c))
           in mime = ''application/json'' \<or> ends_with mime ''+json''))"

definition binary_type :: "string \<Rightarrow> bool" where
  "binary_type ct \<longleftrightarrow>
     starts_with ct ''image/'' \<or> starts_with ct ''video/'' \<or> starts_with ct ''audio/'' \<or>
     starts_with ct ''application/octet-stream'' \<or> starts_with ct ''application/pdf'' \<or>
     starts_with ct ''application/zip'' \<or> starts_with ct ''application/gzip''"

definition streaming_type :: "string \<Rightarrow> bool" where
  "streaming_type ct \<longleftrightarrow>
     starts_with ct ''text/event-stream'' \<or> starts_with ct ''application/grpc'' \<or>
     starts_with ct ''application/x-ndjson'' \<or> starts_with ct ''application/json-seq'' \<or>
     starts_with ct ''application/stream+json''"

datatype skip = Disabled | Streaming | Binary | UnsupportedResponseEncoding

definition skip_reason :: "bool \<Rightarrow> string option \<Rightarrow> string option \<Rightarrow> skip option" where
  "skip_reason is_enabled ct ce =
     (if \<not> is_enabled then Some Disabled
      else
        let t = map_option to_ascii_lowercase ct;
            e = to_ascii_lowercase (trim (unwrap_or ce []))
        in if t \<noteq> None \<and> streaming_type (the t) then Some Streaming
           else if t \<noteq> None \<and> binary_type (the t) then Some Binary
           else if e \<in> set [[], ''identity'', ''gzip'', ''x-gzip'', ''deflate'', ''br'', ''brotli'', ''x-br''] then None
           else Some UnsupportedResponseEncoding)"

record dlp_libs =
  regexes :: dlp_regexes
  json_parse :: "string \<Rightarrow> json_value option"
  json_print :: "json_value \<Rightarrow> string option"
  gunzip :: "string \<Rightarrow> read_event list"
  inflate :: "string \<Rightarrow> read_event list"
  unbrotli :: "string \<Rightarrow> read_event list"
  gzip :: "string \<Rightarrow> string option"
  deflate :: "string \<Rightarrow> string option"
  brotli_compress :: "string \<Rightarrow> string option"

text \<open>The text after field redaction, and the hits of the fields.\<close>

definition redact_fields ::
    "dlp_libs \<Rightarrow> string \<Rightarrow> string option \<Rightarrow> dlp_action \<Rightarrow> dlp_field list \<Rightarrow> string \<times> hits" where
  "redact_fields lib text ct action fs =
     (if fs \<noteq> [] \<and> dlp_is_json ct then
        (case json_parse lib text of
           None \<Rightarrow> (text, no_hits)
         | Some v \<Rightarrow>
             (let (w, h, mutated) = apply_fields action fs v
              in (if mutated then unwrap_or (json_print lib w) text else text, h)))
      else (text, no_hits))"

definition sanitize_body_with ::
    "dlp_libs \<Rightarrow> bool \<Rightarrow> string \<Rightarrow> string option \<Rightarrow> dlp_action \<Rightarrow> dlp_field list \<Rightarrow> dlp_result" where
  "sanitize_body_with lib is_enabled body ct action fs =
     (if \<not> is_enabled then passthrough body True
      else if ct \<noteq> None \<and> binary_type (ct_lowercase (regexes lib) (the ct)) then passthrough body True
      else if \<not> utf8_valid body then passthrough body True
      else
        let (working, field_hits) = redact_fields lib body ct action fs;
            (redacted, blob_hits) = redact_blob (regexes lib) working (dlp_is_json ct)
        in \<lparr>result_bytes = (case action of Redact \<Rightarrow> redacted | _ \<Rightarrow> body), inspection_complete = True,
            result_hits = hits_add field_hits blob_hits\<rparr>)"

definition read_bounded :: "read_event list \<Rightarrow> nat \<Rightarrow> string option" where
  "read_bounded reader limit =
     (case read_loop (min (limit + 1) usize_max) reader [] of
        None \<Rightarrow> None
      | Some out \<Rightarrow> if limit < length out then None else Some out)"

definition decode_body :: "dlp_libs \<Rightarrow> string \<Rightarrow> string \<Rightarrow> nat \<Rightarrow> string option" where
  "decode_body lib enc body limit =
     (if enc = ''gzip'' \<or> enc = ''x-gzip'' then read_bounded (gunzip lib body) limit
      else if enc = ''deflate'' then read_bounded (inflate lib body) limit
      else if enc = ''br'' \<or> enc = ''brotli'' \<or> enc = ''x-br'' then read_bounded (unbrotli lib body) limit
      else None)"

definition encode_body :: "dlp_libs \<Rightarrow> string \<Rightarrow> string \<Rightarrow> string option" where
  "encode_body lib enc body =
     (if enc = ''gzip'' \<or> enc = ''x-gzip'' then gzip lib body
      else if enc = ''deflate'' then deflate lib body
      else if enc = ''br'' \<or> enc = ''brotli'' \<or> enc = ''x-br'' then brotli_compress lib body
      else None)"

definition sanitize_encoded_body_with ::
    "dlp_libs \<Rightarrow> bool \<Rightarrow> string \<Rightarrow> string option \<Rightarrow> string option \<Rightarrow> nat \<Rightarrow> dlp_action \<Rightarrow> dlp_field list \<Rightarrow>
     dlp_result" where
  "sanitize_encoded_body_with lib is_enabled body ct ce max_inflated_bytes action fs =
     (let enc = to_ascii_lowercase (trim (unwrap_or ce []))
      in if enc = [] \<or> enc = ''identity'' then sanitize_body_with lib is_enabled body ct action fs
         else (case decode_body lib enc body max_inflated_bytes of
                 None \<Rightarrow> passthrough body False
               | Some decoded \<Rightarrow>
                   (let inspected = sanitize_body_with lib is_enabled decoded ct action fs
                    in if result_bytes inspected = decoded then
                         inspected\<lparr>result_bytes := body, inspection_complete := True\<rparr>
                       else (case encode_body lib enc (result_bytes inspected) of
                               Some out \<Rightarrow> inspected\<lparr>result_bytes := out, inspection_complete := True\<rparr>
                             | None \<Rightarrow> inspected\<lparr>result_bytes := body, inspection_complete := False\<rparr>))))"

section \<open>Card masking\<close>





lemma card_scan_induct [case_names Nil other card run]:
  assumes "P []" and "\<And>c r. \<not> is_ascii_digit c \<Longrightarrow> P r \<Longrightarrow> P (c # r)"
    and "\<And>c r e. is_ascii_digit c \<Longrightarrow> best_card_end (card_run (c # r)) = Some e \<Longrightarrow>
      P (drop e (c # r)) \<Longrightarrow> P (c # r)"
    and "\<And>c r. is_ascii_digit c \<Longrightarrow> best_card_end (card_run (c # r)) = None \<Longrightarrow>
      P (drop (length (card_run (c # r))) (c # r)) \<Longrightarrow> P (c # r)"
  shows "P s"
proof (induction s rule: length_induct)
  case (1 s)
  show ?case
  proof (cases s)
    case (Cons c r)
    then show ?thesis
    proof (cases "is_ascii_digit c")
      case True
      show ?thesis
      proof (cases "best_card_end (card_run (c # r))")
        case None
        with True 1 assms(4) Cons show ?thesis by simp
      next
        case (Some e)
        with best_card_end_range True 1 assms(3) Cons show ?thesis by fastforce
      qed
    qed (use 1 assms(2) in simp)
  qed (use assms(1) in simp)
qed

lemma card_run_split: "card_run s @ drop (length (card_run s)) s = s"
  by (induction s rule: card_run.induct) auto




lemma not_digit_mask [simp]: "\<not> is_ascii_digit (mask_digit c)"
  by (simp add: mask_digit_def is_ascii_digit_def)





lemma mask_cards_none: "snd (mask_cards_from j b s) = 0 \<Longrightarrow> fst (mask_cards_from j b s) = s"
proof (induction s arbitrary: b rule: card_scan_induct)
  case (run c r)
  with card_run_split [of "c # r"] show ?case by (simp add: Let_def split_beta)
qed (simp_all add: Let_def split_beta)

section \<open>Field redaction\<close>

definition field_clean :: "detector \<Rightarrow> json_value \<Rightarrow> string list \<Rightarrow> bool" where
  "field_clean d v q =
     (case Option.bind (navigate v q) scalar_text of Some raw \<Rightarrow> \<not> detector_matches d raw | None \<Rightarrow> True)"

lemma digits_only_mask: "digits_only (mask_digits raw) = []"
proof -
  have "filter is_ascii_digit (map mask_digit raw) = []" by (simp add: filter_empty_conv)
  then show ?thesis by (simp add: digits_only_def mask_digits_def)
qed

lemma masked_never_matches: "\<not> detector_matches d (mask_digits raw)"
  by (cases d) (simp_all add: detector_matches_def digits_only_mask cpf_valid_def cnpj_valid_def card_valid_def)

lemma store_keeps_clean:
  "Option.bind (navigate v p) scalar_text = Some raw \<Longrightarrow> field_clean d v q \<or> q = p \<Longrightarrow>
     field_clean d (store_at v p (String (mask_digits raw))) q"
proof (induction v p arbitrary: q rule: navigate.induct)
  case (1 v)
  then show ?case by (cases q) (simp_all add: field_clean_def masked_never_matches)
next
  case (2 ms k ks)
  then obtain v' where v': "map_of ms k = Some v'" by (auto split: option.splits)
  show ?case
  proof (cases q)
    case Nil
    with v' show ?thesis by (simp add: field_clean_def)
  next
    case (Cons k' qs)
    show ?thesis
    proof (cases "k' = k")
      case True
      have "field_clean d v' qs \<or> qs = ks"
        using 2(3) v' Cons True by (auto simp: field_clean_def)
      with 2(1) [OF v'] 2(2) v' Cons True show ?thesis
        by (simp add: field_clean_def update_conv)
    next
      case False
      with 2(3) v' Cons show ?thesis by (simp add: field_clean_def update_conv)
    qed
  qed
qed simp_all

lemma apply_fields_keeps_clean:
  "field_clean d v q \<Longrightarrow> field_clean d (fst (apply_fields Redact fs v)) q"
proof (induction fs arbitrary: v)
  case (Cons f fs)
  show ?case
  proof (cases "Option.bind (navigate v (segments f)) scalar_text")
    case None
    with Cons show ?thesis by simp
  next
    case (Some raw)
    with Cons store_keeps_clean [OF Some, of d q] show ?thesis by (simp add: Let_def split_beta)
  qed
qed simp

lemma apply_fields_clean:
  "f \<in> set fs \<Longrightarrow> field_clean (field_detector f) (fst (apply_fields Redact fs v)) (segments f)"
proof (induction fs arbitrary: v)
  case (Cons g fs)
  show ?case
  proof (cases "f = g")
    case False
    then have "f \<in> set fs" using Cons.prems by simp
    with Cons.IH show ?thesis by (simp add: Let_def split_beta split: option.splits)
  next
    case True
    show ?thesis
    proof (cases "Option.bind (navigate v (segments g)) scalar_text")
      case None
      then have "field_clean (field_detector g) v (segments g)" by (simp add: field_clean_def)
      with None True apply_fields_keeps_clean show ?thesis by simp
    next
      case (Some raw)
      show ?thesis
      proof (cases "detector_matches (field_detector g) raw")
        case False
        with Some have "field_clean (field_detector g) v (segments g)" by (simp add: field_clean_def)
        with Some False True apply_fields_keeps_clean show ?thesis by simp
      next
        case m: True
        from store_keeps_clean [OF Some] have
          "field_clean (field_detector g) (store_at v (segments g) (String (mask_digits raw))) (segments g)" by blast
        with Some m True apply_fields_keeps_clean show ?thesis by (simp add: Let_def split_beta)
      qed
    qed
  qed
qed simp

section \<open>Responses without findings\<close>

text \<open>Documented behaviour of a search: the pieces and the matches put together are the text.\<close>

definition pieces_of :: "(string \<Rightarrow> pieces) \<Rightarrow> bool" where
  "pieces_of re \<longleftrightarrow> (\<forall>s. replace_all (\<lambda>m. m) (re s) = s)"

lemma replace_all_none:
  assumes "pieces_of re" and "count_valid valid (re s) = 0"
  shows "replace_all (mask_if valid) (re s) = s"
proof -
  have "mask_if valid (snd p) = snd p" if "p \<in> set (fst (re s))" for p
    using assms(2) that by (auto simp: count_valid_def mask_if_def filter_empty_conv)
  then have "replace_all (mask_if valid) (re s) = replace_all (\<lambda>m. m) (re s)"
    by (simp add: replace_all_def cong: map_cong)
  with assms(1) show ?thesis by (simp add: pieces_of_def)
qed

lemma replace_all_no_match:
  assumes "pieces_of re" and "fst (re s) = []"
  shows "replace_all f (re s) = s"
proof -
  have "replace_all (\<lambda>m. m) (re s) = s" using assms(1) by (simp add: pieces_of_def)
  with assms(2) show ?thesis by (simp add: replace_all_def)
qed

lemma redact_blob_none:
  assumes "pieces_of (cpf_re rx)" "pieces_of (cnpj_re rx)" "pieces_of (bearer_re rx)"
    and "\<not> hits_any (snd (redact_blob rx s j))"
  shows "fst (redact_blob rx s j) = s"
proof -
  let ?a = "replace_all (mask_if cpf_valid) (cpf_re rx s)"
  let ?b = "replace_all (mask_if cnpj_valid) (cnpj_re rx ?a)"
  let ?c = "fst (mask_cards ?b j)"
  have h: "count_valid cpf_valid (cpf_re rx s) = 0" "count_valid cnpj_valid (cnpj_re rx ?a) = 0"
    "snd (mask_cards ?b j) = 0" "fst (bearer_re rx ?c) = []"
    using assms(4) by (simp_all add: redact_blob_def Let_def split_beta hits_any_def)
  have "?a = s" using assms(1) h(1) by (rule replace_all_none)
  moreover have "?b = ?a" using assms(2) h(2) by (rule replace_all_none)
  moreover have "?c = ?b" using mask_cards_none h(3) by (simp add: mask_cards_def)
  moreover have "replace_all (\<lambda>_. ''Bearer [REDACTED]'') (bearer_re rx ?c) = ?c"
    using assms(3) h(4) by (rule replace_all_no_match)
  ultimately show ?thesis by (simp add: redact_blob_def Let_def split_beta)
qed

lemma hits_any_add: "hits_any (hits_add a b) \<longleftrightarrow> hits_any a \<or> hits_any b"
  by (auto simp: hits_any_def hits_add_def)

lemma apply_fields_mutated: "snd (snd (apply_fields action fs v)) \<Longrightarrow> hits_any (fst (snd (apply_fields action fs v)))"
proof (induction fs arbitrary: v)
  case (Cons f fs)
  have "hits_any ((bump_detector d h)\<lparr>hits_fields := l\<rparr>)" for d h l by (cases d) (simp_all add: hits_any_def)
  with Cons show ?case by (auto simp: Let_def split_beta hits_any_add split: option.splits if_splits)
qed simp

lemma redact_fields_none:
  "\<not> hits_any (snd (redact_fields lib s ct action fs)) \<Longrightarrow> fst (redact_fields lib s ct action fs) = s"
  using apply_fields_mutated [of action fs]
  by (auto simp: redact_fields_def Let_def split_beta split: option.splits if_splits)

lemma sanitize_body_changes:
  assumes "pieces_of (cpf_re (regexes lib))" "pieces_of (cnpj_re (regexes lib))" "pieces_of (bearer_re (regexes lib))"
    and "result_bytes (sanitize_body_with lib en body ct action fs) \<noteq> body"
  shows "action = Redact \<and> hits_any (result_hits (sanitize_body_with lib en body ct action fs))"
proof -
  let ?f = "redact_fields lib body ct action fs"
  let ?b = "redact_blob (regexes lib) (fst ?f) (dlp_is_json ct)"
  from assms(4) have r: "action = Redact" "fst ?b \<noteq> body"
    "result_hits (sanitize_body_with lib en body ct action fs) = hits_add (snd ?f) (snd ?b)"
    by (auto simp: sanitize_body_with_def passthrough_def Let_def split_beta split: if_splits dlp_action.splits)
  have "hits_any (snd ?f) \<or> hits_any (snd ?b)"
  proof (rule ccontr)
    assume "\<not> (hits_any (snd ?f) \<or> hits_any (snd ?b))"
    then have "fst ?f = body" "fst ?b = fst ?f"
      using redact_fields_none redact_blob_none [OF assms(1-3)] by blast+
    with r(2) show False by simp
  qed
  with r show ?thesis by (simp add: hits_any_add)
qed

section \<open>The Luhn sum\<close>

lemma luhn_value_inj:
  assumes "d < 10" "d' < 10" "d \<noteq> d'"
  shows "luhn_value b d mod 10 \<noteq> luhn_value b d' mod 10"
  using assms by (auto simp: luhn_value_def) presburger+

lemma luhn_loop_update:
  "i < length ds \<Longrightarrow>
     luhn_loop b s (ds[i := d]) + luhn_value (if even i then b else \<not> b) (ds ! i) =
     luhn_loop b s ds + luhn_value (if even i then b else \<not> b) d"
proof (induction b s ds arbitrary: i rule: luhn_loop.induct)
  case (2 b s x ds)
  have shift: "luhn_loop b' (s' + n) xs = luhn_loop b' s' xs + n" for b' s' n xs
    by (induction xs arbitrary: b' s' n) (simp_all add: add.assoc add.commute [of n])
  show ?case
  proof (cases i)
    case 0
    then show ?thesis by (simp add: shift)
  next
    case (Suc j)
    with "2.prems" have "j < length ds" by simp
    from "2.IH" [OF this] Suc show ?thesis by (cases "even j") simp_all
  qed
qed simp

lemma luhn_update:
  assumes "luhn ds" and "i < length ds" and "ds ! i < 10" "d < 10" "d \<noteq> ds ! i"
  shows "\<not> luhn (ds[i := d])"
proof
  assume valid: "luhn (ds[i := d])"
  define k where "k = length ds - i - 1"
  define b where "b = (if even k then False else \<not> False)"
  have k: "k < length (rev ds)" "rev ds ! k = ds ! i" "rev (ds[i := d]) = (rev ds)[k := d]"
    using assms(2) by (simp_all add: k_def rev_nth rev_update)
  have "luhn_loop False 0 (rev (ds[i := d])) + luhn_value b (ds ! i) = luhn_loop False 0 (rev ds) + luhn_value b d"
    using luhn_loop_update [OF k(1), of False 0 d] unfolding k b_def .
  moreover have "luhn_loop False 0 (rev (ds[i := d])) mod 10 = 0" "luhn_loop False 0 (rev ds) mod 10 = 0"
    using valid assms(1) by (simp_all add: luhn_def)
  ultimately have "luhn_value b (ds ! i) mod 10 = luhn_value b d mod 10"
    by (metis add_0 mod_add_left_eq)
  with luhn_value_inj [OF assms(3,4)] assms(5) show False by metis
qed

section \<open>Theorems\<close>


text \<open>C29. Redaction leaves no configured field with a value its detector recognises, whatever
  the document, even where one field path is a prefix of another.\<close>

theorem redacted_fields_clean:
  assumes "f \<in> set fs"
  shows "case Option.bind (navigate (fst (apply_fields Redact fs v)) (segments f)) scalar_text of
           Some raw \<Rightarrow> \<not> detector_matches (field_detector f) raw
         | None \<Rightarrow> True"
  using apply_fields_clean [OF assms, of v] by (simp add: field_clean_def)

theorem redacted_fields_clean_witness:
  "let f = \<lparr>segments = [''pan''], field_detector = Card, field_raw = ''$.pan''\<rparr>;
       v = Object [(''pan'', Number ''4222222222222'')]
   in fst (apply_fields Redact [f] v) = Object [(''pan'', String ''*************'')] \<and>
      (case Option.bind (navigate (fst (apply_fields Redact [f] v)) (segments f)) scalar_text of
         Some raw \<Rightarrow> \<not> detector_matches (field_detector f) raw
       | None \<Rightarrow> True)"
proof -
  let ?f = "\<lparr>segments = [''pan''], field_detector = Card, field_raw = ''$.pan''\<rparr>"
  let ?v = "Object [(''pan'', Number ''4222222222222'')]"
  have "fst (apply_fields Redact [?f] ?v) = Object [(''pan'', String ''*************'')]" by code_simp
  with redacted_fields_clean [of ?f "[?f]" ?v] show ?thesis by (simp add: Let_def)
qed

text \<open>A response body is only ever replaced in redact mode, after sensitive data was found
  in a completely inspected body. In monitor and block mode, without a hit, and where the body
  cannot be decoded within the limit or encoded again, the client's bytes are the origin's.\<close>

theorem body_changes_only_to_redact:
  assumes "pieces_of (cpf_re (regexes lib))" "pieces_of (cnpj_re (regexes lib))" "pieces_of (bearer_re (regexes lib))"
    and "result_bytes (sanitize_encoded_body_with lib en body ct ce limit action fs) \<noteq> body"
  shows "action = Redact \<and>
    found_sensitive (sanitize_encoded_body_with lib en body ct ce limit action fs) \<and>
    inspection_complete (sanitize_encoded_body_with lib en body ct ce limit action fs)"
proof -
  have complete: "inspection_complete (sanitize_body_with lib en b ct action fs)" for b
    by (simp add: sanitize_body_with_def passthrough_def Let_def split_beta)
  show ?thesis
    using assms(4) sanitize_body_changes [OF assms(1-3), of en _ ct action fs] complete
    by (auto simp: sanitize_encoded_body_with_def found_sensitive_def passthrough_def Let_def
        split: option.splits if_splits)
qed

definition no_match :: "string \<Rightarrow> pieces" where
  "no_match s = ([], s)"

definition plain_libs :: dlp_libs where
  "plain_libs =
     \<lparr>regexes = \<lparr>cpf_re = no_match, cnpj_re = no_match, bearer_re = no_match, ct_lowercase = to_ascii_lowercase\<rparr>,
      json_parse = (\<lambda>_. None), json_print = (\<lambda>_. None), gunzip = (\<lambda>s. [Data s]), inflate = (\<lambda>_. []),
      unbrotli = (\<lambda>_. []), gzip = Some, deflate = Some, brotli_compress = Some\<rparr>"

theorem body_changes_only_to_redact_witness:
  "let r = sanitize_encoded_body_with plain_libs True ''pan 4222222222222'' (Some ''text/plain'') None 99 Redact []
   in result_bytes r = ''pan *************'' \<and> found_sensitive r \<and> inspection_complete r"
proof -
  let ?r = "sanitize_encoded_body_with plain_libs True ''pan 4222222222222'' (Some ''text/plain'') None 99 Redact []"
  have p: "pieces_of no_match" by (simp add: pieces_of_def no_match_def replace_all_def)
  have r: "result_bytes ?r = ''pan *************''" by code_simp
  then have "result_bytes ?r \<noteq> ''pan 4222222222222''" by simp
  with body_changes_only_to_redact [of plain_libs True "''pan 4222222222222''" "Some ''text/plain''" None 99 Redact "[]"] p r
  show ?thesis by (simp add: plain_libs_def Let_def)
qed

text \<open>The Luhn check notices every error in a single digit.\<close>

theorem luhn_detects_single_error:
  assumes "luhn ds" and "i < length ds" and "ds ! i < 10" and "d < 10" and "d \<noteq> ds ! i"
  shows "\<not> luhn (ds[i := d])"
  using assms by (rule luhn_update)

theorem luhn_detects_single_error_witness:
  "luhn [4, 2, 2, 2, 2, 2, 2, 2, 2, 2, 2, 2, 2] \<and> \<not> luhn [4, 2, 2, 7, 2, 2, 2, 2, 2, 2, 2, 2, 2]"
proof -
  let ?ds = "[4, 2, 2, 2, 2, 2, 2, 2, 2, 2, 2, 2, 2] :: nat list"
  have l: "luhn ?ds" by (simp add: luhn_def luhn_value_def)
  with luhn_detects_single_error [of ?ds 3 7] show ?thesis by simp
qed

text \<open>A card behind another digit group is part of that group's run and stays.\<close>

lemma card_behind_digit_stays:
  "mask_cards ''1 4222222222222'' False = (''1 4222222222222'', 0) \<and>
   mask_cards ''4222222222222'' False = (''*************'', 1)"
  by code_simp

text \<open>A body that is not UTF-8 counts as inspected.\<close>

lemma undecodable_text_counts_as_inspected:
  "\<not> utf8_valid body \<Longrightarrow> sanitize_body_with lib en body ct action fs = passthrough body True"
  by (simp add: sanitize_body_with_def)

end
