(* ===== verification/Spool.thy ===== *)
theory Spool
  imports Assoc_Maps
begin

text \<open>
  The request spool, \<open>src/src/spool.rs\<close>: the byte and file budgets, the handle that keeps a
  body in memory or in a file, inspection, replay, drop and the preparation of the directory.
  The runtime carries the files of the directory by path. What the operating system answers
  to a call is an argument of the operation that makes the call. Metrics are left out, as is
  the mode of the files.
\<close>

section \<open>Budgets\<close>

abbreviation MEMORY_CEILING :: nat where "MEMORY_CEILING \<equiv> 262144"
abbreviation DEFAULT_MAX_BYTES :: nat where "DEFAULT_MAX_BYTES \<equiv> 536870912"
abbreviation DEFAULT_MAX_FILES :: nat where "DEFAULT_MAX_FILES \<equiv> 256"
abbreviation REPLAY_CHUNK :: nat where "REPLAY_CHUNK \<equiv> 65536"

datatype spool_error = Overflow | Budget | Files | NotConfigured | Io

fun is_overflow :: "spool_error \<Rightarrow> bool" where
  "is_overflow Overflow = True"
| "is_overflow _ = False"

fun is_capacity :: "spool_error \<Rightarrow> bool" where
  "is_capacity Budget = True"
| "is_capacity Files = True"
| "is_capacity NotConfigured = True"
| "is_capacity _ = False"

text \<open>The atomic counters wrap on subtraction, as \<open>fetch_sub\<close> does.\<close>

definition usize_fetch_sub :: "nat \<Rightarrow> nat \<Rightarrow> nat" where
  "usize_fetch_sub a n = (a + (usize_max + 1) - n) mod (usize_max + 1)"

record spool_runtime =
  spool_dir :: "string option"
  bytes_current :: nat
  bytes_max :: nat
  files_current :: nat
  files_max :: nat
  file_seq :: nat
  disk :: "(string \<times> string) list"

definition bytes_reserve :: "nat \<Rightarrow> spool_runtime \<Rightarrow> spool_runtime option" where
  "bytes_reserve n rt =
     (let next = bytes_current rt + n
      in if next \<le> usize_max \<and> next \<le> bytes_max rt then Some (rt\<lparr>bytes_current := next\<rparr>) else None)"

definition bytes_release :: "nat \<Rightarrow> spool_runtime \<Rightarrow> spool_runtime" where
  "bytes_release n rt = (if 0 < n then rt\<lparr>bytes_current := usize_fetch_sub (bytes_current rt) n\<rparr> else rt)"

definition files_acquire :: "spool_runtime \<Rightarrow> spool_runtime option" where
  "files_acquire rt =
     (if files_current rt < files_max rt then Some (rt\<lparr>files_current := files_current rt + 1\<rparr>) else None)"

definition files_release :: "spool_runtime \<Rightarrow> spool_runtime" where
  "files_release rt = rt\<lparr>files_current := usize_fetch_sub (files_current rt) 1\<rparr>"

section \<open>Runtime\<close>

definition env_usize :: "(string \<Rightarrow> string option) \<Rightarrow> string \<Rightarrow> nat \<Rightarrow> nat" where
  "env_usize env name dflt =
     unwrap_or (opt_filter (\<lambda>v. 0 < v) (Option.bind (env name) (parse_uint usize_max))) dflt"

definition dir_from_env :: "(string \<Rightarrow> string option) \<Rightarrow> string" where
  "dir_from_env env =
     unwrap_or (opt_filter (\<lambda>v. v \<noteq> []) (map_option trim (env ''SPOOL_DIR''))) ''/var/lib/ferroada/spool''"

definition spool_off :: spool_runtime where
  "spool_off =
     \<lparr>spool_dir = None, bytes_current = 0, bytes_max = DEFAULT_MAX_BYTES,
      files_current = 0, files_max = DEFAULT_MAX_FILES, file_seq = 1, disk = []\<rparr>"

definition spool_from_config :: "(string \<Rightarrow> string option) \<Rightarrow> bool \<Rightarrow> spool_runtime" where
  "spool_from_config env has_spool_routes =
     (if \<not> has_spool_routes then spool_off
      else spool_off\<lparr>spool_dir := Some (dir_from_env env),
             bytes_max := env_usize env ''SPOOL_MAX_BYTES'' DEFAULT_MAX_BYTES,
             files_max := env_usize env ''SPOOL_MAX_FILES'' DEFAULT_MAX_FILES\<rparr>)"

definition path_join :: "string \<Rightarrow> string \<Rightarrow> string" where
  "path_join dir name = (if dir = [] \<or> last dir = CHR ''/'' then dir @ name else dir @ CHR ''/'' # name)"

definition unique_spool_path :: "string \<Rightarrow> nat \<Rightarrow> nat \<Rightarrow> nat \<Rightarrow> string" where
  "unique_spool_path dir seq pid nanos =
     path_join dir (''spool-'' @ nat_to_string pid @ ''-'' @ nat_to_string seq @ ''-'' @ nat_to_string nanos)"

section \<open>Handles\<close>

text \<open>A file-backed body has its path, the cursor of the open file and the bytes read for inspection.\<close>

datatype spool_storage =
  Memory string
| File (file_path: string) (cursor: nat) (inspected: "string option")

record spool_handle =
  storage :: spool_storage
  handle_len :: nat
  handle_max :: nat
  replay_at :: nat
  replay_done :: bool
  reserved :: nat
  holds_file_slot :: bool

definition handle_new :: "nat \<Rightarrow> spool_handle" where
  "handle_new m =
     \<lparr>storage = Memory [], handle_len = 0, handle_max = m, replay_at = 0, replay_done = False,
      reserved = 0, holds_file_slot = False\<rparr>"

text \<open>
  What a write does: every byte reaches the file; or the call reports success and only a prefix
  reaches it, as a write that completes in the background may; or it fails after a prefix.
\<close>

datatype write_result = Wrote | Deferred nat | WriteFailed nat

fun written :: "write_result \<Rightarrow> string \<Rightarrow> string" where
  "written Wrote chunk = chunk"
| "written (Deferred k) chunk = take k chunk"
| "written (WriteFailed k) chunk = take k chunk"

fun write_ok :: "write_result \<Rightarrow> bool" where
  "write_ok (WriteFailed k) = False"
| "write_ok _ = True"

definition contents :: "spool_runtime \<Rightarrow> string \<Rightarrow> string" where
  "contents rt path = unwrap_or (map_of (disk rt) path) []"

definition write_at :: "string \<Rightarrow> nat \<Rightarrow> string \<Rightarrow> spool_runtime \<Rightarrow> spool_runtime" where
  "write_at path pos chunk rt =
     (let old = contents rt path
      in rt\<lparr>disk := AList.update path (take pos old @ chunk @ drop (pos + length chunk) old) (disk rt)\<rparr>)"

definition remove_file :: "bool \<Rightarrow> string \<Rightarrow> spool_runtime \<Rightarrow> spool_runtime" where
  "remove_file removed path rt = (if removed then rt\<lparr>disk := AList.delete path (disk rt)\<rparr> else rt)"

record push_io =
  io_pid :: nat
  io_nanos :: nat
  io_open :: bool
  io_existing :: write_result
  io_extra :: write_result
  io_removed :: bool

definition spill_to_file ::
    "push_io \<Rightarrow> string \<Rightarrow> spool_handle \<Rightarrow> spool_runtime \<Rightarrow>
     (spool_error, unit) result \<times> spool_handle \<times> spool_runtime" where
  "spill_to_file io extra h rt =
     (case spool_dir rt of
        None \<Rightarrow> (Err NotConfigured, h, rt)
      | Some dir \<Rightarrow>
          (case files_acquire rt of
             None \<Rightarrow> (Err Files, h, rt)
           | Some rt1 \<Rightarrow>
               (let path = unique_spool_path dir (file_seq rt1) (io_pid io) (io_nanos io);
                    rt2 = rt1\<lparr>file_seq := (file_seq rt1 + 1) mod (u64_max + 1)\<rparr>
                in if \<not> io_open io \<or> map_of (disk rt2) path \<noteq> None then (Err Io, h\<lparr>holds_file_slot := False\<rparr>, files_release rt2)
                   else
                     let rt3 = rt2\<lparr>disk := AList.update path [] (disk rt2)\<rparr>;
                         existing = (case storage h of Memory buf \<Rightarrow> buf | File p c i \<Rightarrow> []);
                         first = written (io_existing io) existing;
                         rt4 = write_at path 0 first rt3
                     in if \<not> write_ok (io_existing io) then
                          (Err Io, h\<lparr>holds_file_slot := False\<rparr>, files_release (remove_file (io_removed io) path rt4))
                        else
                          let second = written (io_extra io) extra;
                              rt5 = write_at path (length first) second rt4
                          in if \<not> write_ok (io_extra io) then
                               (Err Io, h\<lparr>holds_file_slot := False\<rparr>, files_release (remove_file (io_removed io) path rt5))
                             else (Ok (),
                               h\<lparr>storage := File path (length first + length second) None,
                                 handle_len := handle_len h + length extra, holds_file_slot := True\<rparr>, rt5))))"

definition spills :: "spool_storage \<Rightarrow> string \<Rightarrow> bool" where
  "spills st chunk =
     (case st of Memory buf \<Rightarrow> MEMORY_CEILING < length buf + length chunk | File p c i \<Rightarrow> False)"

definition push ::
    "push_io \<Rightarrow> string \<Rightarrow> spool_handle \<Rightarrow> spool_runtime \<Rightarrow>
     (spool_error, unit) result \<times> spool_handle \<times> spool_runtime" where
  "push io chunk h rt =
     (let next = handle_len h + length chunk
      in if chunk = [] then (Ok (), h, rt)
         else if usize_max < next \<or> handle_max h < next then (Err Overflow, h, rt)
         else (case bytes_reserve (length chunk) rt of
                 None \<Rightarrow> (Err Budget, h, rt)
               | Some rt1 \<Rightarrow>
                   (let h1 = h\<lparr>reserved := reserved h + length chunk\<rparr>
                    in if spills (storage h1) chunk then spill_to_file io chunk h1 rt1
                       else (case storage h1 of
                               Memory buf \<Rightarrow> (Ok (), h1\<lparr>storage := Memory (buf @ chunk), handle_len := next\<rparr>, rt1)
                             | File path pos insp \<Rightarrow>
                                 (let w = written (io_extra io) chunk; rt2 = write_at path pos w rt1
                                  in if write_ok (io_extra io)
                                     then (Ok (), h1\<lparr>storage := File path (pos + length w) None, handle_len := next\<rparr>, rt2)
                                     else (Err Io, h1\<lparr>storage := File path (pos + length w) insp\<rparr>, rt2))))))"

text \<open>
  For inspection the file is read from the start to its end; \<open>Some k\<close> is an error after \<open>k\<close> bytes.
\<close>

record read_io =
  io_seek :: bool
  io_read_error :: "nat option"

definition inspect_bytes ::
    "read_io \<Rightarrow> spool_handle \<Rightarrow> spool_runtime \<Rightarrow> (spool_error, string) result \<times> spool_handle" where
  "inspect_bytes io h rt =
     (case storage h of
        Memory buf \<Rightarrow> (Ok buf, h)
      | File path pos insp \<Rightarrow>
          (case insp of
             Some buf \<Rightarrow> (Ok buf, h)
           | None \<Rightarrow>
               if \<not> io_seek io then (Err Io, h)
               else (case io_read_error io of
                       Some k \<Rightarrow> (Err Io, h\<lparr>storage := File path (min k (length (contents rt path))) None\<rparr>)
                     | None \<Rightarrow>
                         (let buf = contents rt path
                          in (Ok buf, h\<lparr>storage := File path (length buf) (Some buf)\<rparr>)))))"

text \<open>
  A read fills at most the buffer and may return less, but returns nothing only at the end of
  the file. \<open>io_want\<close> is how much this read returns where it can, \<open>None\<close> an error.
\<close>

record replay_io =
  io_rewind :: bool
  io_want :: "nat option"

definition read_some :: "nat \<Rightarrow> nat \<Rightarrow> string \<Rightarrow> string" where
  "read_some want cap rest = take (if rest = [] then 0 else max 1 (min want cap)) rest"

definition next_replay_chunk ::
    "replay_io \<Rightarrow> spool_handle \<Rightarrow> spool_runtime \<Rightarrow> (spool_error, string option) result \<times> spool_handle" where
  "next_replay_chunk io h rt =
     (if replay_done h then (Ok None, h)
      else case storage h of
        Memory buf \<Rightarrow> (Ok (if buf = [] then None else Some buf), h\<lparr>replay_done := True\<rparr>)
      | File path pos insp \<Rightarrow>
          (let h1 = h\<lparr>storage := File path pos None\<rparr>
           in if replay_at h = 0 \<and> \<not> io_rewind io then (Err Io, h1)
              else
                let at = (if replay_at h = 0 then 0 else pos);
                    h2 = h1\<lparr>storage := File path at None\<rparr>;
                    cap = min REPLAY_CHUNK (max (handle_len h - replay_at h) 1)
                in (case io_want io of
                      None \<Rightarrow> (Err Io, h2)
                    | Some want \<Rightarrow>
                        (let buf = read_some want cap (drop at (contents rt path))
                         in if buf = [] then (Ok None, h2\<lparr>replay_done := True\<rparr>)
                            else (Ok (Some buf),
                              h2\<lparr>storage := File path (at + length buf) None, replay_at := replay_at h + length buf,
                                 replay_done := (handle_len h \<le> replay_at h + length buf)\<rparr>)))))"

definition handle_drop :: "bool \<Rightarrow> spool_handle \<Rightarrow> spool_runtime \<Rightarrow> spool_runtime" where
  "handle_drop removed h rt =
     (let rt1 = bytes_release (reserved h) rt;
          rt2 = (if holds_file_slot h then files_release rt1 else rt1)
      in (case storage h of File path pos insp \<Rightarrow> remove_file removed path rt2 | Memory buf \<Rightarrow> rt2))"

section \<open>Preparing the directory\<close>

datatype dir_status = IsDir | NotDir | Missing | Unreadable

datatype prepare_error = ExistsButNotDir | DirMissing | DirUnreadable | NotDedicated | TypeUnreadable | NotAFile | RemoveFailed

record dir_entry =
  entry_name :: string
  entry_is_file :: "bool option"
  entry_removable :: bool

text \<open>The result and the entries that are left; \<open>None\<close> is an entry, or its type, that cannot be read.\<close>

fun wipe_entries :: "dir_entry option list \<Rightarrow> (prepare_error, unit) result \<times> dir_entry option list" where
  "wipe_entries [] = (Ok (), [])"
| "wipe_entries (None # es) = (Err DirUnreadable, None # es)"
| "wipe_entries (Some e # es) =
     (if \<not> starts_with (entry_name e) ''spool-'' then (Err NotDedicated, Some e # es)
      else (case entry_is_file e of
              None \<Rightarrow> (Err TypeUnreadable, Some e # es)
            | Some False \<Rightarrow> (Err NotAFile, Some e # es)
            | Some True \<Rightarrow> if \<not> entry_removable e then (Err RemoveFailed, Some e # es) else wipe_entries es))"

definition prepare ::
    "dir_status \<Rightarrow> bool \<Rightarrow> dir_entry option list \<Rightarrow> (prepare_error, unit) result \<times> dir_entry option list" where
  "prepare st listable entries =
     (case st of
        IsDir \<Rightarrow> if listable then wipe_entries entries else (Err DirUnreadable, entries)
      | NotDir \<Rightarrow> (Err ExistsButNotDir, entries)
      | Missing \<Rightarrow> (Err DirMissing, entries)
      | Unreadable \<Rightarrow> (Err DirUnreadable, entries))"

definition boot ::
    "bool \<Rightarrow> dir_status \<Rightarrow> bool \<Rightarrow> dir_entry option list \<Rightarrow>
     (prepare_error, unit) result \<times> dir_entry option list" where
  "boot has_spool_routes st listable entries =
     (if \<not> has_spool_routes then (Ok (), entries) else prepare st listable entries)"

section \<open>All handles of a process\<close>

text \<open>
  Beside each handle stands the body pushed into it, as long as every write reached the file
  whole and no call failed. Pushes and inspections come before the replay, the order of
  \<open>request_filter\<close> and \<open>request_body_filter\<close> in \<open>src/src/proxy.rs\<close>.
\<close>

type_synonym spooled = "spool_handle \<times> string option"

definition after_push ::
    "push_io \<Rightarrow> string \<Rightarrow> spool_handle \<Rightarrow> (spool_error, unit) result \<Rightarrow> string option \<Rightarrow> string option" where
  "after_push io chunk h r g =
     (case r of
        Ok u \<Rightarrow>
          if chunk \<noteq> [] \<and>
             (spills (storage h) chunk \<and> io_existing io \<noteq> Wrote \<or>
              (spills (storage h) chunk \<or> (\<exists>p c i. storage h = File p c i)) \<and> io_extra io \<noteq> Wrote)
          then None else map_option (\<lambda>d. d @ chunk) g
      | Err e \<Rightarrow> if \<exists>p c i. storage h = File p c i \<and> e = Io then None else g)"

definition after_read :: "(spool_error, 'a) result \<Rightarrow> string option \<Rightarrow> string option" where
  "after_read r g = (case r of Ok a \<Rightarrow> g | Err e \<Rightarrow> None)"

definition fresh :: "spool_handle \<Rightarrow> bool" where
  "fresh h \<longleftrightarrow> replay_at h = 0 \<and> \<not> replay_done h"

inductive spool_step :: "spool_runtime \<times> spooled list \<Rightarrow> spool_runtime \<times> spooled list \<Rightarrow> bool" where
  New: "spool_step (rt, as @ [] @ bs) (rt, as @ [(handle_new m, Some [])] @ bs)"
| Push: "push io chunk h rt = (r, h', rt') \<Longrightarrow> fresh h \<Longrightarrow>
    spool_step (rt, as @ [(h, g)] @ bs) (rt', as @ [(h', after_push io chunk h r g)] @ bs)"
| Inspect: "inspect_bytes ri h rt = (ri', h') \<Longrightarrow> fresh h \<Longrightarrow>
    spool_step (rt, as @ [(h, g)] @ bs) (rt, as @ [(h', after_read ri' g)] @ bs)"
| Replay: "next_replay_chunk pi h rt = (pr, h') \<Longrightarrow>
    spool_step (rt, as @ [(h, g)] @ bs) (rt, as @ [(h', after_read pr g)] @ bs)"
| Drop: "spool_step (rt, as @ [(h, g)] @ bs) (handle_drop removed h rt, as @ [] @ bs)"

section \<open>The accounting invariant\<close>

definition own_paths :: "spooled \<Rightarrow> string list" where
  "own_paths x = (case storage (fst x) of File p c i \<Rightarrow> [p] | Memory buf \<Rightarrow> [])"

abbreviation paths :: "spooled list \<Rightarrow> string list" where
  "paths xs \<equiv> concat (map own_paths xs)"

definition total_reserved :: "spooled list \<Rightarrow> nat" where
  "total_reserved xs = sum_list (map (reserved \<circ> fst) xs)"

definition slots :: "spooled list \<Rightarrow> nat" where
  "slots xs = length (filter (holds_file_slot \<circ> fst) xs)"

lemma totals_simps [simp]:
  "total_reserved [] = 0" "total_reserved (x # xs) = reserved (fst x) + total_reserved xs"
  "total_reserved (xs @ ys) = total_reserved xs + total_reserved ys"
  "slots [] = 0" "slots (x # xs) = (if holds_file_slot (fst x) then 1 else 0) + slots xs"
  "slots (xs @ ys) = slots xs + slots ys"
  by (simp_all add: total_reserved_def slots_def)

text \<open>
  A handle agrees with the disk: a body in memory is the body pushed, a body in a file is the
  content of the file, which exists as long as the handle does.
\<close>

definition file_ok :: "spool_runtime \<Rightarrow> spool_handle \<Rightarrow> nat \<Rightarrow> string \<Rightarrow> string option \<Rightarrow> string \<Rightarrow> bool" where
  "file_ok rt h pos path insp d \<longleftrightarrow>
     map_of (disk rt) path = Some d \<and> handle_len h = length d \<and> (insp = None \<or> insp = Some d) \<and>
     replay_at h \<le> length d \<and> (fresh h \<longrightarrow> pos = length d) \<and> (0 < replay_at h \<longrightarrow> pos = replay_at h)"

definition handle_ok :: "spool_runtime \<Rightarrow> spooled \<Rightarrow> bool" where
  "handle_ok rt x \<longleftrightarrow> handle_len (fst x) \<le> handle_max (fst x) \<and>
     (case storage (fst x) of
        Memory buf \<Rightarrow> \<not> holds_file_slot (fst x) \<and> handle_len (fst x) = length buf \<and>
          length buf \<le> MEMORY_CEILING \<and> (snd x = None \<or> snd x = Some buf)
      | File p c i \<Rightarrow> holds_file_slot (fst x) \<and> map_of (disk rt) p \<noteq> None \<and>
          (\<forall>d. snd x = Some d \<longrightarrow> file_ok rt (fst x) c p i d))"

definition within_budget :: "spool_runtime \<Rightarrow> bool" where
  "within_budget rt \<longleftrightarrow>
     bytes_current rt \<le> bytes_max rt \<and> bytes_current rt \<le> usize_max \<and>
     files_current rt \<le> files_max rt \<and> files_max rt \<le> usize_max"

fun spool_inv :: "spool_runtime \<times> spooled list \<Rightarrow> bool" where
  "spool_inv (rt, xs) \<longleftrightarrow>
     within_budget rt \<and> bytes_current rt = total_reserved xs \<and> files_current rt = slots xs \<and>
     distinct (paths xs) \<and> list_all (handle_ok rt) xs"

text \<open>What an operation on the handles \<open>xs\<close> has to show so that all the others are unaffected.\<close>

definition local_step :: "spool_runtime \<Rightarrow> spooled list \<Rightarrow> spool_runtime \<Rightarrow> spooled list \<Rightarrow> bool" where
  "local_step rt xs rt' ys \<longleftrightarrow>
     bytes_current rt' + total_reserved xs = bytes_current rt + total_reserved ys \<and>
     files_current rt' + slots xs = files_current rt + slots ys \<and> within_budget rt' \<and>
     (\<forall>p. map_of (disk rt) p \<noteq> None \<longrightarrow> p \<notin> set (paths xs) \<longrightarrow> map_of (disk rt') p = map_of (disk rt) p) \<and>
     distinct (paths ys) \<and> (\<forall>p \<in> set (paths ys). p \<in> set (paths xs) \<or> map_of (disk rt) p = None) \<and>
     list_all (handle_ok rt') ys"

lemma handle_ok_frame:
  assumes "handle_ok rt x" and "\<And>p. p \<in> set (own_paths x) \<Longrightarrow> map_of (disk rt') p = map_of (disk rt) p"
  shows "handle_ok rt' x"
  using assms by (auto simp: handle_ok_def own_paths_def file_ok_def split: spool_storage.splits)

lemma handle_ok_path: "handle_ok rt x \<Longrightarrow> p \<in> set (own_paths x) \<Longrightarrow> map_of (disk rt) p \<noteq> None"
  by (auto simp: handle_ok_def own_paths_def split: spool_storage.splits)

lemma handle_ok_slot: "handle_ok rt x \<Longrightarrow> holds_file_slot (fst x) \<longleftrightarrow> (\<exists>p c i. storage (fst x) = File p c i)"
  by (cases "storage (fst x)") (simp_all add: handle_ok_def)

lemma local_step_inv:
  assumes inv: "spool_inv (rt, as @ xs @ bs)" and st: "local_step rt xs rt' ys"
  shows "spool_inv (rt', as @ ys @ bs)"
proof -
  have okz: "\<forall>z \<in> set as \<union> set bs. handle_ok rt z"
    using inv by (auto simp only: spool_inv.simps list_all_iff set_append)
  then have "\<forall>p \<in> set (paths as) \<union> set (paths bs). map_of (disk rt) p \<noteq> None"
    using handle_ok_path by fastforce
  moreover have "(set (paths as) \<union> set (paths bs)) \<inter> set (paths xs) = {}" using inv by auto
  ultimately have other: "\<forall>p \<in> set (paths as) \<union> set (paths bs). map_of (disk rt) p \<noteq> None \<and> p \<notin> set (paths xs)"
    by blast
  with st have "\<forall>p \<in> set (paths as) \<union> set (paths bs). map_of (disk rt') p = map_of (disk rt) p"
    unfolding local_step_def by blast
  then have "\<forall>z \<in> set as \<union> set bs. \<forall>p \<in> set (own_paths z). map_of (disk rt') p = map_of (disk rt) p" by auto
  with okz have ok: "\<forall>z \<in> set as \<union> set bs. handle_ok rt' z" using handle_ok_frame [of rt] by blast
  have "set (paths ys) \<inter> set (paths as) = {}" "set (paths ys) \<inter> set (paths bs) = {}"
    using st other unfolding local_step_def by blast+
  moreover have "distinct (paths as)" "distinct (paths bs)" "set (paths as) \<inter> set (paths bs) = {}" "distinct (paths ys)"
    using inv st by (auto simp: local_step_def)
  ultimately have "distinct (paths (as @ ys @ bs))" by auto
  moreover have "list_all (handle_ok rt') (as @ ys @ bs)"
    using ok st by (auto simp: local_step_def list_all_iff simp del: split_paired_All)
  ultimately show ?thesis using inv st by (simp add: local_step_def)
qed

lemma usize_fetch_sub_eq:
  assumes "n \<le> a" and "a \<le> usize_max"
  shows "usize_fetch_sub a n = a - n"
proof -
  have "a + (usize_max + 1) - n = (a - n) + (usize_max + 1)" using assms(1) by linarith
  moreover have "a - n < usize_max + 1" using assms(2) by linarith
  ultimately show ?thesis unfolding usize_fetch_sub_def by (metis mod_add_self2 mod_less)
qed

lemma write_at_simps [simp]:
  "bytes_current (write_at p k c rt) = bytes_current rt" "files_current (write_at p k c rt) = files_current rt"
  "bytes_max (write_at p k c rt) = bytes_max rt" "files_max (write_at p k c rt) = files_max rt"
  "within_budget (write_at p k c rt) = within_budget rt"
  "map_of (disk (write_at p k c rt)) =
     (map_of (disk rt))(p \<mapsto> take k (contents rt p) @ c @ drop (k + length c) (contents rt p))"
  by (simp_all add: write_at_def Let_def AList.update_conv' within_budget_def)

lemma remove_file_simps [simp]:
  "bytes_current (remove_file b p rt) = bytes_current rt" "files_current (remove_file b p rt) = files_current rt"
  "within_budget (remove_file b p rt) = within_budget rt"
  "map_of (disk (remove_file b p rt)) = (if b then (map_of (disk rt))(p := None) else map_of (disk rt))"
  by (simp_all add: remove_file_def AList.delete_conv' within_budget_def)

lemma contents_Some [simp]: "map_of (disk rt) p = Some d \<Longrightarrow> contents rt p = d"
  by (simp add: contents_def)

lemma files_release_step:
  assumes "within_budget rt" and "0 < files_current rt"
  shows "files_current (files_release rt) = files_current rt - 1" "within_budget (files_release rt)"
    "bytes_current (files_release rt) = bytes_current rt" "disk (files_release rt) = disk rt"
  using assms usize_fetch_sub_eq [of 1 "files_current rt"] by (auto simp: files_release_def within_budget_def)

lemma bytes_release_step:
  assumes "within_budget rt" and "n \<le> bytes_current rt"
  shows "bytes_current (bytes_release n rt) = bytes_current rt - n" "within_budget (bytes_release n rt)"
    "files_current (bytes_release n rt) = files_current rt" "disk (bytes_release n rt) = disk rt"
  using assms usize_fetch_sub_eq [of n "bytes_current rt"] by (auto simp: bytes_release_def within_budget_def)

text \<open>Dropping a handle gives back exactly what it holds.\<close>

lemma drop_local:
  assumes "within_budget rt" and "reserved h \<le> bytes_current rt" and "holds_file_slot h \<Longrightarrow> 0 < files_current rt"
  shows "local_step rt [(h, g)] (handle_drop removed h rt) []"
proof -
  define rt1 where "rt1 = bytes_release (reserved h) rt"
  note r1 = bytes_release_step [OF assms(1,2), folded rt1_def]
  define rt2 where "rt2 = (if holds_file_slot h then files_release rt1 else rt1)"
  have r2: "bytes_current rt2 + reserved h = bytes_current rt" "within_budget rt2" "disk rt2 = disk rt"
    "files_current rt2 + (if holds_file_slot h then 1 else 0) = files_current rt"
    using r1 assms(2,3) files_release_step [of rt1] by (auto simp: rt2_def)
  have "handle_drop removed h rt = (case storage h of File p c i \<Rightarrow> remove_file removed p rt2 | Memory buf \<Rightarrow> rt2)"
    unfolding handle_drop_def rt2_def rt1_def Let_def by (rule refl)
  with r2 show ?thesis by (auto simp: local_step_def own_paths_def split: spool_storage.splits)
qed

text \<open>Reading never changes the runtime, so only the handle itself has to stay in order.\<close>

lemma read_local:
  assumes "within_budget rt" and "handle_ok rt (h', g')"
    and "reserved h' = reserved h" "holds_file_slot h' = holds_file_slot h"
    and "own_paths (h', g') = own_paths (h, g)"
  shows "local_step rt [(h, g)] rt [(h', g')]"
proof -
  have "distinct (own_paths (h', g'))" by (simp add: own_paths_def split: spool_storage.split)
  with assms show ?thesis by (simp add: local_step_def)
qed

lemma inspect_local:
  assumes "within_budget rt" and "handle_ok rt (h, g)" and "fresh h" and "inspect_bytes io h rt = (r, h')"
  shows "local_step rt [(h, g)] rt [(h', after_read r g)]"
proof (rule read_local [OF assms(1)])
  show "handle_ok rt (h', after_read r g)"
    using assms(2-4)
    by (auto simp: Let_def inspect_bytes_def handle_ok_def after_read_def file_ok_def fresh_def
        split: spool_storage.splits option.splits if_splits)
  show "reserved h' = reserved h" "holds_file_slot h' = holds_file_slot h"
    "own_paths (h', after_read r g) = own_paths (h, g)"
    using assms(4)
    by (auto simp: Let_def inspect_bytes_def own_paths_def split: spool_storage.splits option.splits if_splits)
qed

lemma read_some_length: "length (read_some w cap rest) \<le> length rest"
  by (simp add: read_some_def)

lemma replay_file:
  assumes "storage h = File path pos insp" and "\<not> replay_done h"
  defines "start \<equiv> if replay_at h = 0 then 0 else pos"
  defines "cap \<equiv> min REPLAY_CHUNK (max (handle_len h - replay_at h) 1)"
  shows "next_replay_chunk io h rt =
    (if replay_at h = 0 \<and> \<not> io_rewind io then (Err Io, h\<lparr>storage := File path pos None\<rparr>)
     else (case io_want io of
             None \<Rightarrow> (Err Io, h\<lparr>storage := File path start None\<rparr>)
           | Some want \<Rightarrow>
               (let buf = read_some want cap (drop start (contents rt path))
                in if buf = [] then (Ok None, h\<lparr>storage := File path start None, replay_done := True\<rparr>)
                   else (Ok (Some buf), h\<lparr>storage := File path (start + length buf) None,
                     replay_at := replay_at h + length buf, replay_done := (handle_len h \<le> replay_at h + length buf)\<rparr>))))"
  using assms(1,2) unfolding next_replay_chunk_def start_def cap_def
  by (simp add: Let_def split: option.split)

lemma replay_keeps:
  assumes "next_replay_chunk io h rt = (r, h')"
  shows "reserved h' = reserved h" "holds_file_slot h' = holds_file_slot h" "own_paths (h', g') = own_paths (h, g)"
    "handle_len h' = handle_len h" "handle_max h' = handle_max h"
  using assms
  by (auto simp: next_replay_chunk_def own_paths_def Let_def split: spool_storage.splits option.splits if_splits)

lemma replay_file_ok:
  assumes "storage h = File path pos insp" and "\<not> replay_done h" and "file_ok rt h pos path insp d"
    and "next_replay_chunk io h rt = (Ok c, h')"
  obtains pos' where "storage h' = File path pos' None" "file_ok rt h' pos' path None d"
proof -
  define start where "start = (if replay_at h = 0 then 0 else pos)"
  define buf where "buf = read_some (the (io_want io)) (min REPLAY_CHUNK (max (handle_len h - replay_at h) 1)) (drop start d)"
  have d: "contents rt path = d" "start = replay_at h" "replay_at h \<le> length d"
    using assms(3) by (auto simp: file_ok_def start_def)
  have "length buf \<le> length d - replay_at h"
    using read_some_length [of _ _ "drop start d"] by (simp add: buf_def d)
  then have fits: "replay_at h + length buf \<le> length d" using d(3) by simp
  have empty: "buf = [] \<Longrightarrow> h' = h\<lparr>storage := File path start None, replay_done := True\<rparr>"
    and some: "buf \<noteq> [] \<Longrightarrow> h' = h\<lparr>storage := File path (start + length buf) None,
      replay_at := replay_at h + length buf, replay_done := (handle_len h \<le> replay_at h + length buf)\<rparr>"
    using assms(4) unfolding replay_file [OF assms(1,2)] start_def [symmetric] d(1)
    by (auto simp: buf_def Let_def split: if_splits option.splits)
  show thesis
  proof (cases "buf = []")
    case True
    show thesis by (rule that [of start]) (use empty [OF True] assms(3) d in \<open>simp_all add: file_ok_def fresh_def\<close>)
  next
    case False
    show thesis
      by (rule that [of "start + length buf"])
        (use some [OF False] assms(3) d fits False in \<open>simp_all add: file_ok_def fresh_def\<close>)
  qed
qed

lemma replay_local:
  assumes "within_budget rt" and "handle_ok rt (h, g)" and "next_replay_chunk io h rt = (r, h')"
  shows "local_step rt [(h, g)] rt [(h', after_read r g)]"
proof (rule read_local [OF assms(1)])
  show "handle_ok rt (h', after_read r g)"
  proof (cases "replay_done h")
    case True
    with assms(2,3) show ?thesis by (auto simp: next_replay_chunk_def after_read_def)
  next
    case open_: False
    show ?thesis
    proof (cases "storage h")
      case (Memory buf)
      with assms(2,3) open_ show ?thesis
        by (auto simp: next_replay_chunk_def handle_ok_def after_read_def)
    next
      case (File path pos insp)
      have own: "own_paths (h', g) = [path]" "holds_file_slot h'" "map_of (disk rt) path \<noteq> None" "handle_len h' \<le> handle_max h'"
        using replay_keeps(2,4,5) [OF assms(3)] replay_keeps(3) [OF assms(3), of g g] assms(2) File by (auto simp: own_paths_def handle_ok_def)
      then obtain pos' insp' where st: "storage h' = File path pos' insp'"
        by (auto simp: own_paths_def split: spool_storage.splits)
      show ?thesis
      proof (cases "\<exists>c d. r = Ok c \<and> g = Some d")
        case True
        then obtain c d where cd: "r = Ok c" "g = Some d" by blast
        with assms(2) File have "file_ok rt h pos path insp d" by (simp add: handle_ok_def)
        from replay_file_ok [OF File open_ this assms(3) [unfolded cd(1)]]
        show ?thesis using own cd st by (auto simp: handle_ok_def after_read_def)
      next
        case False
        then have "after_read r g = None" by (cases r; cases g) (simp_all add: after_read_def)
        with own st show ?thesis by (simp add: handle_ok_def)
      qed
    qed
  qed
qed (rule replay_keeps [OF assms(3)])+

lemma bytes_reserve_step:
  assumes "bytes_reserve n rt = Some rt1" and "within_budget rt"
  shows "bytes_current rt1 = bytes_current rt + n" "within_budget rt1" "disk rt1 = disk rt"
    "files_current rt1 = files_current rt" "spool_dir rt1 = spool_dir rt"
  using assms by (auto simp: bytes_reserve_def within_budget_def Let_def split: if_splits)

lemma files_acquire_step:
  assumes "files_acquire rt = Some rt1" and "within_budget rt"
  shows "files_current rt1 = files_current rt + 1" "within_budget rt1" "disk rt1 = disk rt"
    "bytes_current rt1 = bytes_current rt"
  using assms by (auto simp: files_acquire_def within_budget_def split: if_splits)

text \<open>Spilling either moves the body to a new file or leaves everything but the disk as it was.\<close>

lemma spill_cases:
  assumes "spill_to_file io extra h rt = (r, h', rt')" and "within_budget rt"
    and "storage h = Memory buf" and "\<not> holds_file_slot h"
  obtains (failed) e where "r = Err e" "h' = h" "bytes_current rt' = bytes_current rt"
      "files_current rt' = files_current rt" "within_budget rt'"
      "\<forall>p. map_of (disk rt) p \<noteq> None \<longrightarrow> map_of (disk rt') p = map_of (disk rt) p"
  | (spilled) path where "r = Ok ()" "map_of (disk rt) path = None" "bytes_current rt' = bytes_current rt"
      "files_current rt' = files_current rt + 1" "within_budget rt'"
      "map_of (disk rt') = (map_of (disk rt))(path \<mapsto> written (io_existing io) buf @ written (io_extra io) extra)"
      "h' = h\<lparr>storage := File path (length (written (io_existing io) buf) + length (written (io_extra io) extra)) None,
          handle_len := handle_len h + length extra, holds_file_slot := True\<rparr>"
proof -
  have h: "h\<lparr>holds_file_slot := False\<rparr> = h" using assms(4) by (cases h) simp
  show thesis
  proof (cases "spool_dir rt = None \<or> files_acquire rt = None")
    case True
    then have "\<exists>e. spill_to_file io extra h rt = (Err e, h, rt)"
      by (auto simp: spill_to_file_def split: option.split)
    then obtain e where "r = Err e" "h' = h" "rt' = rt" using assms(1) by auto
    then show thesis using assms(2) by (intro failed) simp_all
  next
    case False
    then obtain dir rt1 where d: "spool_dir rt = Some dir" "files_acquire rt = Some rt1" by auto
    define path where "path = unique_spool_path dir (file_seq rt1) (io_pid io) (io_nanos io)"
    define rt2 where "rt2 = rt1\<lparr>file_seq := (file_seq rt1 + 1) mod (u64_max + 1)\<rparr>"
    have rt2: "files_current rt2 = files_current rt + 1" "within_budget rt2" "disk rt2 = disk rt"
      "bytes_current rt2 = bytes_current rt"
      using files_acquire_step [OF d(2) assms(2)] by (simp_all add: rt2_def within_budget_def)
    define rt4 where "rt4 = write_at path 0 (written (io_existing io) buf) (rt2\<lparr>disk := AList.update path [] (disk rt2)\<rparr>)"
    define rt5 where "rt5 = write_at path (length (written (io_existing io) buf)) (written (io_extra io) extra) rt4"
    have c4: "map_of (disk rt4) = (map_of (disk rt))(path \<mapsto> written (io_existing io) buf)" "within_budget rt4"
      "files_current rt4 = files_current rt + 1" "bytes_current rt4 = bytes_current rt"
      using rt2 by (simp_all add: rt4_def AList.update_conv' within_budget_def contents_def)
    have c5: "map_of (disk rt5) = (map_of (disk rt))(path \<mapsto> written (io_existing io) buf @ written (io_extra io) extra)"
      "within_budget rt5" "files_current rt5 = files_current rt + 1" "bytes_current rt5 = bytes_current rt"
      using c4 by (simp_all add: rt5_def contents_def)
    have eq: "spill_to_file io extra h rt =
        (if \<not> io_open io \<or> map_of (disk rt2) path \<noteq> None then (Err Io, h, files_release rt2)
         else if \<not> write_ok (io_existing io) then (Err Io, h, files_release (remove_file (io_removed io) path rt4))
         else if \<not> write_ok (io_extra io) then (Err Io, h, files_release (remove_file (io_removed io) path rt5))
         else (Ok (), h\<lparr>storage := File path (length (written (io_existing io) buf) + length (written (io_extra io) extra)) None,
           handle_len := handle_len h + length extra, holds_file_slot := True\<rparr>, rt5))"
      unfolding spill_to_file_def d option.case Let_def path_def [symmetric] rt2_def [symmetric] assms(3)
        spool_storage.case rt4_def [symmetric] rt5_def [symmetric] h ..
    consider "\<not> io_open io \<or> map_of (disk rt2) path \<noteq> None"
      | "io_open io" "map_of (disk rt2) path = None" "\<not> write_ok (io_existing io)"
      | "io_open io" "map_of (disk rt2) path = None" "write_ok (io_existing io)" "\<not> write_ok (io_extra io)"
      | "io_open io" "map_of (disk rt2) path = None" "write_ok (io_existing io)" "write_ok (io_extra io)" by blast
    then show thesis
    proof cases
      case 1
      with eq assms(1) files_release_step [of rt2] rt2 show thesis by (intro failed) auto
    next
      case 2
      with eq assms(1) files_release_step [of "remove_file (io_removed io) path rt4"] rt2 c4
      show thesis by (intro failed) auto
    next
      case 3
      with eq assms(1) files_release_step [of "remove_file (io_removed io) path rt5"] rt2 c5
      show thesis by (intro failed) auto
    next
      case 4
      with eq assms(1) c5 rt2 show thesis by (intro spilled) auto
    qed
  qed
qed


text \<open>A push that reserves bytes: what the handle and the runtime look like after each branch.\<close>

lemma push_reserved_local:
  assumes rt1: "bytes_current rt1 = bytes_current rt + n" "within_budget rt1" "disk rt1 = disk rt"
      "files_current rt1 = files_current rt"
    and ok: "handle_ok rt1 (h\<lparr>reserved := reserved h + n\<rparr>, g')"
  shows "local_step rt [(h, g)] rt1 [(h\<lparr>reserved := reserved h + n\<rparr>, g')]"
  using assms by (auto simp: local_step_def own_paths_def split: spool_storage.splits)

lemma handle_ok_reserved [simp]: "handle_ok rt (h\<lparr>reserved := n\<rparr>, g) = handle_ok rt (h, g)"
  by (simp add: handle_ok_def file_ok_def fresh_def split: spool_storage.split)

lemma push_memory_local:
  assumes "within_budget rt" and "handle_ok rt (h, g)" and "bytes_reserve (length chunk) rt = Some rt1"
    and "storage h = Memory buf" and "length buf + length chunk \<le> MEMORY_CEILING"
    and "handle_len h + length chunk \<le> handle_max h"
  shows "local_step rt [(h, g)] rt1
    [(h\<lparr>reserved := reserved h + length chunk, storage := Memory (buf @ chunk), handle_len := handle_len h + length chunk\<rparr>,
      map_option (\<lambda>d. d @ chunk) g)]"
  using assms bytes_reserve_step [OF assms(3,1)]
  by (auto simp: local_step_def own_paths_def handle_ok_def)

lemma push_file_local:
  assumes "within_budget rt" and "handle_ok rt (h, g)" and "fresh h" and "bytes_reserve (length chunk) rt = Some rt1"
    and "storage h = File path pos insp"
    and h': "h' = h\<lparr>reserved := reserved h + length chunk, storage := File path pos' insp', handle_len := len'\<rparr>"
    and "len' \<le> handle_max h"
    and g': "g' = None \<or> w = chunk \<and> pos' = pos + length chunk \<and> insp' = None \<and>
      len' = handle_len h + length chunk \<and> g' = map_option (\<lambda>d. d @ chunk) g"
  shows "local_step rt [(h, g)] (write_at path pos w rt1) [(h', g')]"
proof -
  note r = bytes_reserve_step [OF assms(4,1)]
  have "handle_ok (write_at path pos w rt1) (h', g')"
    using assms(2,3,5,7) g' by (cases g) (auto simp: handle_ok_def file_ok_def fresh_def h' r)
  with assms(5) r show ?thesis by (auto simp: local_step_def own_paths_def h')
qed

lemma push_spill_local:
  assumes "within_budget rt" and "handle_ok rt (h, g)" and "bytes_reserve (length chunk) rt = Some rt1"
    and "storage h = Memory buf" and "fresh h" and "MEMORY_CEILING < length buf + length chunk"
    and "handle_len h + length chunk \<le> handle_max h"
    and "spill_to_file io chunk (h\<lparr>reserved := reserved h + length chunk\<rparr>) rt1 = (r, h', rt')"
  shows "local_step rt [(h, g)] rt' [(h', after_push io chunk h r g)]"
proof -
  note r1 = bytes_reserve_step [OF assms(3,1)]
  define h1 where "h1 = h\<lparr>reserved := reserved h + length chunk\<rparr>"
  have h1: "storage h1 = Memory buf" "\<not> holds_file_slot h1" "handle_ok rt (h1, g)"
    using assms(2,4) by (auto simp: h1_def handle_ok_def)
  have sp: "spills (storage h) chunk" using assms(4,6) by (simp add: spills_def)
  from assms(8) [folded h1_def] r1(2) h1(1,2) show ?thesis
  proof (cases rule: spill_cases)
    case (failed e)
    have "after_push io chunk h r g = g" using assms(4) by (simp add: after_push_def failed)
    moreover have "handle_ok rt' (h1, g)" using h1 by (auto simp: handle_ok_def)
    ultimately show ?thesis using failed r1 h1 assms(4)
      by (auto simp: local_step_def own_paths_def h1_def)
  next
    case (spilled path)
    have g: "g = None \<or> g = Some buf" "handle_len h = length buf" "\<not> holds_file_slot h"
      using assms(2,4) by (auto simp: handle_ok_def)
    have "chunk \<noteq> [] \<Longrightarrow> after_push io chunk h r g = Some d \<Longrightarrow> io_existing io = Wrote \<and> io_extra io = Wrote \<and> d = buf @ chunk" for d
      using g sp by (auto simp: after_push_def spilled split: if_splits)
    moreover have "chunk \<noteq> []" using assms(6) g assms(2,4) by (auto simp: handle_ok_def)
    ultimately have "handle_ok rt' (h', after_push io chunk h r g)"
      using g assms(5,7) by (auto simp: handle_ok_def file_ok_def fresh_def spilled h1_def)
    with spilled r1 g assms(4) show ?thesis
      by (auto simp: local_step_def own_paths_def h1_def)
  qed
qed


lemma push_local:
  assumes "within_budget rt" and "handle_ok rt (h, g)" and "fresh h" and "push io chunk h rt = (r, h', rt')"
  shows "local_step rt [(h, g)] rt' [(h', after_push io chunk h r g)]"
proof -
  have same: "local_step rt [(h, g)] rt [(h, g)]" by (rule read_local [OF assms(1,2)]) simp_all
  define over where "over \<longleftrightarrow> usize_max < handle_len h + length chunk \<or> handle_max h < handle_len h + length chunk"
  have err: "push io chunk h rt = (Err Overflow, h, rt)" if "chunk \<noteq> []" over
    using that unfolding push_def over_def by (simp add: Let_def)
  have full: "push io chunk h rt = (Err Budget, h, rt)" if "chunk \<noteq> []" "\<not> over" "bytes_reserve (length chunk) rt = None"
    using that unfolding push_def over_def by (simp add: Let_def)
  consider "chunk = []" | e where "push io chunk h rt = (Err e, h, rt)" "e \<noteq> Io"
    | rt1 where "chunk \<noteq> []" "bytes_reserve (length chunk) rt = Some rt1" "\<not> over"
    using err full by (metis option.exhaust spool_error.distinct(7,13))
  then show ?thesis
  proof cases
    case 1
    with assms(4) have "r = Ok ()" "h' = h" "rt' = rt" by (simp_all add: push_def)
    with same 1 show ?thesis by (cases g) (simp_all add: after_push_def)
  next
    case 2
    with assms(4) same show ?thesis by (auto simp: after_push_def)
  next
    case (3 rt1)
    then have fits: "handle_len h + length chunk \<le> handle_max h" by (simp add: over_def)
    show ?thesis
    proof (cases "storage h")
      case (Memory buf)
      show ?thesis
      proof (cases "MEMORY_CEILING < length buf + length chunk")
        case True
        with 3 Memory assms(4) have "spill_to_file io chunk (h\<lparr>reserved := reserved h + length chunk\<rparr>) rt1 = (r, h', rt')"
          by (simp add: push_def spills_def over_def Let_def)
        from push_spill_local [OF assms(1,2) 3(2) Memory assms(3) True fits this] show ?thesis .
      next
        case False
        with 3 Memory assms(4)
        have "r = Ok ()" "rt' = rt1" "h' = h\<lparr>reserved := reserved h + length chunk, storage := Memory (buf @ chunk),
            handle_len := handle_len h + length chunk\<rparr>"
          by (auto simp: push_def spills_def over_def Let_def)
        with push_memory_local [OF assms(1,2) 3(2) Memory _ fits] False Memory show ?thesis
          by (simp add: after_push_def spills_def not_less)
      qed
    next
      case (File path pos insp)
      let ?w = "written (io_extra io) chunk"
      have rt': "rt' = write_at path pos ?w rt1" and r: "r = (if write_ok (io_extra io) then Ok () else Err Io)"
        and h': "h' = h\<lparr>reserved := reserved h + length chunk, storage := File path (pos + length ?w)
            (if write_ok (io_extra io) then None else insp),
          handle_len := (if write_ok (io_extra io) then handle_len h + length chunk else handle_len h)\<rparr>"
        using 3 File assms(4) by (auto simp: push_def spills_def over_def Let_def split: if_splits)
      have "after_push io chunk h r g = None \<or> ?w = chunk \<and> pos + length ?w = pos + length chunk \<and>
          (if write_ok (io_extra io) then None else insp) = None \<and>
          (if write_ok (io_extra io) then handle_len h + length chunk else handle_len h) = handle_len h + length chunk \<and>
          after_push io chunk h r g = map_option (\<lambda>d. d @ chunk) g"
        using 3(1) File by (cases "io_extra io") (simp_all add: r after_push_def spills_def)
      from push_file_local [OF assms(1-3) 3(2) File h' _ this] fits assms(2) show ?thesis by (auto simp: rt' handle_ok_def)
    qed
  qed
qed

lemma spool_step_inv: "spool_step s s' \<Longrightarrow> spool_inv s \<Longrightarrow> spool_inv s'"
proof (induction rule: spool_step.induct)
  case (New rt as bs m)
  then show ?case by (rule local_step_inv) (use New in \<open>simp add: local_step_def handle_new_def handle_ok_def own_paths_def\<close>)
next
  case (Push io chunk h rt r h' rt' as g bs)
  then have "within_budget rt" "handle_ok rt (h, g)" by simp_all
  from Push.prems push_local [OF this Push.hyps(2,1)] show ?case by (rule local_step_inv)
next
  case (Inspect ri h rt ri' h' as g bs)
  then have "within_budget rt" "handle_ok rt (h, g)" by simp_all
  from Inspect.prems inspect_local [OF this Inspect.hyps(2,1)] show ?case by (rule local_step_inv)
next
  case (Replay pi h rt pr h' as g bs)
  then have "within_budget rt" "handle_ok rt (h, g)" by simp_all
  from Replay.prems replay_local [OF this Replay.hyps(1)] show ?case by (rule local_step_inv)
next
  case (Drop rt as h g bs removed)
  then have "local_step rt [(h, g)] (handle_drop removed h rt) []" by (intro drop_local) simp_all
  with Drop.prems show ?case by (rule local_step_inv)
qed


lemma spool_start_inv: "spool_inv (spool_from_config env on, [])"
proof -
  have "env_usize env name d \<le> usize_max" if "d \<le> usize_max" for name d
    using that by (auto simp: env_usize_def unwrap_or_def opt_filter_def dest: from_str_radix_le
        split: option.splits bind_splits if_splits)
  then show ?thesis by (simp add: spool_from_config_def spool_off_def within_budget_def)
qed

lemma spool_reach_inv: "spool_step\<^sup>*\<^sup>* (spool_from_config env on, []) s \<Longrightarrow> spool_inv s"
  by (induction rule: rtranclp_induct) (rule spool_start_inv, rule spool_step_inv)

section \<open>Replay\<close>

text \<open>The chunks that successive calls return, when each read returns as much of its count as it can.\<close>

fun replay_all :: "nat list \<Rightarrow> spool_handle \<Rightarrow> spool_runtime \<Rightarrow> string list \<times> spool_handle" where
  "replay_all [] h rt = ([], h)"
| "replay_all (k # ks) h rt =
     (case next_replay_chunk \<lparr>io_rewind = True, io_want = Some k\<rparr> h rt of
        (Ok (Some c), h') \<Rightarrow> (c # fst (replay_all ks h' rt), snd (replay_all ks h' rt))
      | (_, h') \<Rightarrow> ([], h'))"

lemma read_some_prefix:
  obtains n where "read_some k cap s = take n s" "s \<noteq> [] \<longrightarrow> read_some k cap s \<noteq> []"
  using that [of "if s = [] then 0 else max 1 (min k cap)"] by (simp add: read_some_def)

lemma replay_all_done: "replay_done h \<Longrightarrow> replay_all ks h rt = ([], h)"
  by (cases ks) (simp_all add: next_replay_chunk_def)

lemma replay_file_all:
  assumes "storage h = File path pos insp" and "\<not> replay_done h" and "file_ok rt h pos path insp d"
    and "length d - replay_at h < length ks"
  shows "concat (fst (replay_all ks h rt)) = drop (replay_at h) d \<and> replay_done (snd (replay_all ks h rt))"
  using assms
proof (induction ks arbitrary: h pos insp)
  case (Cons k ks)
  define at where "at = (if replay_at h = 0 then 0 else pos)"
  define buf where "buf = read_some k (min REPLAY_CHUNK (max (handle_len h - replay_at h) 1)) (drop (replay_at h) d)"
  have d: "contents rt path = d" "at = replay_at h" "handle_len h = length d" "replay_at h \<le> length d"
    using Cons.prems(3) by (auto simp: file_ok_def at_def)
  have eq: "next_replay_chunk \<lparr>io_rewind = True, io_want = Some k\<rparr> h rt =
      (if buf = [] then (Ok None, h\<lparr>storage := File path (replay_at h) None, replay_done := True\<rparr>)
       else (Ok (Some buf), h\<lparr>storage := File path (replay_at h + length buf) None,
         replay_at := replay_at h + length buf, replay_done := (length d \<le> replay_at h + length buf)\<rparr>))"
    unfolding replay_file [OF Cons.prems(1,2)] at_def [symmetric] d(1,2) buf_def d(3) by (simp add: Let_def)
  obtain n where n: "buf = take n (drop (replay_at h) d)" "drop (replay_at h) d \<noteq> [] \<longrightarrow> buf \<noteq> []"
    unfolding buf_def by (rule read_some_prefix)
  show ?case
  proof (cases "buf = []")
    case True
    with n eq show ?thesis by (simp del: drop_eq_Nil)
  next
    case False
    define h' where "h' = h\<lparr>storage := File path (replay_at h + length buf) None,
         replay_at := replay_at h + length buf, replay_done := (length d \<le> replay_at h + length buf)\<rparr>"
    have buf: "drop (replay_at h) d = buf @ drop (replay_at h + length buf) d"
      using n(1) by (metis append_take_drop_id drop_drop add.commute length_take take_take drop_take n(1) append_eq_conv_conj)
    show ?thesis
    proof (cases "replay_done h'")
      case True
      with replay_all_done [OF True, of ks rt] False eq buf show ?thesis by (simp add: h'_def)
    next
      case open_: False
      have "0 < length buf" using False by simp
      then have "length d - (replay_at h + length buf) < length ks" "file_ok rt h' (replay_at h + length buf) path None d"
        using Cons.prems(3,4) open_ d by (simp_all add: file_ok_def h'_def fresh_def, linarith)
      then have "file_ok rt h' (replay_at h + length buf) path None d" "length d - replay_at h' < length ks"
        by (simp_all add: h'_def)
      from Cons.IH [OF _ open_ this] have "concat (fst (replay_all ks h' rt)) = drop (replay_at h') d \<and>
          replay_done (snd (replay_all ks h' rt))" by (simp add: h'_def)
      with False eq buf show ?thesis by (simp add: h'_def)
    qed
  qed
qed simp


section \<open>Theorems\<close>

text \<open>C6. Whatever bodies a process spools, in any order of operations and with any input or
  output error: the byte counter is exactly the sum of what live handles reserved and stays
  within its maximum, the file counter is exactly the number of live file-backed handles and
  stays within its maximum, no two handles share a file, and no body is longer than the limit
  of its route. Both counters are zero again once every handle is dropped.\<close>

theorem spool_accounting_exact:
  assumes "spool_step\<^sup>*\<^sup>* (spool_from_config env on, []) (rt, xs)"
  shows "bytes_current rt = sum_list (map (reserved \<circ> fst) xs) \<and> bytes_current rt \<le> bytes_max rt \<and>
    files_current rt = length (filter (\<lambda>x. \<exists>p c i. storage (fst x) = File p c i) xs) \<and>
    files_current rt \<le> files_max rt \<and>
    distinct (concat (map (\<lambda>x. case storage (fst x) of File p c i \<Rightarrow> [p] | Memory buf \<Rightarrow> []) xs)) \<and>
    list_all (\<lambda>x. handle_len (fst x) \<le> handle_max (fst x)) xs"
proof -
  have inv: "spool_inv (rt, xs)" using assms by (rule spool_reach_inv)
  then have "filter (holds_file_slot \<circ> fst) xs = filter (\<lambda>x. \<exists>p c i. storage (fst x) = File p c i) xs"
    using handle_ok_slot by (intro filter_cong refl) (auto simp: list_all_iff)
  moreover have "own_paths = (\<lambda>x. case storage (fst x) of File p c i \<Rightarrow> [p] | Memory buf \<Rightarrow> [])"
    by (rule ext) (simp add: own_paths_def)
  ultimately show ?thesis using inv
    by (auto simp: within_budget_def total_reserved_def slots_def list_all_iff handle_ok_def)
qed

definition quiet_io :: push_io where
  "quiet_io = \<lparr>io_pid = 7, io_nanos = 0, io_open = True, io_existing = Wrote, io_extra = Wrote, io_removed = True\<rparr>"

lemma spool_two_steps:
  assumes n: "length chunk = n" and "0 < n" and "n \<le> MEMORY_CEILING" and "n \<le> m"
  shows "spool_step\<^sup>*\<^sup>* (spool_from_config (\<lambda>_. None) True, [])
    ((spool_from_config (\<lambda>_. None) True)\<lparr>bytes_current := n\<rparr>,
     [((handle_new m)\<lparr>storage := Memory chunk, handle_len := n, reserved := n\<rparr>, Some chunk)])"
proof -
  let ?rt = "spool_from_config (\<lambda>_. None) True"
  have "spool_step (?rt, []) (?rt, [(handle_new m, Some [])])"
    using New [of ?rt "[]" "[]" m] by simp
  moreover have "push quiet_io chunk (handle_new m) ?rt =
      (Ok (), (handle_new m)\<lparr>storage := Memory chunk, handle_len := n, reserved := n\<rparr>,
       ?rt\<lparr>bytes_current := n\<rparr>)"
    using assms by (auto simp: push_def handle_new_def bytes_reserve_def spool_from_config_def spool_off_def env_usize_def
        spills_def Let_def)
  from Push [OF this, of "[]" "Some []" "[]"] assms
  have "spool_step (?rt, [(handle_new m, Some [])])
    (?rt\<lparr>bytes_current := n\<rparr>,
     [((handle_new m)\<lparr>storage := Memory chunk, handle_len := n, reserved := n\<rparr>, Some chunk)])"
    by (auto simp: fresh_def handle_new_def after_push_def spills_def)
  ultimately show ?thesis by (meson converse_rtranclp_into_rtranclp rtranclp.rtrancl_refl)
qed

theorem spool_accounting_exact_witness:
  "spool_step\<^sup>*\<^sup>* (spool_from_config (\<lambda>_. None) True, [])
     ((spool_from_config (\<lambda>_. None) True)\<lparr>bytes_current := 3\<rparr>,
      [((handle_new 9)\<lparr>storage := Memory ''abc'', handle_len := 3, reserved := 3\<rparr>, Some ''abc'')]) \<and>
   bytes_current ((spool_from_config (\<lambda>_. None) True)\<lparr>bytes_current := 3\<rparr>) \<le>
     bytes_max ((spool_from_config (\<lambda>_. None) True)\<lparr>bytes_current := 3\<rparr>)"
proof -
  have r: "spool_step\<^sup>*\<^sup>* (spool_from_config (\<lambda>_. None) True, [])
     ((spool_from_config (\<lambda>_. None) True)\<lparr>bytes_current := 3\<rparr>,
      [((handle_new 9)\<lparr>storage := Memory ''abc'', handle_len := 3, reserved := 3\<rparr>, Some ''abc'')])"
    by (rule spool_two_steps) simp_all
  show ?thesis using r spool_accounting_exact [OF r] by blast
qed

text \<open>C30. What is inspected is what is sent: for a handle every write to which succeeded, whatever
  else the process did, inspection returns exactly the pushed bytes, and replaying in reads of
  any size returns exactly the same bytes and is finished after at most one call more than
  there are bytes.\<close>

theorem spool_replays_what_it_inspects:
  assumes "spool_step\<^sup>*\<^sup>* (spool_from_config env on, []) (rt, as @ [(h, Some d)] @ bs)" and "fresh h"
    and "length d < length ks"
  shows "fst (inspect_bytes \<lparr>io_seek = True, io_read_error = None\<rparr> h rt) = Ok d \<and>
    concat (fst (replay_all ks h rt)) = d \<and> replay_done (snd (replay_all ks h rt))"
proof -
  have ok: "handle_ok rt (h, Some d)" using spool_reach_inv [OF assms(1)] by simp
  show ?thesis
  proof (cases "storage h")
    case (Memory buf)
    with ok assms(2,3) show ?thesis
      by (cases ks) (auto simp: handle_ok_def inspect_bytes_def fresh_def next_replay_chunk_def replay_all_done)
  next
    case (File path pos insp)
    with ok have f: "file_ok rt h pos path insp d" by (simp add: handle_ok_def)
    with File have "fst (inspect_bytes \<lparr>io_seek = True, io_read_error = None\<rparr> h rt) = Ok d"
      by (auto simp: inspect_bytes_def file_ok_def Let_def)
    moreover have "concat (fst (replay_all ks h rt)) = d \<and> replay_done (snd (replay_all ks h rt))"
      using replay_file_all [OF File _ f] assms(2,3) by (simp add: fresh_def)
    ultimately show ?thesis by blast
  qed
qed

theorem spool_replays_what_it_inspects_witness:
  "let rt = (spool_from_config (\<lambda>_. None) True)\<lparr>bytes_current := 3\<rparr>;
       h = (handle_new 9)\<lparr>storage := Memory ''abc'', handle_len := 3, reserved := 3\<rparr>
   in fst (inspect_bytes \<lparr>io_seek = True, io_read_error = None\<rparr> h rt) = Ok ''abc'' \<and>
      concat (fst (replay_all [1, 1, 1, 1] h rt)) = ''abc''"
proof -
  have r: "spool_step\<^sup>*\<^sup>* (spool_from_config (\<lambda>_. None) True, [])
     ((spool_from_config (\<lambda>_. None) True)\<lparr>bytes_current := 3\<rparr>,
      [] @ [((handle_new 9)\<lparr>storage := Memory ''abc'', handle_len := 3, reserved := 3\<rparr>, Some ''abc'')] @ [])"
    using spool_two_steps [of "''abc''" 3 9] by simp
  show ?thesis using spool_replays_what_it_inspects [OF r, of "[1, 1, 1, 1]"]
    by (simp add: Let_def fresh_def handle_new_def)
qed

text \<open>
  A successful boot leaves no entry behind, and a directory with a foreign entry refuses to boot.
\<close>

lemma boot_leaves_clean_directory:
  "fst (boot True st listable es) = Ok () \<Longrightarrow> snd (boot True st listable es) = [] \<and>
     (\<forall>e \<in> set es. \<exists>x. e = Some x \<and> starts_with (entry_name x) ''spool-'')"
proof -
  have "fst (wipe_entries es) = Ok () \<Longrightarrow> snd (wipe_entries es) = [] \<and>
      (\<forall>e \<in> set es. \<exists>x. e = Some x \<and> starts_with (entry_name x) ''spool-'')" for es
    by (induction es rule: wipe_entries.induct) (auto split: if_splits option.splits bool.splits)
  then show "fst (boot True st listable es) = Ok () \<Longrightarrow> ?thesis"
    by (auto simp: boot_def prepare_def split: dir_status.splits if_splits)
qed

text \<open>With a spool route and no \<open>SPOOL_DIR\<close> the spool is on, in the default directory.\<close>

lemma spool_on_without_dir:
  "spool_dir (spool_from_config (\<lambda>_. None) True) = Some ''/var/lib/ferroada/spool''"
  by (simp add: spool_from_config_def dir_from_env_def)

end
