(* ===== verification/Graphql_Parser.thy ===== *)
theory Graphql_Parser
  imports Rust_Utf8
begin

text \<open>
  The GraphQL lexer and parser, \<open>src/src/graphql.rs\<close>. The position in the source is the text
  that is left. The lexer returns that text also when it fails, because \<open>parse_directives\<close>
  goes on after a failed look ahead; everywhere else a failure ends the parse. The recursive
  functions carry fuel, and \<open>Starved\<close> is the result when it runs out: \<open>parse_document\<close>
  gives enough for every source.
\<close>

section \<open>Lexer\<close>

datatype gql_token =
  Name string | IntLit string | FloatLit | StringLit | Bang | Dollar | Amp | ParenL | ParenR | Ellipsis
| Colon | Equals | At | BracketL | BracketR | BraceL | BraceR | Pipe

definition skip_ws_comma :: "string \<Rightarrow> string" where
  "skip_ws_comma s = strip_codes ('','' # white_space) s"

definition after_line :: "string \<Rightarrow> string" where
  "after_line s = drop 1 (dropWhile (\<lambda>c. c \<noteq> CHR 0x0A \<and> c \<noteq> CHR 0x0D) s)"

definition byte_order_mark :: string where
  "byte_order_mark = [CHR 0xEF, CHR 0xBB, CHR 0xBF]"

lemma length_strip_codes: "length (strip_codes codes s) \<le> length s"
  using strip_codes_suffix [of s codes] by (metis length_append le_add2)

function skip_ignored :: "string \<Rightarrow> string" where
  "skip_ignored s =
     (let r = skip_ws_comma s
      in if starts_with r ''#'' then skip_ignored (after_line r)
         else if starts_with r byte_order_mark then skip_ignored (drop 3 r)
         else r)"
  by pat_completeness auto
termination
proof (relation "measure length", goal_cases)
  case (2 s r)
  then obtain t where "r = CHR ''#'' # t" by (auto simp: starts_with_iff)
  moreover have "length (after_line (CHR ''#'' # t)) \<le> length t"
    by (auto simp: after_line_def) (metis diff_le_self le_trans length_dropWhile_le)
  moreover have "length r \<le> length s" using 2 length_strip_codes by (simp add: skip_ws_comma_def)
  ultimately show ?case by simp
next
  case (3 s r)
  then have "length r \<ge> 3" "length r \<le> length s"
    using length_strip_codes by (auto simp: starts_with_iff byte_order_mark_def skip_ws_comma_def)
  then show ?case by simp
qed simp

declare skip_ignored.simps [simp del]

definition is_name_start :: "char \<Rightarrow> bool" where
  "is_name_start c \<longleftrightarrow> is_ascii_alphabetic c \<or> c = CHR ''_''"

definition is_name_char :: "char \<Rightarrow> bool" where
  "is_name_char c \<longleftrightarrow> is_ascii_alphanumeric c \<or> c = CHR ''_''"

definition take_name :: "string \<Rightarrow> string \<times> string" where
  "take_name s = (take 1 s @ takeWhile is_name_char (drop 1 s), dropWhile is_name_char (drop 1 s))"

definition take_number :: "string \<Rightarrow> gql_token option \<times> string" where
  "take_number s =
     (let s1 = (if starts_with s ''-'' then drop 1 s else s);
          digits = takeWhile is_ascii_digit s1;
          s2 = dropWhile is_ascii_digit s1;
          dot = starts_with s2 ''.'';
          frac = drop 1 s2;
          s3 = (if dot then dropWhile is_ascii_digit frac else s2);
          has_exp = starts_with s3 ''e'' \<or> starts_with s3 ''E'';
          signed = drop 1 s3;
          exp = (if starts_with signed ''+'' \<or> starts_with signed ''-'' then drop 1 signed else signed);
          s4 = (if has_exp then dropWhile is_ascii_digit exp else s3)
      in if digits = [] then (None, s1)
         else if dot \<and> takeWhile is_ascii_digit frac = [] then (None, frac)
         else if has_exp \<and> takeWhile is_ascii_digit exp = [] then (None, exp)
         else if dot \<or> has_exp then (Some FloatLit, s4)
         else (Some (IntLit ((if starts_with s ''-'' then ''-'' else []) @ digits)), s4))"

abbreviation quote :: char where "quote \<equiv> CHR 0x22"
abbreviation backslash :: char where "backslash \<equiv> CHR 0x5C"

text \<open>The rest of a block string; \<open>utf8_step\<close> is one \<open>chars().next()\<close>.\<close>

function block_string :: "string \<Rightarrow> bool \<times> string" where
  "block_string s =
     (if s = [] then (False, [])
      else if starts_with s [quote, quote, quote] then (True, drop 3 s)
      else if starts_with s [backslash] then
        (case utf8_step (drop 1 s) of None \<Rightarrow> (False, s) | Some r \<Rightarrow> block_string r)
      else (case utf8_step s of None \<Rightarrow> (False, s) | Some r \<Rightarrow> block_string r))"
  by pat_completeness auto
termination
proof (relation "measure length", goal_cases)
  case (2 s r)
  then have "length r < length (drop 1 s)" by (intro utf8_step_shorter) simp
  then show ?case by simp
next
  case (3 s r)
  then show ?case by (auto dest: utf8_step_shorter)
qed simp

declare block_string.simps [simp del]

text \<open>The four hexadecimal digits of a unicode escape.\<close>

fun hex_digits :: "nat \<Rightarrow> string \<Rightarrow> bool \<times> string" where
  "hex_digits 0 s = (True, s)"
| "hex_digits (Suc k) [] = (False, [])"
| "hex_digits (Suc k) (c # s) = (if to_digit 16 c = None then (False, c # s) else hex_digits k s)"

lemma length_hex_digits: "length (snd (hex_digits k s)) \<le> length s"
  by (induction k s rule: hex_digits.induct) auto

function line_string :: "string \<Rightarrow> bool \<times> string" where
  "line_string [] = (False, [])"
| "line_string (c # s) =
     (if c = quote then (True, s)
      else if c = backslash then
        (case s of
           [] \<Rightarrow> (False, [])
         | e # s' \<Rightarrow>
             if e = CHR ''u'' then
               (if fst (hex_digits 4 s') then line_string (snd (hex_digits 4 s')) else (False, snd (hex_digits 4 s')))
             else line_string s')
      else if c = CHR 0x0A \<or> c = CHR 0x0D then (False, c # s)
      else line_string s)"
  by pat_completeness auto
termination
proof (relation "measure length", goal_cases)
  case (2 c s e s')
  then show ?case using length_hex_digits [of 4 s'] by simp
qed auto

definition consume_string :: "string \<Rightarrow> bool \<times> string" where
  "consume_string s =
     (if starts_with s [quote, quote, quote] then block_string (drop 3 s) else line_string (drop 1 s))"

definition punctuator :: "char \<Rightarrow> gql_token option" where
  "punctuator c =
     map_of [(CHR ''!'', Bang), (CHR ''$'', Dollar), (CHR ''&'', Amp), (CHR ''('', ParenL), (CHR '')'', ParenR),
       (CHR '':'', Colon), (CHR ''='', Equals), (CHR ''@'', At), (CHR ''['', BracketL), (CHR '']'', BracketR),
       (CHR ''{'', BraceL), (CHR ''}'', BraceR), (CHR ''|'', Pipe)] c"

definition next_token :: "string \<Rightarrow> gql_token option \<times> string" where
  "next_token src =
     (case skip_ignored src of
        [] \<Rightarrow> (None, [])
      | c # r \<Rightarrow>
          (case punctuator c of
             Some t \<Rightarrow> (Some t, r)
           | None \<Rightarrow>
               if c = CHR ''.'' then
                 (if starts_with (c # r) ''...'' then (Some Ellipsis, drop 3 (c # r)) else (None, c # r))
               else if c = quote then
                 (let (ok, rest) = consume_string (c # r) in (if ok then Some StringLit else None, rest))
               else if is_name_start c then
                 (let (name, rest) = take_name (c # r) in (Some (Name name), rest))
               else if c = CHR ''-'' \<or> is_ascii_digit c then take_number (c # r)
               else (None, c # r)))"

section \<open>Parser\<close>

datatype gql_value = IntValue int | Variable string | Other

datatype selection =
  Field (sel_alias: bool) (sel_name: string) (sel_args: "(string \<times> gql_value) list") (sel_set: "selection list option")
| Spread string
| Inline "selection list"

datatype parse_fail = Invalid | TooDeep | Starved

type_synonym 'a parsed = "(parse_fail, 'a \<times> string) result"

abbreviation HARD_DEPTH :: nat where "HARD_DEPTH \<equiv> 64"
abbreviation HARD_VALUE_DEPTH :: nat where "HARD_VALUE_DEPTH \<equiv> 32"

definition token :: "string \<Rightarrow> gql_token parsed" where
  "token s = (case next_token s of (Some t, r) \<Rightarrow> Ok (t, r) | (None, r) \<Rightarrow> Err Invalid)"

definition peek_token :: "string \<Rightarrow> (parse_fail, gql_token) result" where
  "peek_token s = result_bind (token s) (\<lambda>(t, r). Ok t)"

definition expect_name :: "string \<Rightarrow> string parsed" where
  "expect_name s = result_bind (token s) (\<lambda>(t, r). case t of Name n \<Rightarrow> Ok (n, r) | _ \<Rightarrow> Err Invalid)"

definition eat :: "gql_token \<Rightarrow> string \<Rightarrow> (parse_fail, string) result" where
  "eat expected s = result_bind (token s) (\<lambda>(t, r). if t = expected then Ok r else Err Invalid)"

fun parse_value :: "nat \<Rightarrow> nat \<Rightarrow> string \<Rightarrow> gql_value parsed"
and parse_list :: "nat \<Rightarrow> nat \<Rightarrow> string \<Rightarrow> (parse_fail, string) result"
and parse_object :: "nat \<Rightarrow> nat \<Rightarrow> string \<Rightarrow> (parse_fail, string) result" where
  "parse_value 0 depth s = Err Starved"
| "parse_value (Suc n) depth s =
     (if HARD_VALUE_DEPTH < depth then Err Invalid
      else result_bind (token s) (\<lambda>(t, r).
        case t of
          Dollar \<Rightarrow> result_bind (expect_name r) (\<lambda>(v, r'). Ok (Variable v, r'))
        | IntLit raw \<Rightarrow> (case parse_i64 raw of None \<Rightarrow> Err Invalid | Some k \<Rightarrow> Ok (IntValue k, r))
        | FloatLit \<Rightarrow> Ok (Other, r)
        | StringLit \<Rightarrow> Ok (Other, r)
        | Name v \<Rightarrow> Ok (Other, r)
        | BracketL \<Rightarrow> result_bind (parse_list n depth r) (\<lambda>r'. Ok (Other, r'))
        | BraceL \<Rightarrow> result_bind (parse_object n depth r) (\<lambda>r'. Ok (Other, r'))
        | _ \<Rightarrow> Err Invalid))"
| "parse_list 0 depth s = Err Starved"
| "parse_list (Suc n) depth s =
     result_bind (peek_token s) (\<lambda>t.
       if t = BracketR then eat BracketR s
       else result_bind (parse_value n (depth + 1) s) (\<lambda>(v, r). parse_list n depth r))"
| "parse_object 0 depth s = Err Starved"
| "parse_object (Suc n) depth s =
     result_bind (peek_token s) (\<lambda>t.
       if t = BraceR then eat BraceR s
       else result_bind (expect_name s) (\<lambda>(k, r).
         result_bind (eat Colon r) (\<lambda>r1.
           result_bind (parse_value n (depth + 1) r1) (\<lambda>(v, r2). parse_object n depth r2))))"

fun argument_list :: "nat \<Rightarrow> string \<Rightarrow> (string \<times> gql_value) list parsed" where
  "argument_list 0 s = Err Starved"
| "argument_list (Suc n) s =
     result_bind (peek_token s) (\<lambda>t.
       if t = ParenR then result_bind (eat ParenR s) (\<lambda>r. Ok ([], r))
       else result_bind (expect_name s) (\<lambda>(k, r).
         result_bind (eat Colon r) (\<lambda>r1.
           result_bind (parse_value n 0 r1) (\<lambda>(v, r2).
             result_bind (argument_list n r2) (\<lambda>(args, r3). Ok ((k, v) # args, r3))))))"

definition parse_arguments :: "nat \<Rightarrow> string \<Rightarrow> (string \<times> gql_value) list parsed" where
  "parse_arguments n s =
     result_bind (eat ParenL s) (\<lambda>r.
       result_bind (argument_list n r) (\<lambda>(args, r'). if args = [] then Err Invalid else Ok (args, r')))"

fun parse_directives :: "nat \<Rightarrow> string \<Rightarrow> (parse_fail, string) result" where
  "parse_directives 0 s = Err Starved"
| "parse_directives (Suc n) s =
     (case next_token s of
        (None, r) \<Rightarrow> Ok r
      | (Some t, r) \<Rightarrow>
          if t \<noteq> At then Ok s
          else result_bind (expect_name r) (\<lambda>(name, r1).
            result_bind (peek_token r1) (\<lambda>t1.
              if t1 = ParenL then result_bind (parse_arguments n r1) (\<lambda>(args, r2). parse_directives n r2)
              else parse_directives n r1)))"

fun parse_type :: "nat \<Rightarrow> string \<Rightarrow> (parse_fail, string) result" where
  "parse_type 0 s = Err Starved"
| "parse_type (Suc n) s =
     result_bind
       (result_bind (peek_token s) (\<lambda>t.
          if t = BracketL then
            result_bind (eat BracketL s) (\<lambda>r. result_bind (parse_type n r) (\<lambda>r1. eat BracketR r1))
          else result_bind (expect_name s) (\<lambda>(name, r). Ok r)))
       (\<lambda>r. result_bind (peek_token r) (\<lambda>t. if t = Bang then eat Bang r else Ok r))"

fun variable_list :: "nat \<Rightarrow> string \<Rightarrow> (parse_fail, string) result" where
  "variable_list 0 s = Err Starved"
| "variable_list (Suc n) s =
     result_bind (peek_token s) (\<lambda>t.
       if t = ParenR then eat ParenR s
       else result_bind (eat Dollar s) (\<lambda>r.
         result_bind (expect_name r) (\<lambda>(name, r1).
           result_bind (eat Colon r1) (\<lambda>r2.
             result_bind (parse_type n r2) (\<lambda>r3.
               result_bind (peek_token r3) (\<lambda>t3.
                 result_bind
                   (if t3 = Equals
                    then result_bind (eat Equals r3) (\<lambda>r4. result_bind (parse_value n 0 r4) (\<lambda>(v, r5). Ok r5))
                    else Ok r3)
                   (\<lambda>r6. result_bind (parse_directives n r6) (\<lambda>r7. variable_list n r7))))))))"

definition parse_variable_defs :: "nat \<Rightarrow> string \<Rightarrow> (parse_fail, string) result" where
  "parse_variable_defs n s = result_bind (eat ParenL s) (\<lambda>r. variable_list n r)"

fun parse_selection_set :: "nat \<Rightarrow> nat \<Rightarrow> string \<Rightarrow> selection list parsed"
and selection_list :: "nat \<Rightarrow> nat \<Rightarrow> string \<Rightarrow> selection list parsed"
and parse_selection :: "nat \<Rightarrow> nat \<Rightarrow> string \<Rightarrow> selection parsed"
and parse_field :: "nat \<Rightarrow> nat \<Rightarrow> string \<Rightarrow> selection parsed" where
  "parse_selection_set 0 nesting s = Err Starved"
| "parse_selection_set (Suc n) nesting s =
     (if HARD_DEPTH \<le> nesting then Err TooDeep
      else result_bind (eat BraceL s) (\<lambda>r.
        result_bind (selection_list n (nesting + 1) r) (\<lambda>(items, r').
          if items = [] then Err Invalid else Ok (items, r'))))"
| "selection_list 0 nesting s = Err Starved"
| "selection_list (Suc n) nesting s =
     (let s' = skip_ignored s
      in result_bind (peek_token s') (\<lambda>t.
           if t = BraceR then result_bind (eat BraceR s') (\<lambda>r. Ok ([], r))
           else result_bind (parse_selection n nesting s') (\<lambda>(item, r).
             result_bind (selection_list n nesting r) (\<lambda>(items, r'). Ok (item # items, r')))))"
| "parse_selection 0 nesting s = Err Starved"
| "parse_selection (Suc n) nesting s =
     result_bind (peek_token s) (\<lambda>t.
       if t \<noteq> Ellipsis then parse_field n nesting s
       else result_bind (eat Ellipsis s) (\<lambda>r.
         result_bind (peek_token r) (\<lambda>t1.
           case t1 of
             Name name \<Rightarrow>
               if name = ''on'' then
                 result_bind (expect_name r) (\<lambda>(on, r1).
                   result_bind (expect_name r1) (\<lambda>(ty, r2).
                     result_bind (parse_directives n r2) (\<lambda>r3.
                       result_bind (parse_selection_set n nesting r3) (\<lambda>(items, r4). Ok (Inline items, r4)))))
               else
                 result_bind (expect_name r) (\<lambda>(name', r1).
                   result_bind (parse_directives n r1) (\<lambda>r2. Ok (Spread name, r2)))
           | BraceL \<Rightarrow>
               result_bind (parse_directives n r) (\<lambda>r1.
                 result_bind (parse_selection_set n nesting r1) (\<lambda>(items, r2). Ok (Inline items, r2)))
           | At \<Rightarrow>
               result_bind (parse_directives n r) (\<lambda>r1.
                 result_bind (parse_selection_set n nesting r1) (\<lambda>(items, r2). Ok (Inline items, r2)))
           | _ \<Rightarrow> Err Invalid)))"
| "parse_field 0 nesting s = Err Starved"
| "parse_field (Suc n) nesting s =
     result_bind (expect_name s) (\<lambda>(first, r).
       result_bind (peek_token r) (\<lambda>t.
         result_bind
           (if t = Colon
            then result_bind (eat Colon r) (\<lambda>r1. result_bind (expect_name r1) (\<lambda>(name, r2). Ok ((True, name), r2)))
            else Ok ((False, first), r))
           (\<lambda>((al, name), r3).
             result_bind (peek_token r3) (\<lambda>t3.
               result_bind (if t3 = ParenL then parse_arguments n r3 else Ok ([], r3)) (\<lambda>(args, r4).
                 result_bind (parse_directives n r4) (\<lambda>r5.
                   result_bind (peek_token r5) (\<lambda>t5.
                     if t5 = BraceL
                     then result_bind (parse_selection_set n nesting r5)
                       (\<lambda>(items, r6). Ok (Field al name args (Some items), r6))
                     else Ok (Field al name args None, r5))))))))"

record document =
  operations :: "selection list list"
  fragments :: "(string \<times> selection list) list"

definition parse_fragment :: "nat \<Rightarrow> string \<Rightarrow> (string \<times> selection list) parsed" where
  "parse_fragment n s =
     result_bind (expect_name s) (\<lambda>(keyword, r).
       result_bind (expect_name r) (\<lambda>(frag_name, r1).
         if frag_name = ''on'' then Err Invalid
         else result_bind (expect_name r1) (\<lambda>(on, r2).
           if on \<noteq> ''on'' then Err Invalid
           else result_bind (expect_name r2) (\<lambda>(ty, r3).
             result_bind (parse_directives n r3) (\<lambda>r4.
               result_bind (parse_selection_set n 0 r4) (\<lambda>(items, r5). Ok ((frag_name, items), r5)))))))"

definition parse_operation :: "nat \<Rightarrow> string \<Rightarrow> selection list parsed" where
  "parse_operation n s =
     result_bind (expect_name s) (\<lambda>(keyword, r).
       result_bind (peek_token r) (\<lambda>t.
         result_bind (case t of Name name \<Rightarrow> result_bind (expect_name r) (\<lambda>(name, r1). Ok r1) | _ \<Rightarrow> Ok r) (\<lambda>r2.
           result_bind (peek_token r2) (\<lambda>t2.
             result_bind (if t2 = ParenL then parse_variable_defs n r2 else Ok r2) (\<lambda>r3.
               result_bind (parse_directives n r3) (\<lambda>r4. parse_selection_set n 0 r4))))))"

fun definition_list :: "nat \<Rightarrow> document \<Rightarrow> string \<Rightarrow> (parse_fail, document) result" where
  "definition_list 0 doc s = Err Starved"
| "definition_list (Suc n) doc s =
     (if s = [] then Ok doc
      else result_bind (peek_token s) (\<lambda>t.
        if t = BraceL then
          result_bind (parse_selection_set n 0 s) (\<lambda>(items, r).
            definition_list n (doc\<lparr>operations := operations doc @ [items]\<rparr>) (skip_ignored r))
        else if t = Name ''fragment'' then
          result_bind (parse_fragment n s) (\<lambda>((name, items), r).
            if map_of (fragments doc) name \<noteq> None then Err Invalid
            else definition_list n (doc\<lparr>fragments := (name, items) # fragments doc\<rparr>) (skip_ignored r))
        else if t \<in> {Name ''query'', Name ''mutation'', Name ''subscription''} then
          result_bind (parse_operation n s) (\<lambda>(items, r).
            definition_list n (doc\<lparr>operations := operations doc @ [items]\<rparr>) (skip_ignored r))
        else Err Invalid))"

definition parse_document :: "string \<Rightarrow> (parse_fail, document) result" where
  "parse_document source =
     (let s = skip_ignored source
      in if s = [] then Err Invalid
         else definition_list (4 * length source + 8) \<lparr>operations = [], fragments = []\<rparr> s)"

section \<open>Progress\<close>

lemma length_skip_ignored: "length (skip_ignored s) \<le> length s"
proof (induction s rule: skip_ignored.induct)
  case (1 s)
  define r where "r = skip_ws_comma s"
  have r: "length r \<le> length s" by (simp add: r_def skip_ws_comma_def length_strip_codes)
  have "length (after_line r) \<le> length r"
    by (auto simp: after_line_def) (metis diff_le_self le_trans length_dropWhile_le)
  with r 1 show ?case unfolding skip_ignored.simps [of s] r_def [symmetric] Let_def
    by (auto intro: order.trans)
qed

lemma length_block_string: "length (snd (block_string s)) \<le> length s"
proof (induction s rule: block_string.induct)
  case (1 s)
  show ?case
    unfolding block_string.simps [of s]
    using 1 utf8_step_shorter [of s] utf8_step_shorter [of "drop 1 s"]
    by (auto split: option.split)
qed

lemma length_line_string: "length (snd (line_string s)) \<le> length s"
proof (induction s rule: line_string.induct)
  case (2 c s)
  show ?case
  proof (cases "c = backslash \<and> s \<noteq> []")
    case True
    then obtain e u where s: "s = e # u" by (cases s) auto
    have "length (snd (line_string (snd (hex_digits 4 u)))) \<le> length u" if "e = CHR ''u''" "fst (hex_digits 4 u)"
      using "2.IH"(1) [of e u] True s that length_hex_digits [of 4 u] by simp
    moreover have "length (snd (line_string u)) \<le> length u" if "e \<noteq> CHR ''u''"
      using "2.IH"(2) [of e u] True s that by simp
    ultimately show ?thesis using True s length_hex_digits [of 4 u] by (cases "e = CHR ''u''") auto
  next
    case False
    with "2.IH"(3) show ?thesis by (auto split: list.split)
  qed
qed simp

lemma length_consume_string: "s \<noteq> [] \<Longrightarrow> length (snd (consume_string s)) < length s"
proof -
  assume "s \<noteq> []"
  then have "length (drop 3 s) < length s" "length (drop 1 s) < length s" by (cases s; simp)+
  then show ?thesis using length_block_string [of "drop 3 s"] length_line_string [of "drop 1 s"]
    by (auto simp: consume_string_def)
qed

lemma dropWhile_shorter: "takeWhile P xs \<noteq> [] \<Longrightarrow> length (dropWhile P xs) < length xs"
  by (metis append_Nil2 length_append length_greater_0_conv less_add_same_cancel2 takeWhile_dropWhile_id)

lemma take_number_progress:
  "length (snd (take_number s)) \<le> length s"
  "fst (take_number s) \<noteq> None \<Longrightarrow> length (snd (take_number s)) < length s"
proof -
  define s1 where "s1 = (if starts_with s ''-'' then drop 1 s else s)"
  define s2 where "s2 = dropWhile is_ascii_digit s1"
  define f where "f = drop 1 s2"
  define s3 where "s3 = (if starts_with s2 ''.'' then dropWhile is_ascii_digit f else s2)"
  define e1 where "e1 = drop 1 s3"
  define e where "e = (if starts_with e1 ''+'' \<or> starts_with e1 ''-'' then drop 1 e1 else e1)"
  define s4 where "s4 = (if starts_with s3 ''e'' \<or> starts_with s3 ''E'' then dropWhile is_ascii_digit e else s3)"
  have l1: "length s1 \<le> length s" by (simp add: s1_def)
  have l2: "length s2 \<le> length s1" "takeWhile is_ascii_digit s1 \<noteq> [] \<Longrightarrow> length s2 < length s1"
    unfolding s2_def by (rule length_dropWhile_le, rule dropWhile_shorter)
  have lf: "length f \<le> length s2" by (simp add: f_def)
  have l3: "length s3 \<le> length s2"
    using length_dropWhile_le [of is_ascii_digit f] lf by (simp add: s3_def)
  have le: "length e \<le> length s3" by (simp add: e_def e1_def)
  have l4: "length s4 \<le> length s3"
    using length_dropWhile_le [of is_ascii_digit e] le by (simp add: s4_def)
  note folded = s1_def [symmetric] s2_def [symmetric] f_def [symmetric] s3_def [symmetric]
    e1_def [symmetric] e_def [symmetric] s4_def [symmetric]
  show "length (snd (take_number s)) \<le> length s"
    unfolding take_number_def Let_def folded using l1 l2 lf l3 le l4 by auto
  show "fst (take_number s) \<noteq> None \<Longrightarrow> length (snd (take_number s)) < length s"
    unfolding take_number_def Let_def folded using l1 l2 lf l3 le l4 by (auto split: if_splits)
qed

lemma next_token_shorter: "next_token s = (Some t, r) \<Longrightarrow> length r < length s"
proof -
  assume t: "next_token s = (Some t, r)"
  then obtain c u where s: "skip_ignored s = c # u" by (auto simp: next_token_def split: list.splits)
  have "length r < length (c # u)"
    using t length_consume_string [of "c # u"] take_number_progress(2) [of "c # u"] length_dropWhile_le [of is_name_char u]
    unfolding next_token_def s list.case
    by (auto simp: Let_def take_name_def split_beta split: option.splits if_splits)
  with length_skip_ignored [of s] s show ?thesis by simp
qed

lemma next_token_rest: "length (snd (next_token s)) \<le> length s"
proof (cases "skip_ignored s")
  case (Cons c u)
  have "length (snd (next_token s)) \<le> length (c # u)"
    using length_consume_string [of "c # u"] take_number_progress(1) [of "c # u"] length_dropWhile_le [of is_name_char u]
    unfolding next_token_def Cons list.case
    by (auto simp: Let_def take_name_def split_beta split: option.split)
  with length_skip_ignored [of s] Cons show ?thesis by simp
qed (simp add: next_token_def)

lemma token_shorter: "token s = Ok (t, r) \<Longrightarrow> length r < length s"
  by (auto simp: token_def split: option.splits prod.splits dest: next_token_shorter)

lemma result_bind_eq_Err: "result_bind x f = Err e \<longleftrightarrow> x = Err e \<or> (\<exists>a. x = Ok a \<and> f a = Err e)"
  by (cases x) simp_all

lemma expect_name_Ok: "expect_name s = Ok (v, r) \<longleftrightarrow> token s = Ok (Name v, r)"
proof (cases "token s")
  case (Inr x)
  then show ?thesis by (cases x; cases "fst x") (auto simp: expect_name_def)
qed (simp add: expect_name_def)

lemma eat_Ok: "eat t s = Ok r \<longleftrightarrow> token s = Ok (t, r)"
  by (cases "token s") (auto simp: eat_def split: if_splits)

lemma peek_token_Ok: "peek_token s = Ok t \<longleftrightarrow> (\<exists>r. token s = Ok (t, r))"
  by (cases "token s") (auto simp: peek_token_def)

lemma token_not_starved [simp]: "token s \<noteq> Err Starved"
  by (simp add: token_def split: option.split prod.split)

lemma lexing_not_starved [simp]:
  "expect_name s \<noteq> Err Starved" "eat t s \<noteq> Err Starved" "peek_token s \<noteq> Err Starved"
proof -
  show "expect_name s \<noteq> Err Starved"
  proof (cases "token s")
    case (Inr x)
    then show ?thesis by (cases x; cases "fst x") (auto simp: expect_name_def)
  qed (use token_not_starved [of s] in \<open>auto simp: expect_name_def\<close>)
  show "eat t s \<noteq> Err Starved" "peek_token s \<noteq> Err Starved"
    using token_not_starved [of s] by (auto simp: eat_def peek_token_def result_bind_eq_Err split: prod.splits if_splits)
qed

lemmas lexing_Ok = expect_name_Ok eat_Ok peek_token_Ok

text \<open>
  \<open>fed P x\<close>: the computation did not run out of fuel, and what it returned satisfies \<open>P\<close>.
  The rules below compute what a sequence of steps has to show.
\<close>

definition fed :: "('a \<Rightarrow> bool) \<Rightarrow> (parse_fail, 'a) result \<Rightarrow> bool" where
  "fed P x = (case x of Ok a \<Rightarrow> P a | Err e \<Rightarrow> e \<noteq> Starved)"

named_theorems fed_rules

lemma fed_simps [simp]: "fed P (Ok a) = P a" "fed P (Err e) = (e \<noteq> Starved)"
  by (simp_all add: fed_def)

lemma fed_bind: "fed Q x \<Longrightarrow> (\<And>a. Q a \<Longrightarrow> fed P (f a)) \<Longrightarrow> fed P (result_bind x f)"
  by (cases x) simp_all

lemma fed_mono: "fed Q x \<Longrightarrow> (\<And>a. Q a \<Longrightarrow> P a) \<Longrightarrow> fed P x"
  by (cases x) simp_all

lemma fed_token_bind [fed_rules]:
  "(\<And>t r. length r < length s \<Longrightarrow> fed P (f (t, r))) \<Longrightarrow> fed P (result_bind (token s) f)"
  by (cases "token s") (use token_not_starved [of s] in \<open>auto dest: token_shorter\<close>)

lemma fed_peek_bind [fed_rules]: "(\<And>t. fed P (f t)) \<Longrightarrow> fed P (result_bind (peek_token s) f)"
  by (cases "peek_token s") (use lexing_not_starved(3) [of s] in auto)

lemma fed_name: "fed (\<lambda>(v, r). length r < length s) (expect_name s)"
  using lexing_not_starved(1) [of s] token_shorter [of s]
  by (auto simp: fed_def expect_name_Ok split: sum.split)

lemma fed_eat: "fed (\<lambda>r. length r < length s) (eat t s)"
  using lexing_not_starved(2) [where t = t and s = s] token_shorter [of s t]
  by (auto simp: fed_def eat_Ok split: sum.split)

lemma fed_name_bind [fed_rules]:
  "(\<And>v r. length r < length s \<Longrightarrow> fed P (f (v, r))) \<Longrightarrow> fed P (result_bind (expect_name s) f)"
  by (rule fed_bind [OF fed_name]) auto

lemma fed_eat_bind [fed_rules]:
  "(\<And>r. length r < length s \<Longrightarrow> fed P (f r)) \<Longrightarrow> fed P (result_bind (eat t s) f)"
  by (rule fed_bind [OF fed_eat]) auto

lemma fed_eat_last [fed_rules]: "(\<And>r. length r < length s \<Longrightarrow> P r) \<Longrightarrow> fed P (eat t s)"
  by (rule fed_mono [OF fed_eat])

lemma fed_if [fed_rules]: "(b \<Longrightarrow> fed P x) \<Longrightarrow> (\<not> b \<Longrightarrow> fed P y) \<Longrightarrow> fed P (if b then x else y)"
  by simp

lemma fed_values:
  "(\<forall>d s. 4 * length s + 1 \<le> n \<longrightarrow> fed (\<lambda>(v, r). length r < length s) (parse_value n d s)) \<and>
   (\<forall>d s. 4 * length s + 2 \<le> n \<longrightarrow> fed (\<lambda>r. length r < length s) (parse_list n d s)) \<and>
   (\<forall>d s. 4 * length s + 2 \<le> n \<longrightarrow> fed (\<lambda>r. length r < length s) (parse_object n d s))"
proof (induction n)
  case (Suc n)
  then have IH: "\<And>d s. 4 * length s + 1 \<le> n \<Longrightarrow> fed (\<lambda>(v, r). length r < length s) (parse_value n d s)"
    "\<And>d s. 4 * length s + 2 \<le> n \<Longrightarrow> fed (\<lambda>r. length r < length s) (parse_list n d s)"
    "\<And>d s. 4 * length s + 2 \<le> n \<Longrightarrow> fed (\<lambda>r. length r < length s) (parse_object n d s)" by blast+
  have vbind: "fed P (result_bind (parse_value n d s) f)"
    if "4 * length s + 1 \<le> n" "\<And>v r. length r < length s \<Longrightarrow> fed P (f (v, r))" for d s f and P :: "string \<Rightarrow> bool"
    by (rule fed_bind [OF IH(1) [OF that(1)]]) (auto intro: that)
  have lists: "fed P (result_bind (parse_list n d s) f)" "fed P (result_bind (parse_object n d s) f)"
    if "4 * length s + 2 \<le> n" "\<And>r. length r < length s \<Longrightarrow> fed P (f r)" for d s f and P :: "gql_value \<times> string \<Rightarrow> bool"
    by (rule fed_bind [OF IH(2) [OF that(1)]], erule that) (rule fed_bind [OF IH(3) [OF that(1)]], erule that)
  have "fed (\<lambda>(v, r). length r < length s) (parse_value (Suc n) d s)" if "4 * length s + 1 \<le> Suc n" for d s
    unfolding parse_value.simps using that
    by (intro fed_rules) (auto split: gql_token.split option.split intro!: fed_rules lists)
  moreover have "fed (\<lambda>r. length r < length s) (parse_list (Suc n) d s)" if "4 * length s + 2 \<le> Suc n" for d s
    unfolding parse_list.simps using that by (intro fed_rules vbind) (auto intro!: IH(2) [THEN fed_mono])
  moreover have "fed (\<lambda>r. length r < length s) (parse_object (Suc n) d s)" if "4 * length s + 2 \<le> Suc n" for d s
    unfolding parse_object.simps using that by (auto intro!: fed_rules vbind IH(3) [THEN fed_mono])
  ultimately show ?case by blast
qed simp


lemma fed_value_bind [fed_rules]:
  "4 * length s + 1 \<le> n \<Longrightarrow> (\<And>v r. length r < length s \<Longrightarrow> fed P (f (v, r))) \<Longrightarrow>
     fed P (result_bind (parse_value n d s) f)"
  by (rule fed_bind [OF fed_values [THEN conjunct1, rule_format]]) auto

lemma fed_argument_list:
  "4 * length s + 2 \<le> n \<Longrightarrow> fed (\<lambda>(args, r). length r < length s) (argument_list n s)"
proof (induction n arbitrary: s)
  case (Suc n)
  have IH: "fed P (result_bind (argument_list n u) f)"
    if "4 * length u + 2 \<le> n" "\<And>args r. length r < length u \<Longrightarrow> fed P (f (args, r))"
    for u f and P :: "(string \<times> gql_value) list \<times> string \<Rightarrow> bool"
    by (rule fed_bind [OF Suc.IH [OF that(1)]]) (auto intro: that)
  show ?case unfolding argument_list.simps using Suc.prems by (auto intro!: fed_rules IH)
qed simp

lemma fed_arguments_bind [fed_rules]:
  assumes "4 * length s + 2 \<le> n" and "\<And>args r. length r < length s \<Longrightarrow> fed P (f (args, r))"
  shows "fed P (result_bind (parse_arguments n s) f)"
proof (rule fed_bind [where Q = "\<lambda>(args, r). length r < length s"])
  show "fed (\<lambda>(args, r). length r < length s) (parse_arguments n s)"
    unfolding parse_arguments_def using assms(1)
    by (intro fed_rules fed_bind [OF fed_argument_list]) auto
qed (use assms in auto)

lemma fed_directives:
  "4 * length s + 3 \<le> n \<Longrightarrow> fed (\<lambda>r. length r \<le> length s) (parse_directives n s)"
proof (induction n arbitrary: s)
  case (Suc n)
  have IH: "fed P (parse_directives n u)"
    if "4 * length u + 3 \<le> n" "\<And>r. length r \<le> length u \<Longrightarrow> P r" for u P
    by (rule fed_mono [OF Suc.IH [OF that(1)]]) (rule that)
  show ?case
  proof (cases "next_token s")
    case (Pair t r)
    with next_token_rest [of s] next_token_shorter [of s "the t" r] Suc.prems show ?thesis
      by (cases t) (auto intro!: fed_rules IH)
  qed
qed simp

lemma fed_directives_bind [fed_rules]:
  "4 * length s + 3 \<le> n \<Longrightarrow> (\<And>r. length r \<le> length s \<Longrightarrow> fed P (f r)) \<Longrightarrow>
     fed P (result_bind (parse_directives n s) f)"
  by (rule fed_bind [OF fed_directives])

lemma fed_type: "4 * length s + 1 \<le> n \<Longrightarrow> fed (\<lambda>r. length r < length s) (parse_type n s)"
proof (induction n arbitrary: s)
  case (Suc n)
  have IH: "fed P (result_bind (parse_type n u) f)"
    if "4 * length u + 1 \<le> n" "\<And>r. length r < length u \<Longrightarrow> fed P (f r)" for u f and P :: "string \<Rightarrow> bool"
    by (rule fed_bind [OF Suc.IH [OF that(1)]]) (auto intro: that)
  show ?case unfolding parse_type.simps
    by (rule fed_bind [where Q = "\<lambda>r. length r < length s"]) (use Suc.prems in \<open>auto intro!: fed_rules IH\<close>)
qed simp

lemma fed_type_bind [fed_rules]:
  "4 * length s + 1 \<le> n \<Longrightarrow> (\<And>r. length r < length s \<Longrightarrow> fed P (f r)) \<Longrightarrow>
     fed P (result_bind (parse_type n s) f)"
  by (rule fed_bind [OF fed_type])

lemma fed_variable_list:
  "4 * length s + 2 \<le> n \<Longrightarrow> fed (\<lambda>r. length r < length s) (variable_list n s)"
proof (induction n arbitrary: s)
  case (Suc n)
  have IH: "fed P (variable_list n u)"
    if "4 * length u + 2 \<le> n" "\<And>r. length r < length u \<Longrightarrow> P r" for u P
    by (rule fed_mono [OF Suc.IH [OF that(1)]]) (rule that)
  have dflt: "fed P (result_bind
      (if b then result_bind (eat Equals u) (\<lambda>r4. result_bind (parse_value n 0 r4) (\<lambda>(v, r5). Ok r5)) else Ok u) f)"
    if "4 * length u + 1 \<le> n" "\<And>r. length r \<le> length u \<Longrightarrow> fed P (f r)" for b u f and P :: "string \<Rightarrow> bool"
    by (rule fed_bind [where Q = "\<lambda>r. length r \<le> length u"]) (use that in \<open>auto intro!: fed_rules\<close>)
  show ?case unfolding variable_list.simps using Suc.prems by (auto intro!: fed_rules IH dflt)
qed simp


text \<open>How deep selection sets are nested in a selection.\<close>

fun sel_depth :: "selection \<Rightarrow> nat" where
  "sel_depth (Field al name args None) = 0"
| "sel_depth (Field al name args (Some items)) = Suc (foldr max (map sel_depth items) 0)"
| "sel_depth (Spread name) = 0"
| "sel_depth (Inline items) = Suc (foldr max (map sel_depth items) 0)"

definition set_depth :: "selection list \<Rightarrow> nat" where
  "set_depth items = Suc (foldr max (map sel_depth items) 0)"

lemma foldr_max_le: "foldr max ns 0 \<le> (m :: nat) \<longleftrightarrow> (\<forall>n \<in> set ns. n \<le> m)"
  by (induction ns) auto

lemma set_depth_le: "set_depth items \<le> Suc m \<longleftrightarrow> (\<forall>x \<in> set items. sel_depth x \<le> m)"
  by (auto simp: set_depth_def foldr_max_le)

lemma sel_depth_set [simp]:
  "sel_depth (Field al name args (Some items)) = set_depth items" "sel_depth (Inline items) = set_depth items"
  by (simp_all add: set_depth_def)

declare sel_depth.simps(2,4) [simp del]

abbreviation sets_ok :: "nat \<Rightarrow> string \<Rightarrow> selection list \<times> string \<Rightarrow> bool" where
  "sets_ok m s \<equiv> \<lambda>(items, r). length r < length s \<and> set_depth items \<le> m"

abbreviation items_ok :: "nat \<Rightarrow> string \<Rightarrow> selection list \<times> string \<Rightarrow> bool" where
  "items_ok m s \<equiv> \<lambda>(items, r). length r < length s \<and> (\<forall>x \<in> set items. sel_depth x \<le> m)"

abbreviation item_ok :: "nat \<Rightarrow> string \<Rightarrow> selection \<times> string \<Rightarrow> bool" where
  "item_ok m s \<equiv> \<lambda>(x, r). length r < length s \<and> sel_depth x \<le> m"

lemma fed_field_step:
  assumes "4 * length s + 1 \<le> Suc n"
    and sets: "\<And>u f. 4 * length u + 1 \<le> n \<Longrightarrow>
      (\<And>items r. length r < length u \<Longrightarrow> set_depth items \<le> m \<Longrightarrow> fed (item_ok m s) (f (items, r))) \<Longrightarrow>
      fed (item_ok m s) (result_bind (parse_selection_set n k u) f)"
  shows "fed (item_ok m s) (parse_field (Suc n) k s)"
proof -
  have named: "fed P (result_bind
      (if b then result_bind (eat Colon u) (\<lambda>r1. result_bind (expect_name r1) (\<lambda>(name, r2). Ok ((True, name), r2)))
       else Ok ((False, first), u)) f)"
    if "\<And>al name r. length r \<le> length u \<Longrightarrow> fed P (f ((al, name), r))" for b first u f and P :: "selection \<times> string \<Rightarrow> bool"
    by (rule fed_bind [where Q = "\<lambda>(a, r). length r \<le> length u"]) (use that in \<open>auto intro!: fed_rules\<close>)
  have args: "fed P (result_bind (if b then parse_arguments n u else Ok ([], u)) f)"
    if "4 * length u + 2 \<le> n" "\<And>args r. length r \<le> length u \<Longrightarrow> fed P (f (args, r))"
    for b u f and P :: "selection \<times> string \<Rightarrow> bool"
    using that by (auto intro!: fed_rules)
  show ?thesis unfolding parse_field.simps using assms(1)
    by (auto intro!: fed_rules named args sets)
qed

lemma fed_selection_step:
  assumes "4 * length s + 2 \<le> Suc n"
    and sets: "\<And>u f. 4 * length u + 1 \<le> n \<Longrightarrow>
      (\<And>items r. length r < length u \<Longrightarrow> set_depth items \<le> m \<Longrightarrow> fed (item_ok m s) (f (items, r))) \<Longrightarrow>
      fed (item_ok m s) (result_bind (parse_selection_set n k u) f)"
    and field: "fed (item_ok m s) (parse_field n k s)"
  shows "fed (item_ok m s) (parse_selection (Suc n) k s)"
  unfolding parse_selection.simps
proof (rule fed_peek_bind, rule fed_if, rule field, rule fed_eat_bind, rule fed_peek_bind, goal_cases)
  case (1 t r t1)
  with assms(1) show ?case by (cases t1) (auto intro!: fed_rules sets)
qed

lemma fed_selections:
  "(\<forall>k s. 4 * length s + 1 \<le> n \<longrightarrow> k \<le> HARD_DEPTH \<longrightarrow> fed (sets_ok (HARD_DEPTH - k) s) (parse_selection_set n k s)) \<and>
   (\<forall>k s. 4 * length s + 3 \<le> n \<longrightarrow> k \<le> HARD_DEPTH \<longrightarrow> fed (items_ok (HARD_DEPTH - k) s) (selection_list n k s)) \<and>
   (\<forall>k s. 4 * length s + 2 \<le> n \<longrightarrow> k \<le> HARD_DEPTH \<longrightarrow> fed (item_ok (HARD_DEPTH - k) s) (parse_selection n k s)) \<and>
   (\<forall>k s. 4 * length s + 1 \<le> n \<longrightarrow> k \<le> HARD_DEPTH \<longrightarrow> fed (item_ok (HARD_DEPTH - k) s) (parse_field n k s))"
proof (induction n)
  case (Suc n)
  then have IH: "\<And>k s. 4 * length s + 1 \<le> n \<Longrightarrow> k \<le> HARD_DEPTH \<Longrightarrow> fed (sets_ok (HARD_DEPTH - k) s) (parse_selection_set n k s)"
    "\<And>k s. 4 * length s + 3 \<le> n \<Longrightarrow> k \<le> HARD_DEPTH \<Longrightarrow> fed (items_ok (HARD_DEPTH - k) s) (selection_list n k s)"
    "\<And>k s. 4 * length s + 2 \<le> n \<Longrightarrow> k \<le> HARD_DEPTH \<Longrightarrow> fed (item_ok (HARD_DEPTH - k) s) (parse_selection n k s)"
    "\<And>k s. 4 * length s + 1 \<le> n \<Longrightarrow> k \<le> HARD_DEPTH \<Longrightarrow> fed (item_ok (HARD_DEPTH - k) s) (parse_field n k s)" by blast+
  have sets: "fed P (result_bind (parse_selection_set n k u) f)"
    if "k \<le> HARD_DEPTH" "4 * length u + 1 \<le> n"
      "\<And>items r. length r < length u \<Longrightarrow> set_depth items \<le> HARD_DEPTH - k \<Longrightarrow> fed P (f (items, r))"
    for k u f and P :: "selection \<times> string \<Rightarrow> bool"
    by (rule fed_bind [OF IH(1) [OF that(2,1)]]) (auto intro: that)
  have "fed (sets_ok (HARD_DEPTH - k) s) (parse_selection_set (Suc n) k s)"
    if "4 * length s + 1 \<le> Suc n" "k \<le> HARD_DEPTH" for k s
  proof -
    have "fed (sets_ok (HARD_DEPTH - k) s) (result_bind (selection_list n (k + 1) r)
        (\<lambda>(items, r'). if items = [] then Err Invalid else Ok (items, r')))" if "length r < length s" "k < HARD_DEPTH" for r
    proof (rule fed_bind [OF IH(2)])
      show "4 * length r + 3 \<le> n" using that \<open>4 * length s + 1 \<le> Suc n\<close> by simp
      have "HARD_DEPTH - k = Suc (HARD_DEPTH - (k + 1))" using that by simp
      then show "fed (sets_ok (HARD_DEPTH - k) s) (case a of (items, r') \<Rightarrow> if items = [] then Err Invalid else Ok (items, r'))"
        if "items_ok (HARD_DEPTH - (k + 1)) r a" for a
        using that \<open>length r < length s\<close> by (auto simp: set_depth_le)
    qed (use that in simp)
    then show ?thesis unfolding parse_selection_set.simps by (auto intro!: fed_rules)
  qed
  moreover have "fed (items_ok (HARD_DEPTH - k) s) (selection_list (Suc n) k s)"
    if "4 * length s + 3 \<le> Suc n" "k \<le> HARD_DEPTH" for k s
  proof -
    define u where "u = skip_ignored s"
    have u: "length u \<le> length s" by (simp add: u_def length_skip_ignored)
    have one: "fed (items_ok (HARD_DEPTH - k) s) (result_bind (parse_selection n k u) f)"
      if "\<And>x r. length r < length u \<Longrightarrow> sel_depth x \<le> HARD_DEPTH - k \<Longrightarrow> fed (items_ok (HARD_DEPTH - k) s) (f (x, r))" for f
      by (rule fed_bind [OF IH(3)]) (use that u \<open>4 * length s + 3 \<le> Suc n\<close> \<open>k \<le> HARD_DEPTH\<close> in auto)
    have more: "fed (items_ok (HARD_DEPTH - k) s) (result_bind (selection_list n k r) f)"
      if "length r < length u"
        "\<And>xs r'. length r' < length r \<Longrightarrow> \<forall>x \<in> set xs. sel_depth x \<le> HARD_DEPTH - k \<Longrightarrow> fed (items_ok (HARD_DEPTH - k) s) (f (xs, r'))" for r f
      by (rule fed_bind [OF IH(2)]) (use that u \<open>4 * length s + 3 \<le> Suc n\<close> \<open>k \<le> HARD_DEPTH\<close> in auto)
    show ?thesis unfolding selection_list.simps Let_def u_def [symmetric] using u by (auto intro!: fed_rules one more)
  qed
  moreover have "fed (item_ok (HARD_DEPTH - k) s) (parse_selection (Suc n) k s)"
    if "4 * length s + 2 \<le> Suc n" "k \<le> HARD_DEPTH" for k s
    using that by (intro fed_selection_step sets IH(4)) simp_all
  moreover have "fed (item_ok (HARD_DEPTH - k) s) (parse_field (Suc n) k s)"
    if "4 * length s + 1 \<le> Suc n" "k \<le> HARD_DEPTH" for k s
    using that by (intro fed_field_step sets) simp_all
  ultimately show ?case by blast
qed simp


lemma fed_set_bind [fed_rules]:
  assumes "4 * length s + 1 \<le> n"
    and "\<And>items r. length r < length s \<Longrightarrow> set_depth items \<le> HARD_DEPTH \<Longrightarrow> fed P (f (items, r))"
  shows "fed P (result_bind (parse_selection_set n 0 s) f)"
proof (rule fed_bind)
  show "fed (sets_ok HARD_DEPTH s) (parse_selection_set n 0 s)"
    using fed_selections [THEN conjunct1, rule_format, of s n 0] assms(1) by simp
qed (use assms(2) in auto)

lemma fed_set:
  "4 * length s + 1 \<le> n \<Longrightarrow> fed (sets_ok HARD_DEPTH s) (parse_selection_set n 0 s)"
  using fed_selections [THEN conjunct1, rule_format, of s n 0] by simp

lemma fed_fragment_bind:
  assumes "4 * length s + 1 \<le> n"
    and "\<And>name items r. length r < length s \<Longrightarrow> set_depth items \<le> HARD_DEPTH \<Longrightarrow> fed P (f ((name, items), r))"
  shows "fed P (result_bind (parse_fragment n s) f)"
proof (rule fed_bind [where Q = "\<lambda>(frag, r). length r < length s \<and> set_depth (snd frag) \<le> HARD_DEPTH"])
  show "fed (\<lambda>(frag, r). length r < length s \<and> set_depth (snd frag) \<le> HARD_DEPTH) (parse_fragment n s)"
    unfolding parse_fragment_def using assms(1) by (auto intro!: fed_rules)
qed (use assms(2) in auto)

lemma fed_operation_bind:
  assumes "4 * length s + 1 \<le> n"
    and "\<And>items r. length r < length s \<Longrightarrow> set_depth items \<le> HARD_DEPTH \<Longrightarrow> fed P (f (items, r))"
  shows "fed P (result_bind (parse_operation n s) f)"
proof (rule fed_bind)
  have named: "fed Q (result_bind (case t of Name name \<Rightarrow> result_bind (expect_name u) (\<lambda>(name, r1). Ok r1) | _ \<Rightarrow> Ok u) g)"
    if "\<And>r. length r \<le> length u \<Longrightarrow> fed Q (g r)" for t u g and Q :: "selection list \<times> string \<Rightarrow> bool"
    by (rule fed_bind [where Q = "\<lambda>r. length r \<le> length u"], cases t) (auto intro!: fed_rules that)
  have vars: "fed Q (result_bind (if b then parse_variable_defs n u else Ok u) g)"
    if "4 * length u + 1 \<le> n" "\<And>r. length r \<le> length u \<Longrightarrow> fed Q (g r)" for b u g and Q :: "selection list \<times> string \<Rightarrow> bool"
    by (rule fed_bind [where Q = "\<lambda>r. length r \<le> length u"])
      (use that in \<open>auto simp: parse_variable_defs_def intro!: fed_rules fed_variable_list [THEN fed_mono]\<close>)
  show "fed (sets_ok HARD_DEPTH s) (parse_operation n s)"
    unfolding parse_operation_def using assms(1)
    by (auto intro!: fed_rules named vars fed_set [THEN fed_mono])
qed (use assms(2) in auto)

definition document_ok :: "document \<Rightarrow> bool" where
  "document_ok doc \<longleftrightarrow>
     list_all (\<lambda>items. set_depth items \<le> HARD_DEPTH) (operations doc) \<and>
     list_all (\<lambda>frag. set_depth (snd frag) \<le> HARD_DEPTH) (fragments doc) \<and>
     distinct (map fst (fragments doc))"

lemma document_ok_operation:
  "document_ok doc \<Longrightarrow> set_depth items \<le> HARD_DEPTH \<Longrightarrow> document_ok (doc\<lparr>operations := operations doc @ [items]\<rparr>)"
  by (simp add: document_ok_def)

lemma document_ok_fragment:
  "document_ok doc \<Longrightarrow> set_depth items \<le> HARD_DEPTH \<Longrightarrow> map_of (fragments doc) name = None \<Longrightarrow>
     document_ok (doc\<lparr>fragments := (name, items) # fragments doc\<rparr>)"
  by (simp add: document_ok_def map_of_eq_None_iff)

lemma fed_definition_list:
  "4 * length s + 4 \<le> n \<Longrightarrow> document_ok doc \<Longrightarrow> fed document_ok (definition_list n doc s)"
proof (induction n arbitrary: doc s)
  case (Suc n)
  have IH: "fed document_ok (definition_list n doc' (skip_ignored r))" if "length r < length s" "document_ok doc'" for r doc'
    by (rule Suc.IH) (use that Suc.prems(1) length_skip_ignored [of r] in auto)
  show ?case unfolding definition_list.simps using Suc.prems
    by (auto intro!: fed_rules fed_fragment_bind fed_operation_bind IH document_ok_operation document_ok_fragment)
qed simp

text \<open>Every definition takes at least one byte of the source.\<close>

lemma fed_definition_count:
  "4 * length s + 4 \<le> n \<Longrightarrow>
     fed (\<lambda>doc'. length (operations doc') + length (fragments doc') \<le> length (operations doc) + length (fragments doc) + length s)
       (definition_list n doc s)"
proof (induction n arbitrary: doc s)
  case (Suc n)
  have IH: "fed (\<lambda>doc'. length (operations doc') + length (fragments doc') \<le> m + length s) (definition_list n d (skip_ignored r))"
    if "length r < length s" "length (operations d) + length (fragments d) \<le> Suc m" for r d m
    by (rule fed_mono, rule Suc.IH) (use that Suc.prems(1) length_skip_ignored [of r] in auto)
  show ?case unfolding definition_list.simps using Suc.prems
    by (auto intro!: fed_rules fed_fragment_bind fed_operation_bind IH)
qed simp

section \<open>Printing and parsing\<close>

definition int_text :: "int \<Rightarrow> string" where
  "int_text k = (if k < 0 then CHR ''-'' # nat_to_string (nat (- k)) else nat_to_string (nat k))"

fun tok_text :: "gql_token \<Rightarrow> string" where
  "tok_text (Name v) = v"
| "tok_text (IntLit raw) = raw"
| "tok_text Dollar = ''$''"
| "tok_text ParenL = ''(''"
| "tok_text ParenR = '')''"
| "tok_text Ellipsis = ''...''"
| "tok_text Colon = '':''"
| "tok_text BraceL = ''{''"
| "tok_text BraceR = ''}''"
| "tok_text _ = []"

definition name_ok :: "string \<Rightarrow> bool" where
  "name_ok v \<longleftrightarrow> v \<noteq> [] \<and> is_name_start (hd v) \<and> list_all is_name_char (tl v)"

fun tok_ok :: "gql_token \<Rightarrow> bool" where
  "tok_ok (Name v) = name_ok v"
| "tok_ok (IntLit raw) = (\<exists>k. raw = int_text k)"
| "tok_ok t = (t \<in> {Dollar, ParenL, ParenR, Ellipsis, Colon, BraceL, BraceR})"

primrec render :: "gql_token list \<Rightarrow> string" where
  "render [] = []"
| "render (t # ts) = CHR '' '' # tok_text t @ render ts"

definition ends_token :: "string \<Rightarrow> bool" where
  "ends_token u \<longleftrightarrow> u = [] \<or> hd u = CHR '' ''"

lemma ends_token_render [simp]: "ends_token (render ts)"
  by (cases ts) (simp_all add: ends_token_def)

definition token_start :: "char \<Rightarrow> bool" where
  "token_start c \<longleftrightarrow> is_name_start c \<or> c = CHR ''-'' \<or> is_ascii_digit c \<or> c \<in> set ''$().:{}[''"

lemma token_start_plain:
  assumes "token_start c"
  shows "skip_ignored (c # u) = c # u" "skip_ignored (CHR '' '' # c # u) = c # u"
proof -
  have not_white: "\<forall>e \<in> set ('','' # white_space). e \<noteq> [] \<longrightarrow> hd e \<noteq> c" and c: "c \<noteq> CHR ''#''" "c \<noteq> CHR 0xEF"
    using assms by (auto simp: token_start_def is_name_start_def is_ascii_alphabetic_def is_ascii_digit_def white_space_def)
  have stop: "strip_codes ('','' # white_space) (c # u) = c # u"
    using not_white by (intro strip_codes_id) auto
  show plain: "skip_ignored (c # u) = c # u"
    using c stop by (subst skip_ignored.simps) (auto simp: skip_ws_comma_def starts_with_iff byte_order_mark_def)
  have "find (\<lambda>e. e \<noteq> [] \<and> starts_with (CHR '' '' # c # u) e) ('','' # white_space) = Some '' ''"
    by (simp add: white_space_def starts_with_def)
  then have "strip_codes ('','' # white_space) (CHR '' '' # c # u) = c # u"
    by (subst strip_codes.simps) (simp add: stop)
  then show "skip_ignored (CHR '' '' # c # u) = c # u"
    using c by (subst skip_ignored.simps) (auto simp: skip_ws_comma_def starts_with_iff byte_order_mark_def)
qed

lemma take_name_text:
  assumes "name_ok v" and "ends_token u"
  shows "take_name (v @ u) = (v, u)"
proof -
  have v: "v = hd v # tl v" "\<forall>c \<in> set (tl v). is_name_char c" using assms(1) by (auto simp: name_ok_def list_all_iff)
  have "u = [] \<or> \<not> is_name_char (hd u)"
    using assms(2) by (auto simp: ends_token_def is_name_char_def is_ascii_alphanumeric_def is_ascii_alphabetic_def is_ascii_digit_def)
  then have "takeWhile is_name_char u = []" "dropWhile is_name_char u = u" by (cases u; auto)+
  moreover have "drop 1 (v @ u) = tl v @ u" "take 1 (v @ u) = [hd v]" using v(1) by (cases v; simp)+
  ultimately show ?thesis using v by (simp add: take_name_def takeWhile_append2 dropWhile_append2)
qed

lemma take_number_text:
  assumes "ends_token u"
  shows "take_number (int_text k @ u) = (Some (IntLit (int_text k)), u)"
proof -
  have stop: "takeWhile is_ascii_digit u = []" "dropWhile is_ascii_digit u = u"
    "\<not> starts_with u ''.''" "\<not> starts_with u ''e''" "\<not> starts_with u ''E''"
    using assms by (cases u; auto simp: ends_token_def is_ascii_digit_def starts_with_def)+
  define ds where "ds = nat_to_string (nat (\<bar>k\<bar>))"
  have ds: "\<forall>c \<in> set ds. is_ascii_digit c" "ds \<noteq> []" by (simp_all add: ds_def nat_to_string_digits)
  then have "hd ds \<noteq> CHR ''-''" by (cases ds) (auto simp: is_ascii_digit_def)
  with ds have "\<not> starts_with (ds @ u) ''-''" by (cases ds) (auto simp: starts_with_def)
  moreover have "int_text k = (if k < 0 then CHR ''-'' # ds else ds)" by (simp add: int_text_def ds_def)
  ultimately have s1: "(if starts_with (int_text k @ u) ''-'' then drop 1 (int_text k @ u) else int_text k @ u) = ds @ u"
    and sign: "(if starts_with (int_text k @ u) ''-'' then ''-'' else []) @ ds = int_text k"
    by (simp_all add: starts_with_def)
  have t: "takeWhile is_ascii_digit (ds @ u) = ds" "dropWhile is_ascii_digit (ds @ u) = u"
    using ds(1) stop by simp_all
  show ?thesis unfolding take_number_def Let_def s1 t using stop(3-5) ds(2) sign by simp
qed

lemma parse_int_text:
  assumes "- 9223372036854775808 \<le> k" and "k \<le> 9223372036854775807"
  shows "parse_i64 (int_text k) = Some k"
proof -
  define ds where "ds = nat_to_string (nat (\<bar>k\<bar>))"
  have ds: "\<forall>c \<in> set ds. is_ascii_digit c" "ds \<noteq> []" by (simp_all add: ds_def nat_to_string_digits)
  then have "hd ds \<noteq> CHR ''-''" "hd ds \<noteq> CHR ''+''" by (cases ds; auto simp: is_ascii_digit_def)+
  with ds have no: "\<not> starts_with ds ''-''" "\<not> starts_with ds ''+''" by (cases ds; auto simp: starts_with_def)+
  have v: "digits_value 10 0 ds = Some (nat \<bar>k\<bar>)" by (simp add: ds_def digits_value_nat_to_string)
  have "int_text k = (if k < 0 then CHR ''-'' # ds else ds)" by (simp add: int_text_def ds_def)
  then show ?thesis using no v ds(2) assms by (simp add: parse_i64_def starts_with_def [of "CHR ''-'' # ds"])
qed

lemma name_start_not_punctuator:
  "is_name_start c \<Longrightarrow> punctuator c = None \<and> c \<noteq> CHR ''.'' \<and> c \<noteq> quote"
  "c = CHR ''-'' \<or> is_ascii_digit c \<Longrightarrow> punctuator c = None \<and> c \<noteq> CHR ''.'' \<and> c \<noteq> quote \<and> \<not> is_name_start c"
proof -
  have others: "list_all (\<lambda>d. \<not> is_name_start d \<and> d \<noteq> CHR ''-'' \<and> \<not> is_ascii_digit d) (''!$&():=@[]{}|.'' @ [quote])"
    by code_simp
  have "c \<in> set (''!$&():=@[]{}|.'' @ [quote])" if "punctuator c \<noteq> None \<or> c = CHR ''.'' \<or> c = quote"
    using that by (auto simp: punctuator_def split: if_splits)
  with others have "\<not> is_name_start c \<and> c \<noteq> CHR ''-'' \<and> \<not> is_ascii_digit c"
    if "punctuator c \<noteq> None \<or> c = CHR ''.'' \<or> c = quote" using that unfolding list_all_iff by blast
  moreover have "\<not> is_name_start c" if "c = CHR ''-'' \<or> is_ascii_digit c"
    using that by (auto simp: is_name_start_def is_ascii_alphabetic_def is_ascii_digit_def)
  ultimately show
    "is_name_start c \<Longrightarrow> punctuator c = None \<and> c \<noteq> CHR ''.'' \<and> c \<noteq> quote"
    "c = CHR ''-'' \<or> is_ascii_digit c \<Longrightarrow> punctuator c = None \<and> c \<noteq> CHR ''.'' \<and> c \<noteq> quote \<and> \<not> is_name_start c"
    by blast+
qed

lemma int_text_start: "\<exists>c v. int_text k = c # v \<and> (c = CHR ''-'' \<or> is_ascii_digit c)"
proof (cases "k < 0")
  case False
  then show ?thesis using nat_to_string_digits [of "nat k"] nat_to_string_not_Nil [of "nat k"]
    by (cases "nat_to_string (nat k)") (auto simp: int_text_def)
qed (simp add: int_text_def)

lemma tok_text_start:
  assumes "tok_ok t"
  obtains c v where "tok_text t = c # v" "token_start c"
proof (cases t)
  case (Name v)
  with assms that show thesis by (cases v) (auto simp: name_ok_def token_start_def)
next
  case (IntLit raw)
  with assms obtain k where raw: "raw = int_text k" by auto
  with IntLit that int_text_start [of k] show thesis by (auto simp: token_start_def)
qed (use assms that in \<open>auto simp: token_start_def\<close>)

lemma punctuator_texts:
  "punctuator (CHR ''$'') = Some Dollar" "punctuator (CHR ''('') = Some ParenL" "punctuator (CHR '')'') = Some ParenR"
  "punctuator (CHR '':'') = Some Colon" "punctuator (CHR ''{'') = Some BraceL" "punctuator (CHR ''}'') = Some BraceR"
  by code_simp+

lemma next_token_text:
  assumes "tok_ok t" and "ends_token u"
  shows "next_token (CHR '' '' # tok_text t @ u) = (Some t, u)"
proof -
  obtain c v where cv: "tok_text t = c # v" "token_start c" using tok_text_start [OF assms(1)] .
  have skip: "skip_ignored (CHR '' '' # tok_text t @ u) = c # v @ u" using cv token_start_plain(2) by simp
  have punct: ?thesis if "punctuator c = Some t" "v = []"
    using that unfolding next_token_def skip by simp
  show ?thesis
  proof (cases t)
    case Ellipsis
    then have "c = CHR ''.''" "v = ''..''" using cv by auto
    moreover have "punctuator (CHR ''.'') = None" by code_simp
    ultimately show ?thesis unfolding next_token_def skip by (simp add: Ellipsis starts_with_def)
  next
    case (Name w)
    then have "is_name_start c" "name_ok w" "c # v @ u = w @ u" using assms(1) cv by (auto simp: name_ok_def)
    with name_start_not_punctuator(1) [of c] take_name_text [OF \<open>name_ok w\<close> assms(2)] Name show ?thesis
      unfolding next_token_def skip by (auto simp: Let_def)
  next
    case (IntLit raw)
    then obtain k where raw: "raw = int_text k" "c # v @ u = int_text k @ u" using assms(1) cv by auto
    have "c = CHR ''-'' \<or> is_ascii_digit c"
      using raw(1) cv(1) IntLit int_text_start [of k] by auto
    moreover have "take_number (c # v @ u) = (Some (IntLit raw), u)"
      unfolding raw(2) unfolding raw(1) by (rule take_number_text [OF assms(2)])
    ultimately show ?thesis using name_start_not_punctuator(2) [of c] IntLit unfolding next_token_def skip by simp
  qed (use assms(1) cv punct punctuator_texts in auto)
qed

lemma token_render:
  assumes "tok_ok t"
  shows "token (render (t # ts)) = Ok (t, render ts)" "token (skip_ignored (render (t # ts))) = Ok (t, render ts)"
proof -
  have n: "next_token (render (t # ts)) = (Some t, render ts)"
    using next_token_text [OF assms, of "render ts"] by simp
  then show "token (render (t # ts)) = Ok (t, render ts)" by (simp add: token_def)
  obtain c v where "tok_text t = c # v" "token_start c" using tok_text_start [OF assms] .
  then have "skip_ignored (skip_ignored (render (t # ts))) = skip_ignored (render (t # ts))"
    by (simp add: token_start_plain)
  then have "next_token (skip_ignored (render (t # ts))) = next_token (render (t # ts))"
    unfolding next_token_def by (simp only:)
  with n show "token (skip_ignored (render (t # ts))) = Ok (t, render ts)" by (simp add: token_def)
qed


text \<open>\<open>yields y x\<close>: the computation returns \<open>y\<close> unless it runs out of fuel.\<close>

definition yields :: "'a \<Rightarrow> (parse_fail, 'a) result \<Rightarrow> bool" where
  "yields y x \<longleftrightarrow> x = Ok y \<or> x = Err Starved"

lemma yields_simps [simp]: "yields y (Ok y') = (y' = y)" "yields y (Err Starved)"
  by (auto simp: yields_def)

lemma yields_bind: "yields a x \<Longrightarrow> yields b (f a) \<Longrightarrow> yields b (result_bind x f)"
  by (auto simp: yields_def)

lemma fed_yields: "fed P x \<Longrightarrow> yields y x \<Longrightarrow> x = Ok y"
  by (auto simp: yields_def)

lemma lex_render [simp]:
  assumes "tok_ok t"
  shows "peek_token (render (t # ts)) = Ok t" "eat t (render (t # ts)) = Ok (render ts)"
    "peek_token (skip_ignored (render (t # ts))) = Ok t" "eat t (skip_ignored (render (t # ts))) = Ok (render ts)"
  using token_render [OF assms, of ts] by (simp_all add: peek_token_def eat_def)

lemma name_render [simp]:
  assumes "name_ok v"
  shows "expect_name (render (Name v # ts)) = Ok (v, render ts)"
    "expect_name (skip_ignored (render (Name v # ts))) = Ok (v, render ts)"
  using token_render [of "Name v" ts] assms by (simp_all add: expect_name_def)

fun value_toks :: "gql_value \<Rightarrow> gql_token list" where
  "value_toks (IntValue k) = [IntLit (int_text k)]"
| "value_toks (Variable v) = [Dollar, Name v]"
| "value_toks Other = [Name ''true'']"

fun value_ok :: "gql_value \<Rightarrow> bool" where
  "value_ok (IntValue k) = (- 9223372036854775808 \<le> k \<and> k \<le> 9223372036854775807)"
| "value_ok (Variable v) = name_ok v"
| "value_ok Other = True"

definition args_toks :: "(string \<times> gql_value) list \<Rightarrow> gql_token list" where
  "args_toks args = concat (map (\<lambda>(k, v). [Name k, Colon] @ value_toks v) args) @ [ParenR]"

fun sel_toks :: "selection \<Rightarrow> gql_token list" where
  "sel_toks (Field al name args items) =
     (if al then [Name ''x'', Colon] else []) @ [Name name] @
     (if args = [] then [] else ParenL # args_toks args) @
     (case items of None \<Rightarrow> [] | Some xs \<Rightarrow> BraceL # concat (map sel_toks xs) @ [BraceR])"
| "sel_toks (Spread name) = [Ellipsis, Name name]"
| "sel_toks (Inline xs) = [Ellipsis, BraceL] @ concat (map sel_toks xs) @ [BraceR]"

definition set_toks :: "selection list \<Rightarrow> gql_token list" where
  "set_toks xs = BraceL # concat (map sel_toks xs) @ [BraceR]"

fun sel_ok :: "selection \<Rightarrow> bool" where
  "sel_ok (Field al name args items) =
     (name_ok name \<and> list_all (\<lambda>(k, v). name_ok k \<and> value_ok v) args \<and>
      (case items of None \<Rightarrow> True | Some xs \<Rightarrow> xs \<noteq> [] \<and> list_all sel_ok xs))"
| "sel_ok (Spread name) = (name_ok name \<and> name \<noteq> ''on'')"
| "sel_ok (Inline xs) = (xs \<noteq> [] \<and> list_all sel_ok xs)"

lemma name_ok_literals [simp]: "name_ok ''x''" "name_ok ''true''" "name_ok ''fragment''" "name_ok ''on''"
  by code_simp+

lemma value_render: "value_ok v \<Longrightarrow> yields (v, render ts) (parse_value n 0 (render (value_toks v @ ts)))"
proof (cases n)
  case (Suc m)
  assume "value_ok v"
  then show ?thesis
  proof (cases v)
    case (IntValue k)
    with \<open>value_ok v\<close> have "parse_i64 (int_text k) = Some k" by (intro parse_int_text) auto
    moreover have "tok_ok (IntLit (int_text k))" by auto
    ultimately show ?thesis using token_render(1) [of "IntLit (int_text k)" ts] IntValue Suc by simp
  qed (use Suc token_render(1) [of Dollar] token_render(1) [of "Name ''true''" ts] name_render(1) in \<open>auto simp del: render.simps\<close>)
qed simp

lemma arguments_render:
  "list_all (\<lambda>(k, v). name_ok k \<and> value_ok v) args \<Longrightarrow>
     yields (args, render ts) (argument_list n (render (args_toks args @ ts)))"
proof (induction n arbitrary: args)
  case (Suc n)
  show ?case
  proof (cases args)
    case Nil
    then show ?thesis by (simp add: args_toks_def del: render.simps)
  next
    case (Cons a as)
    obtain k v where a: "a = (k, v)" by (cases a)
    have ok: "name_ok k" "value_ok v" "list_all (\<lambda>(k, v). name_ok k \<and> value_ok v) as" using Suc.prems Cons a by auto
    have t: "args_toks args @ ts = Name k # Colon # value_toks v @ args_toks as @ ts" by (simp add: args_toks_def Cons a)
    show ?thesis unfolding t argument_list.simps using ok
      by (auto simp del: render.simps intro!: yields_bind [OF value_render] yields_bind [OF Suc.IH] simp: Cons a)
  qed
qed simp


lemma directives_render: "tok_ok t \<Longrightarrow> t \<noteq> At \<Longrightarrow> yields (render (t # ts)) (parse_directives n (render (t # ts)))"
proof (cases n)
  case (Suc m)
  assume "tok_ok t" "t \<noteq> At"
  with next_token_text [of t "render ts"] Suc show ?thesis by simp
qed simp

text \<open>What may follow a selection: another one or the end of the set.\<close>

definition follows :: "gql_token list \<Rightarrow> bool" where
  "follows ts \<longleftrightarrow> (\<exists>t us. ts = t # us \<and> tok_ok t \<and> (t = BraceR \<or> t = Ellipsis \<or> (\<exists>v. t = Name v)))"

lemma sel_toks_first:
  assumes "sel_ok x"
  obtains (field) v us where "sel_toks x = Name v # us" "name_ok v" | (dots) us where "sel_toks x = Ellipsis # us" "\<nexists>al name args items. x = Field al name args items"
proof (cases x)
  case (Field al name args items)
  with assms field show thesis by (cases al) auto
qed (use dots in auto)

lemma follows_selections: "list_all sel_ok xs \<Longrightarrow> follows (concat (map sel_toks xs) @ BraceR # ts)"
proof (cases xs)
  case (Cons x ys)
  assume "list_all sel_ok xs"
  with Cons have "sel_ok x" by simp
  then show ?thesis using Cons by (cases rule: sel_toks_first) (auto simp: follows_def)
qed (simp add: follows_def)

lemma directives_follow: "follows ts \<Longrightarrow> yields (render ts) (parse_directives n (render ts))"
  by (auto simp: follows_def simp del: render.simps intro: directives_render)

lemma field_render:
  assumes "follows ts" and "sel_ok (Field al name args items)"
    and sets: "\<And>xs. items = Some xs \<Longrightarrow> yields (xs, render ts) (parse_selection_set n k (render (set_toks xs @ ts)))"
  shows "yields (Field al name args items, render ts)
    (parse_field (Suc n) k (skip_ignored (render (sel_toks (Field al name args items) @ ts))))"
proof -
  define tail where "tail = (case items of None \<Rightarrow> ts | Some xs \<Rightarrow> set_toks xs @ ts)"
  define rest where "rest = (if args = [] then tail else ParenL # args_toks args @ tail)"
  have toks: "sel_toks (Field al name args items) @ ts = (if al then [Name ''x'', Colon] else []) @ Name name # rest"
    by (simp add: rest_def tail_def set_toks_def split: option.split)
  obtain t us where tail: "tail = t # us" "tok_ok t" "t \<noteq> At" "t \<noteq> Colon" "t \<noteq> ParenL" "t = BraceL \<longleftrightarrow> items \<noteq> None"
    using assms(1) by (cases items) (auto simp: tail_def set_toks_def follows_def)
  have args_ok: "name_ok name" "list_all (\<lambda>(k, v). name_ok k \<and> value_ok v) args" using assms(2) by simp_all
  define u where "u = (if args = [] then t else ParenL)"
  have peek_rest: "peek_token (render rest) = Ok u" "u \<noteq> Colon"
    unfolding rest_def u_def using tail by (simp_all del: render.simps)
  have step1: "yields (args, render tail)
      (if u = ParenL then parse_arguments n (render rest) else Ok ([], render rest))"
    using arguments_render [OF args_ok(2), of tail n] tail(5)
    by (auto simp: rest_def u_def parse_arguments_def simp del: render.simps intro!: yields_bind)
  have step2: "yields (Field al name args items, render ts) (result_bind (peek_token (render tail)) (\<lambda>t5.
      if t5 = BraceL then result_bind (parse_selection_set n k (render tail))
        (\<lambda>(xs, r6). Ok (Field al name args (Some xs), r6))
      else Ok (Field al name args None, render tail)))"
  proof (cases items)
    case None
    with tail show ?thesis by (simp del: render.simps) (simp add: tail_def)
  next
    case (Some xs)
    with sets [OF Some] tail show ?thesis
      by (auto simp: tail_def simp del: render.simps intro!: yields_bind)
  qed
  have step12: "yields (Field al name args items, render ts)
      (result_bind (if u = ParenL then parse_arguments n (render rest) else Ok ([], render rest))
        (\<lambda>(args, r4). result_bind (parse_directives n r4) (\<lambda>r5. result_bind (peek_token r5) (\<lambda>t5.
          if t5 = BraceL then result_bind (parse_selection_set n k r5) (\<lambda>(xs, r6). Ok (Field al name args (Some xs), r6))
          else Ok (Field al name args None, r5)))))"
    by (rule yields_bind [OF step1], unfold prod.case,
        rule yields_bind [OF directives_render [OF tail(2,3), of us n, folded tail(1)]]) (rule step2)
  show ?thesis
  proof (cases al)
    case True
    then have al: "al = True" by simp
    show ?thesis using step12 peek_rest args_ok(1) unfolding toks parse_field.simps unfolding al
      by (simp del: render.simps split del: if_split)
  next
    case False
    then have al: "al = False" by simp
    show ?thesis using step12 peek_rest args_ok(1) unfolding toks parse_field.simps unfolding al
      by (simp del: render.simps split del: if_split)
  qed
qed


lemma selection_render:
  assumes "follows ts" and "sel_ok x"
    and field: "\<And>al name args items. x = Field al name args items \<Longrightarrow>
      yields (x, render ts) (parse_field n k (skip_ignored (render (sel_toks x @ ts))))"
    and sets: "\<And>xs. x = Inline xs \<Longrightarrow> yields (xs, render ts) (parse_selection_set n k (render (set_toks xs @ ts)))"
  shows "yields (x, render ts) (parse_selection (Suc n) k (skip_ignored (render (sel_toks x @ ts))))"
proof (cases x)
  case (Field al name args items)
  obtain v us where toks: "sel_toks x = Name v # us" "name_ok v"
    using assms(2) by (cases rule: sel_toks_first) (use Field in blast)+
  then have "peek_token (skip_ignored (render (sel_toks x @ ts))) = Ok (Name v)" by (simp del: render.simps)
  then show ?thesis unfolding parse_selection.simps using field [OF Field] by simp
next
  case (Spread name)
  then have name: "name_ok name" "name \<noteq> ''on''" using assms(2) by simp_all
  show ?thesis unfolding Spread parse_selection.simps using name
    by (auto simp del: render.simps intro!: yields_bind [OF directives_follow [OF assms(1)]])
next
  case (Inline xs)
  have toks: "sel_toks x @ ts = Ellipsis # set_toks xs @ ts" by (simp add: Inline set_toks_def)
  have "peek_token (render (set_toks xs @ ts)) = Ok BraceL" by (simp add: set_toks_def del: render.simps)
  moreover have "yields (render (set_toks xs @ ts)) (parse_directives n (render (set_toks xs @ ts)))"
    unfolding set_toks_def append_Cons by (rule directives_render) simp_all
  ultimately show ?thesis unfolding toks parse_selection.simps using sets [OF Inline] Inline
    by (auto simp del: render.simps intro!: yields_bind)
qed

lemma selections_render:
  "(\<forall>k xs ts. xs \<noteq> [] \<longrightarrow> list_all sel_ok xs \<longrightarrow> set_depth xs + k \<le> HARD_DEPTH \<longrightarrow>
      yields (xs, render ts) (parse_selection_set n k (render (set_toks xs @ ts)))) \<and>
   (\<forall>k xs ts. list_all sel_ok xs \<longrightarrow> (\<forall>x \<in> set xs. sel_depth x + k \<le> HARD_DEPTH) \<longrightarrow>
      yields (xs, render ts) (selection_list n k (render (concat (map sel_toks xs) @ BraceR # ts)))) \<and>
   (\<forall>k x ts. follows ts \<longrightarrow> sel_ok x \<longrightarrow> sel_depth x + k \<le> HARD_DEPTH \<longrightarrow>
      yields (x, render ts) (parse_selection n k (skip_ignored (render (sel_toks x @ ts))))) \<and>
   (\<forall>k x ts. follows ts \<longrightarrow> sel_ok x \<longrightarrow> sel_depth x + k \<le> HARD_DEPTH \<longrightarrow>
      (\<exists>al name args items. x = Field al name args items) \<longrightarrow>
      yields (x, render ts) (parse_field n k (skip_ignored (render (sel_toks x @ ts)))))"
proof (induction n)
  case (Suc n)
  then have sets: "\<And>k xs ts. xs \<noteq> [] \<Longrightarrow> list_all sel_ok xs \<Longrightarrow> set_depth xs + k \<le> HARD_DEPTH \<Longrightarrow>
      yields (xs, render ts) (parse_selection_set n k (render (set_toks xs @ ts)))"
    and lists: "\<And>k xs ts. list_all sel_ok xs \<Longrightarrow> \<forall>x \<in> set xs. sel_depth x + k \<le> HARD_DEPTH \<Longrightarrow>
      yields (xs, render ts) (selection_list n k (render (concat (map sel_toks xs) @ BraceR # ts)))"
    and sel: "\<And>k x ts. follows ts \<Longrightarrow> sel_ok x \<Longrightarrow> sel_depth x + k \<le> HARD_DEPTH \<Longrightarrow>
      yields (x, render ts) (parse_selection n k (skip_ignored (render (sel_toks x @ ts))))"
    and field: "\<And>k x ts al name args items. follows ts \<Longrightarrow> sel_ok x \<Longrightarrow> sel_depth x + k \<le> HARD_DEPTH \<Longrightarrow>
      x = Field al name args items \<Longrightarrow>
      yields (x, render ts) (parse_field n k (skip_ignored (render (sel_toks x @ ts))))" by blast+
  have 1: "yields (xs, render ts) (parse_selection_set (Suc n) k (render (set_toks xs @ ts)))"
    if "xs \<noteq> []" "list_all sel_ok xs" "set_depth xs + k \<le> HARD_DEPTH" for k xs ts
  proof -
    have d: "\<forall>x \<in> set xs. sel_depth x + Suc k \<le> HARD_DEPTH" "k < HARD_DEPTH"
      using that(3) set_depth_le [of xs "HARD_DEPTH - (k + 1)"] by (auto simp: set_depth_def)
    show ?thesis unfolding parse_selection_set.simps using d(2) that(1)
      by (auto simp: set_toks_def simp del: render.simps intro!: yields_bind [OF lists [OF that(2) d(1)]])
  qed
  have 2: "yields (xs, render ts) (selection_list (Suc n) k (render (concat (map sel_toks xs) @ BraceR # ts)))"
    if ok: "list_all sel_ok xs" "\<forall>x \<in> set xs. sel_depth x + k \<le> HARD_DEPTH" for k xs ts
  proof (cases xs)
    case Nil
    then show ?thesis by (simp add: Let_def del: render.simps)
  next
    case (Cons x ys)
    let ?more = "concat (map sel_toks ys) @ BraceR # ts"
    have x: "follows ?more" "sel_ok x" "sel_depth x + k \<le> HARD_DEPTH" "list_all sel_ok ys"
      "\<forall>y \<in> set ys. sel_depth y + k \<le> HARD_DEPTH"
      using ok Cons by (auto intro: follows_selections)
    obtain t us where t: "sel_toks x @ ?more = t # us" "tok_ok t" "t \<noteq> BraceR"
      using x(2) by (cases rule: sel_toks_first) auto
    have toks: "concat (map sel_toks xs) @ BraceR # ts = sel_toks x @ ?more" by (simp add: Cons)
    have "peek_token (skip_ignored (render (sel_toks x @ ?more))) = Ok t" using t by (simp del: render.simps)
    then show ?thesis unfolding selection_list.simps toks Let_def using t(3) Cons
      by (auto simp del: render.simps intro!: yields_bind [OF sel [OF x(1-3)]] yields_bind [OF lists [OF x(4,5)]])
  qed
  have 3: "yields (x, render ts) (parse_selection (Suc n) k (skip_ignored (render (sel_toks x @ ts))))"
    if "follows ts" "sel_ok x" "sel_depth x + k \<le> HARD_DEPTH" for k x ts
    using that by (intro selection_render field sets) auto
  have 4: "yields (x, render ts) (parse_field (Suc n) k (skip_ignored (render (sel_toks x @ ts))))"
    if "follows ts" "sel_ok x" "sel_depth x + k \<le> HARD_DEPTH" "x = Field al name args items" for k x ts al name args items
    unfolding that(4) by (rule field_render) (use that in \<open>auto intro!: sets\<close>)
  show ?case by (intro conjI allI impI; (elim exE)?) (rule 1 2 3 4; assumption)+
qed simp


lemma set_render:
  "xs \<noteq> [] \<Longrightarrow> list_all sel_ok xs \<Longrightarrow> set_depth xs \<le> HARD_DEPTH \<Longrightarrow>
     yields (xs, render ts) (parse_selection_set n 0 (render (set_toks xs @ ts)))"
  using selections_render [THEN conjunct1, rule_format, of xs 0 ts n] by simp

definition set_ok :: "selection list \<Rightarrow> bool" where
  "set_ok xs \<longleftrightarrow> xs \<noteq> [] \<and> list_all sel_ok xs \<and> set_depth xs \<le> HARD_DEPTH"

definition fragment_toks :: "string \<times> selection list \<Rightarrow> gql_token list" where
  "fragment_toks frag = [Name ''fragment'', Name (fst frag), Name ''on'', Name ''T''] @ set_toks (snd frag)"

definition print_document :: "document \<Rightarrow> string" where
  "print_document doc =
     render (concat (map set_toks (operations doc)) @ concat (map fragment_toks (rev (fragments doc))))"

definition printable :: "document \<Rightarrow> bool" where
  "printable doc \<longleftrightarrow>
     (operations doc \<noteq> [] \<or> fragments doc \<noteq> []) \<and> list_all set_ok (operations doc) \<and>
     list_all (\<lambda>(name, xs). name_ok name \<and> name \<noteq> ''on'' \<and> set_ok xs) (fragments doc) \<and>
     distinct (map fst (fragments doc))"

lemma name_ok_T [simp]: "name_ok ''T''" by code_simp

lemma fragment_render:
  assumes "name_ok name" "name \<noteq> ''on''" "set_ok xs"
  shows "yields ((name, xs), render ts) (parse_fragment n (skip_ignored (render (fragment_toks (name, xs) @ ts))))"
proof -
  have "yields (render (set_toks xs @ ts)) (parse_directives n (render (set_toks xs @ ts)))"
    unfolding set_toks_def append_Cons by (rule directives_render) simp_all
  moreover have "yields (xs, render ts) (parse_selection_set n 0 (render (set_toks xs @ ts)))"
    using assms(3) by (intro set_render) (simp_all add: set_ok_def)
  ultimately show ?thesis unfolding parse_fragment_def fragment_toks_def using assms(1,2)
    by (auto simp del: render.simps intro!: yields_bind)
qed

lemma set_skip: "parse_selection_set n k (skip_ignored (render (set_toks xs @ ts))) = parse_selection_set n k (render (set_toks xs @ ts))"
proof -
  have "eat BraceL (skip_ignored (render (set_toks xs @ ts))) = eat BraceL (render (set_toks xs @ ts))"
    by (simp add: set_toks_def del: render.simps)
  then show ?thesis by (cases n) (simp_all del: render.simps)
qed

lemma skip_ignored_Nil [simp]: "skip_ignored [] = []"
  using length_skip_ignored [of "[]"] by simp

lemma peek_not_Nil: "peek_token s = Ok t \<Longrightarrow> s \<noteq> []"
  by (auto simp: peek_token_def token_def next_token_def)

lemma fragments_render:
  assumes "list_all (\<lambda>(name, xs). name_ok name \<and> name \<noteq> ''on'' \<and> set_ok xs) frs"
    and "distinct (map fst frs @ map fst (fragments doc))"
  shows "yields (doc\<lparr>fragments := rev frs @ fragments doc\<rparr>)
    (definition_list n doc (skip_ignored (render (concat (map fragment_toks frs)))))"
  using assms
proof (induction frs arbitrary: n doc)
  case Nil
  then show ?case by (cases n) simp_all
next
  case (Cons fr frs)
  obtain name xs where fr: "fr = (name, xs)" by (cases fr)
  have ok: "name_ok name" "name \<noteq> ''on''" "set_ok xs" "map_of (fragments doc) name = None"
    using Cons.prems fr by (auto simp: map_of_eq_None_iff)
  let ?more = "concat (map fragment_toks frs)"
  let ?s = "skip_ignored (render (fragment_toks (name, xs) @ ?more))"
  have peek: "peek_token ?s = Ok (Name ''fragment'')"
    by (simp add: fragment_toks_def del: render.simps)
  note peek_not_Nil [OF this]
  moreover have "yields (doc\<lparr>fragments := rev (fr # frs) @ fragments doc\<rparr>)
      (definition_list m (doc\<lparr>fragments := (name, xs) # fragments doc\<rparr>) (skip_ignored (render ?more)))" for m
    using Cons.IH [of "doc\<lparr>fragments := (name, xs) # fragments doc\<rparr>" m] Cons.prems fr by simp
  ultimately show ?case using peek ok fragment_render [OF ok(1-3), of ?more] fr
    by (cases n) (auto simp del: render.simps intro!: yields_bind)
qed


lemma fed_document: "fed document_ok (parse_document source)"
  unfolding parse_document_def Let_def using length_skip_ignored [of source]
  by (auto intro!: fed_definition_list simp: document_ok_def)

lemma fed_document_count:
  "fed (\<lambda>doc. length (operations doc) + length (fragments doc) \<le> length source) (parse_document source)"
proof -
  have "fed (\<lambda>doc. length (operations doc) + length (fragments doc) \<le> length (skip_ignored source))
      (definition_list (4 * length source + 8) \<lparr>operations = [], fragments = []\<rparr> (skip_ignored source))"
    using fed_definition_count [of "skip_ignored source" "4 * length source + 8" "\<lparr>operations = [], fragments = []\<rparr>"]
      length_skip_ignored [of source] by simp
  then show ?thesis unfolding parse_document_def Let_def
    by (auto elim!: fed_mono intro: order.trans [OF _ length_skip_ignored])
qed

lemma operations_render:
  assumes "list_all set_ok ops" and "fragments doc = []"
    and rest: "\<And>m d. fragments d = [] \<Longrightarrow> yields (d\<lparr>fragments := frs\<rparr>) (definition_list m d (skip_ignored (render ts)))"
  shows "yields (doc\<lparr>operations := operations doc @ ops, fragments := frs\<rparr>)
    (definition_list n doc (skip_ignored (render (concat (map set_toks ops) @ ts))))"
  using assms(1,2)
proof (induction ops arbitrary: n doc)
  case Nil
  then show ?case using rest [of doc n] by simp
next
  case (Cons xs ops)
  let ?more = "concat (map set_toks ops) @ ts"
  let ?s = "skip_ignored (render (set_toks xs @ ?more))"
  have peek: "peek_token ?s = Ok BraceL" by (simp add: set_toks_def del: render.simps)
  have more: "yields (doc\<lparr>operations := operations doc @ xs # ops, fragments := frs\<rparr>)
      (definition_list m (doc\<lparr>operations := operations doc @ [xs]\<rparr>) (skip_ignored (render ?more)))" for m
    using Cons.IH [of "doc\<lparr>operations := operations doc @ [xs]\<rparr>" m] Cons.prems by simp
  have one: "yields (xs, render ?more) (parse_selection_set m 0 ?s)" for m
    unfolding set_skip by (rule set_render) (use Cons.prems(1) in \<open>simp_all add: set_ok_def\<close>)
  show ?case
  proof (cases n)
    case (Suc m)
    have "yields (doc\<lparr>operations := operations doc @ xs # ops, fragments := frs\<rparr>)
      (result_bind (parse_selection_set m 0 ?s) (\<lambda>(items, r).
        definition_list m (doc\<lparr>operations := operations doc @ [items]\<rparr>) (skip_ignored r)))"
      by (rule yields_bind [OF one]) (simp only: prod.case more)
    with peek peek_not_Nil [OF peek] Suc show ?thesis by simp
  qed simp
qed

lemma document_render:
  assumes "printable doc"
  shows "yields doc (definition_list n \<lparr>operations = [], fragments = []\<rparr> (skip_ignored (print_document doc)))"
proof -
  have d: "distinct (map fst (rev (fragments doc)))" using assms by (simp add: printable_def rev_map [symmetric])
  have "yields (d\<lparr>fragments := fragments doc\<rparr>)
      (definition_list m d (skip_ignored (render (concat (map fragment_toks (rev (fragments doc)))))))"
    if "fragments d = []" for m d
    using fragments_render [of "rev (fragments doc)" d m] d assms that by (simp add: printable_def)
  from operations_render [of "operations doc" "\<lparr>operations = [], fragments = []\<rparr>", OF _ _ this] assms
  show ?thesis by (cases doc) (simp add: printable_def print_document_def)
qed

text \<open>The first token of a printed document is not skipped.\<close>

lemma print_not_blank:
  assumes "printable doc"
  shows "skip_ignored (print_document doc) \<noteq> []"
proof -
  have "\<exists>t us. concat (map set_toks (operations doc)) @ concat (map fragment_toks (rev (fragments doc))) = t # us \<and> tok_ok t"
    using assms by (cases "operations doc"; cases "rev (fragments doc)")
      (auto simp: printable_def set_toks_def fragment_toks_def)
  then obtain t us where "print_document doc = render (t # us)" "tok_ok t" by (auto simp: print_document_def simp del: render.simps)
  then have "peek_token (skip_ignored (print_document doc)) = Ok t" by (simp del: render.simps)
  then show ?thesis by (rule peek_not_Nil)
qed

section \<open>Theorems\<close>

text \<open>C32. Parsing ends for every source: the fuel never runs out. A document it accepts nests its
  selection sets at most 64 deep, in operations and in fragments, names each fragment once and has
  no more definitions than the source has bytes.\<close>

theorem parse_document_total:
  "parse_document source \<noteq> Err Starved \<and>
   (\<forall>doc. parse_document source = Ok doc \<longrightarrow>
      document_ok doc \<and> length (operations doc) + length (fragments doc) \<le> length source)"
  using fed_document [of source] fed_document_count [of source] by (auto simp: fed_def)

theorem parse_document_total_witness:
  "parse_document ''{a}'' = Ok \<lparr>operations = [[Field False ''a'' [] None]], fragments = []\<rparr> \<and>
   document_ok \<lparr>operations = [[Field False ''a'' [] None]], fragments = []\<rparr>"
proof -
  have "parse_document ''{a}'' = Ok \<lparr>operations = [[Field False ''a'' [] None]], fragments = []\<rparr>" by code_simp
  with parse_document_total [of "''{a}''"] show ?thesis by blast
qed

text \<open>C8. A printed document parses back to itself, with its aliases, arguments, nesting, spreads,
  inline fragments and fragment definitions: the parser drops and invents nothing the limits count.\<close>

theorem parse_print_document:
  assumes "printable doc"
  shows "parse_document (print_document doc) = Ok doc"
proof -
  have "parse_document (print_document doc) =
      definition_list (4 * length (print_document doc) + 8) \<lparr>operations = [], fragments = []\<rparr> (skip_ignored (print_document doc))"
    using print_not_blank [OF assms] by (simp add: parse_document_def Let_def)
  moreover have "fed document_ok (parse_document (print_document doc))" by (rule fed_document)
  ultimately show ?thesis using fed_yields document_render [OF assms] by metis
qed

theorem parse_print_document_witness:
  "let doc = \<lparr>operations = [[Field True ''a'' [(''first'', IntValue 3), (''q'', Variable ''v'')] (Some [Spread ''F'']),
         Inline [Field False ''b'' [] None]]],
       fragments = [(''F'', [Field False ''c'' [(''w'', Other)] None])]\<rparr>
   in printable doc \<and> parse_document (print_document doc) = Ok doc"
proof -
  let ?doc = "\<lparr>operations = [[Field True ''a'' [(''first'', IntValue 3), (''q'', Variable ''v'')] (Some [Spread ''F'']),
         Inline [Field False ''b'' [] None]]],
       fragments = [(''F'', [Field False ''c'' [(''w'', Other)] None])]\<rparr>"
  have "printable ?doc" by code_simp
  with parse_print_document [of ?doc] show ?thesis by (simp add: Let_def)
qed

section \<open>Observations\<close>

text \<open>
  The parser calls \<open>parse_type\<close> once more for every bracket, without a limit: \<open>m\<close> brackets
  need more than \<open>m\<close> nested calls.
\<close>

lemma type_recursion_unbounded: "k \<le> m \<Longrightarrow> parse_type k (replicate m (CHR ''['') @ s) = Err Starved"
proof (induction k arbitrary: m)
  case (Suc k)
  then obtain l where m: "m = Suc l" "k \<le> l" by (cases m) auto
  have "punctuator (CHR ''['') = Some BracketL" by code_simp
  then have "token (CHR ''['' # u) = Ok (BracketL, u)" for u
    using token_start_plain(1) [of "CHR ''[''" u] by (simp add: token_def next_token_def token_start_def)
  with m Suc.IH [of l] show ?case by (simp add: peek_token_def eat_def)
qed simp

text \<open>A failed look ahead in \<open>parse_directives\<close> moves on: the minus sign disappears.\<close>

lemma directives_swallow_minus:
  "parse_document ''{a(x:1)-{b}}'' = parse_document ''{a(x:1){b}}''"
  by code_simp

end
