(* ===== verification/Graphql_Limits.thy ===== *)
theory Graphql_Limits
  imports Graphql_Parser Json_Value
begin

text \<open>
  GraphQL limits, \<open>src/src/graphql.rs\<close>: the policy and its overlay and the analysis of a
  document. A panic while the policy is read is \<open>None\<close>. The analysis is compared with the
  document in which every fragment spread is replaced by what it stands for.
\<close>

section \<open>Policy\<close>

abbreviation HARD_COMPLEXITY :: nat where "HARD_COMPLEXITY \<equiv> 100000"
abbreviation HARD_OPERATIONS :: nat where "HARD_OPERATIONS \<equiv> 64"
abbreviation DEFAULT_LIST_SIZE :: nat where "DEFAULT_LIST_SIZE \<equiv> 10"
abbreviation DEFAULT_QUOTA_WINDOW :: nat where "DEFAULT_QUOTA_WINDOW \<equiv> 60 * 1000000000"
abbreviation QUOTA_MAX_KEYS :: nat where "QUOTA_MAX_KEYS \<equiv> 50000"
abbreviation SWEEP_EVERY :: nat where "SWEEP_EVERY \<equiv> 256"

record graphql_file =
  file_max_depth :: "nat option"
  file_max_complexity :: "nat option"
  file_max_aliases :: "nat option"
  file_max_fragments :: "nat option"
  file_max_operations :: "nat option"
  file_introspection :: "bool option"
  file_persisted_only :: "bool option"
  file_persisted_queries :: "string list"
  file_quota :: "nat option"
  file_quota_window :: "nat option"
  file_default_list_size :: "nat option"

record graphql_limits =
  max_depth :: "nat option"
  max_complexity :: "nat option"
  max_aliases :: "nat option"
  max_fragments :: "nat option"
  max_operations :: "nat option"
  introspection :: bool
  introspection_set :: bool
  persisted_only :: bool
  persisted_only_set :: bool
  default_list_size :: nat
  quota :: "nat option"
  quota_window :: nat

definition require_within :: "nat \<Rightarrow> nat option \<Rightarrow> nat option option" where
  "require_within m x =
     (case x of None \<Rightarrow> Some None | Some v \<Rightarrow> if v = 0 \<or> m < v then None else Some (Some v))"

definition production_enabled :: "(string \<Rightarrow> string option) \<Rightarrow> bool" where
  "production_enabled env \<longleftrightarrow> env ''FERROADA_PRODUCTION'' = Some ''true''"

definition limits_from_file :: "(string \<Rightarrow> string option) \<Rightarrow> graphql_file \<Rightarrow> graphql_limits option" where
  "limits_from_file env file =
     (case (require_within 256 (file_max_depth file), require_within 1000000 (file_max_complexity file),
            require_within 10000 (file_max_aliases file), require_within 1024 (file_max_fragments file),
            require_within 1024 (file_max_operations file), require_within 10000 (file_default_list_size file),
            require_within 1000000000 (file_quota file), require_within 86400 (file_quota_window file)) of
        (Some d, Some c, Some a, Some f, Some ops, Some l, Some q, Some w) \<Rightarrow>
          Some \<lparr>max_depth = d, max_complexity = c, max_aliases = a, max_fragments = f, max_operations = ops,
            introspection = unwrap_or (file_introspection file) (\<not> production_enabled env),
            introspection_set = (file_introspection file \<noteq> None),
            persisted_only = unwrap_or (file_persisted_only file) False,
            persisted_only_set = (file_persisted_only file \<noteq> None),
            default_list_size = unwrap_or l DEFAULT_LIST_SIZE, quota = q,
            quota_window = (case w of Some secs \<Rightarrow> secs * 1000000000 | None \<Rightarrow> DEFAULT_QUOTA_WINDOW)\<rparr>
      | _ \<Rightarrow> None)"

definition overlay_limits :: "graphql_limits \<Rightarrow> graphql_limits \<Rightarrow> graphql_limits" where
  "overlay_limits base other =
     \<lparr>max_depth = opt_or (max_depth other) (max_depth base),
      max_complexity = opt_or (max_complexity other) (max_complexity base),
      max_aliases = opt_or (max_aliases other) (max_aliases base),
      max_fragments = opt_or (max_fragments other) (max_fragments base),
      max_operations = opt_or (max_operations other) (max_operations base),
      introspection = (if introspection_set other then introspection other else introspection base),
      introspection_set = (introspection_set base \<or> introspection_set other),
      persisted_only = (if persisted_only_set other then persisted_only other else persisted_only base),
      persisted_only_set = (persisted_only_set base \<or> persisted_only_set other),
      default_list_size = (if default_list_size other \<noteq> DEFAULT_LIST_SIZE then default_list_size other
                           else default_list_size base),
      quota = opt_or (quota other) (quota base),
      quota_window = (if quota_window other \<noteq> DEFAULT_QUOTA_WINDOW then quota_window other else quota_window base)\<rparr>"

definition is_sha256_hex :: "string \<Rightarrow> bool" where
  "is_sha256_hex v \<longleftrightarrow> length v = 64 \<and> list_all (\<lambda>c. to_digit 16 c \<noteq> None) v"

fun parse_hashes :: "string list \<Rightarrow> string list option" where
  "parse_hashes [] = Some []"
| "parse_hashes (item # raw) =
     (let hex = to_ascii_lowercase (trim item)
      in if \<not> is_sha256_hex hex then None else map_option (List.insert hex) (parse_hashes raw))"

record graphql_policy =
  limits :: graphql_limits
  policy_paths :: "string list"
  persisted :: "string list"

definition graphql_from_file ::
    "(string \<Rightarrow> string option) \<Rightarrow> graphql_file \<Rightarrow> string list \<Rightarrow> graphql_policy option" where
  "graphql_from_file env file paths =
     (case (limits_from_file env file, parse_hashes (file_persisted_queries file)) of
        (Some l, Some h) \<Rightarrow> Some \<lparr>limits = l, policy_paths = paths, persisted = h\<rparr>
      | _ \<Rightarrow> None)"

text \<open>The overlay keeps the book of the base policy, so the two count into the same entries.\<close>

definition graphql_overlay :: "graphql_policy \<Rightarrow> graphql_policy \<Rightarrow> graphql_policy" where
  "graphql_overlay base other =
     \<lparr>limits = overlay_limits (limits base) (limits other),
      policy_paths = (if policy_paths other = [] then policy_paths base else policy_paths other),
      persisted = (if persisted other = [] then persisted base else persisted other)\<rparr>"

datatype limit_name = Operations | PersistedQuery | Depth | FragmentLimit | Introspection | Complexity | Aliases | Quota

datatype graphql_failure = ParseError | Limit limit_name

datatype graphql_verdict = Skip | Allow | Deny graphql_failure

section \<open>Analysis\<close>

record gql_stats =
  st_depth :: nat
  st_complexity :: nat
  st_aliases :: nat
  st_introspection :: bool

record walk_env =
  env_fragments :: "(string \<times> selection list) list"
  env_variables :: "(string \<times> int) list"
  default_list :: nat
  depth_cap :: nat
  complexity_cap :: nat

fun int_variables :: "json_value option \<Rightarrow> (string \<times> int) list" where
  "int_variables (Some (Object ms)) =
     List.map_filter (\<lambda>(k, v). case v of Number n \<Rightarrow> map_option (Pair k) (as_i64 n) | _ \<Rightarrow> None) ms"
| "int_variables _ = []"

definition arg_count :: "(string \<times> int) list \<Rightarrow> nat \<Rightarrow> gql_value \<Rightarrow> int" where
  "arg_count vars dflt v =
     (case v of
        IntValue n \<Rightarrow> n
      | Variable x \<Rightarrow> unwrap_or (map_of vars x) (int dflt)
      | Other \<Rightarrow> int dflt)"

fun list_multiplier :: "(string \<times> gql_value) list \<Rightarrow> (string \<times> int) list \<Rightarrow> nat \<Rightarrow> nat" where
  "list_multiplier [] vars dflt = 1"
| "list_multiplier ((name, v) # args) vars dflt =
     (if name \<in> {''first'', ''last'', ''limit''} \<and> 1 < arg_count vars dflt v
      then max (nat (arg_count vars dflt v)) (list_multiplier args vars dflt)
      else list_multiplier args vars dflt)"

definition count_field :: "bool \<Rightarrow> string \<Rightarrow> gql_stats \<Rightarrow> gql_stats" where
  "count_field al name st =
     st\<lparr>st_aliases := (if al then min (st_aliases st + 1) u32_max else st_aliases st),
        st_introspection := (st_introspection st \<or> name = ''__schema'' \<or> name = ''__type''),
        st_complexity := min (st_complexity st + 1) u64_max\<rparr>"

definition multiply_cost :: "nat \<Rightarrow> nat \<Rightarrow> gql_stats \<Rightarrow> gql_stats" where
  "multiply_cost mult before st =
     (let child_cost = st_complexity st - before
      in st\<lparr>st_complexity := min (st_complexity st + min (child_cost * (mult - 1)) u64_max) u64_max\<rparr>)"

text \<open>
  The walk ends: a spread puts a new fragment name on the stack, everything else goes to a part
  of the selection.
\<close>

definition open_fragments :: "walk_env \<Rightarrow> string list \<Rightarrow> nat" where
  "open_fragments env stack = card (set (map fst (env_fragments env)) - set stack)"

lemma open_fragments_push:
  assumes "name \<notin> set stack" and "map_of (env_fragments env) name = Some fragment"
  shows "open_fragments env (stack @ [name]) < open_fragments env stack"
proof -
  have "name \<in> set (map fst (env_fragments env)) - set stack"
    using assms by (force dest: map_of_SomeD)
  moreover have "set (map fst (env_fragments env)) - set (stack @ [name]) =
      (set (map fst (env_fragments env)) - set stack) - {name}" by auto
  ultimately show ?thesis unfolding open_fragments_def by (metis List.finite_set card_Diff1_less finite_Diff)
qed

function walk :: "walk_env \<Rightarrow> string list \<Rightarrow> nat \<Rightarrow> selection list \<Rightarrow> gql_stats \<Rightarrow> (graphql_failure, gql_stats) result"
and walk_items :: "walk_env \<Rightarrow> string list \<Rightarrow> nat \<Rightarrow> selection list \<Rightarrow> gql_stats \<Rightarrow> (graphql_failure, gql_stats) result" where
  "walk env stack depth items st =
     (if depth_cap env < depth then Err (Limit Depth)
      else walk_items env stack depth items (st\<lparr>st_depth := max (st_depth st) depth\<rparr>))"
| "walk_items env stack depth [] st = Ok st"
| "walk_items env stack depth (Field al name args children # items) st =
     (let st1 = count_field al name st
      in if complexity_cap env < st_complexity st1 then Err (Limit Complexity)
         else (case children of
                 None \<Rightarrow> walk_items env stack depth items st1
               | Some child \<Rightarrow>
                   result_bind (walk env stack (depth + 1) child st1) (\<lambda>st2.
                     let mult = list_multiplier args (env_variables env) (default_list env)
                     in if 1 < mult then
                          (let st3 = multiply_cost mult (st_complexity st1) st2
                           in if complexity_cap env < st_complexity st3 then Err (Limit Complexity)
                              else walk_items env stack depth items st3)
                        else walk_items env stack depth items st2)))"
| "walk_items env stack depth (Spread name # items) st =
     (if name \<in> set stack then Err (Limit FragmentLimit)
      else (case map_of (env_fragments env) name of
              None \<Rightarrow> Err ParseError
            | Some fragment \<Rightarrow>
                result_bind (walk env (stack @ [name]) depth fragment st) (\<lambda>st1. walk_items env stack depth items st1)))"
| "walk_items env stack depth (Inline child # items) st =
     result_bind (walk env stack depth child st) (\<lambda>st1. walk_items env stack depth items st1)"
  by pat_completeness auto

termination
proof (relation "inv_image (less_than <*lex*> less_than <*lex*> less_than)
    (\<lambda>x. case x of
       Inl (env, stack, depth, items, st) \<Rightarrow> (open_fragments env stack, size_list size items, 1 :: nat)
     | Inr (env, stack, depth, items, st) \<Rightarrow> (open_fragments env stack, size_list size items, 0))")
qed (auto simp: open_fragments_push)

definition analyze_document ::
    "document \<Rightarrow> json_value option \<Rightarrow> graphql_limits \<Rightarrow> (graphql_failure, gql_stats) result" where
  "analyze_document doc vars lim =
     (let env = \<lparr>env_fragments = fragments doc, env_variables = int_variables vars,
            default_list = default_list_size lim,
            depth_cap = min (unwrap_or (max_depth lim) HARD_DEPTH) HARD_DEPTH,
            complexity_cap = min (unwrap_or (max_complexity lim) HARD_COMPLEXITY) HARD_COMPLEXITY\<rparr>
      in foldl (\<lambda>acc op. result_bind acc (walk env [] 1 op))
           (Ok \<lparr>st_depth = 0, st_complexity = 0, st_aliases = 0, st_introspection = False\<rparr>) (operations doc))"

section \<open>Fragments hide nothing\<close>

text \<open>The selection with every fragment spread replaced by the fragment's own selection.\<close>

function expand :: "(string \<times> selection list) list \<Rightarrow> string list \<Rightarrow> selection list \<Rightarrow> selection list option" where
  "expand frs stack [] = Some []"
| "expand frs stack (Field al name args None # items) =
     map_option (Cons (Field al name args None)) (expand frs stack items)"
| "expand frs stack (Field al name args (Some child) # items) =
     (case expand frs stack child of
        None \<Rightarrow> None
      | Some c \<Rightarrow> map_option (Cons (Field al name args (Some c))) (expand frs stack items))"
| "expand frs stack (Spread name # items) =
     (if name \<in> set stack then None
      else (case map_of frs name of
              None \<Rightarrow> None
            | Some fragment \<Rightarrow>
                (case expand frs (stack @ [name]) fragment of
                   None \<Rightarrow> None
                 | Some c \<Rightarrow> map_option (Cons (Inline c)) (expand frs stack items))))"
| "expand frs stack (Inline child # items) =
     (case expand frs stack child of
        None \<Rightarrow> None
      | Some c \<Rightarrow> map_option (Cons (Inline c)) (expand frs stack items))"
  by pat_completeness auto
termination
proof (relation "inv_image (less_than <*lex*> less_than)
    (\<lambda>(frs, stack, items). (card (set (map fst frs) - set stack), size_list size items))", goal_cases)
  case (5 frs stack name items fragment)
  define env where "env = \<lparr>env_fragments = frs, env_variables = [], default_list = 0, depth_cap = 0, complexity_cap = 0\<rparr>"
  from 5 open_fragments_push [of name stack env fragment] show ?case
    by (simp add: env_def open_fragments_def)
qed auto

text \<open>The size of a selection without spreads: depth, cost, aliases and introspection.\<close>

fun height :: "selection list \<Rightarrow> nat" where
  "height [] = 0"
| "height (Field al name args None # items) = height items"
| "height (Field al name args (Some child) # items) = max (Suc (height child)) (height items)"
| "height (Spread name # items) = height items"
| "height (Inline child # items) = max (height child) (height items)"

fun total_cost :: "(string \<times> int) list \<Rightarrow> nat \<Rightarrow> selection list \<Rightarrow> nat" where
  "total_cost vars dflt [] = 0"
| "total_cost vars dflt (Field al name args None # items) = 1 + total_cost vars dflt items"
| "total_cost vars dflt (Field al name args (Some child) # items) =
     1 + list_multiplier args vars dflt * total_cost vars dflt child + total_cost vars dflt items"
| "total_cost vars dflt (Spread name # items) = total_cost vars dflt items"
| "total_cost vars dflt (Inline child # items) = total_cost vars dflt child + total_cost vars dflt items"

fun count_aliases :: "selection list \<Rightarrow> nat" where
  "count_aliases [] = 0"
| "count_aliases (Field al name args None # items) = of_bool al + count_aliases items"
| "count_aliases (Field al name args (Some child) # items) = of_bool al + count_aliases child + count_aliases items"
| "count_aliases (Spread name # items) = count_aliases items"
| "count_aliases (Inline child # items) = count_aliases child + count_aliases items"

fun introspects :: "selection list \<Rightarrow> bool" where
  "introspects [] = False"
| "introspects (Field al name args None # items) = (name \<in> {''__schema'', ''__type''} \<or> introspects items)"
| "introspects (Field al name args (Some child) # items) =
     (name \<in> {''__schema'', ''__type''} \<or> introspects child \<or> introspects items)"
| "introspects (Spread name # items) = introspects items"
| "introspects (Inline child # items) = (introspects child \<or> introspects items)"

definition measured :: "walk_env \<Rightarrow> nat \<Rightarrow> selection list \<Rightarrow> gql_stats \<Rightarrow> gql_stats option" where
  "measured env d ys st =
     (let c = st_complexity st + total_cost (env_variables env) (default_list env) ys
      in if d + height ys \<le> depth_cap env \<and> c \<le> complexity_cap env
         then Some \<lparr>st_depth = max (st_depth st) (d + height ys), st_complexity = c,
           st_aliases = st_aliases st + count_aliases ys, st_introspection = (st_introspection st \<or> introspects ys)\<rparr>
         else None)"

definition ok_part :: "('e, 'a) result \<Rightarrow> 'a option" where
  "ok_part x = (case x of Ok a \<Rightarrow> Some a | Err e \<Rightarrow> None)"

lemma ok_part_simps [simp]:
  "ok_part (Ok a) = Some a" "ok_part (Err e) = None"
  "ok_part (result_bind x f) = Option.bind (ok_part x) (\<lambda>a. ok_part (f a))"
  by (simp_all add: ok_part_def result_bind_def split: sum.split)

lemma list_multiplier_pos: "1 \<le> list_multiplier args vars dflt"
  by (induction args vars dflt rule: list_multiplier.induct) auto

lemma aliases_le_cost: "count_aliases ys \<le> total_cost vars dflt ys"
proof (induction ys rule: count_aliases.induct)
  case (3 al name args child items)
  have "total_cost vars dflt child \<le> list_multiplier args vars dflt * total_cost vars dflt child"
    using list_multiplier_pos [of args vars dflt] by simp
  with "3.IH"(1) have "count_aliases child \<le> list_multiplier args vars dflt * total_cost vars dflt child"
    by (rule order.trans)
  with "3.IH"(2) show ?case by (cases al) simp_all
qed (auto simp: of_bool_def)

definition stats_ok :: "walk_env \<Rightarrow> gql_stats \<Rightarrow> bool" where
  "stats_ok env st \<longleftrightarrow> st_complexity st \<le> complexity_cap env \<and> st_aliases st \<le> st_complexity st"

lemma measured_ok: "measured env d ys st = Some st' \<Longrightarrow> stats_ok env st \<Longrightarrow> stats_ok env st'"
  using aliases_le_cost [of ys "env_variables env" "default_list env"]
  by (auto simp: measured_def stats_ok_def Let_def split: if_splits)

lemma count_field_stats:
  assumes "stats_ok env st" and "complexity_cap env < u32_max"
  shows "count_field al name st =
    st\<lparr>st_aliases := st_aliases st + of_bool al,
       st_introspection := (st_introspection st \<or> name \<in> {''__schema'', ''__type''}),
       st_complexity := st_complexity st + 1\<rparr>"
  using assms by (simp add: count_field_def stats_ok_def)

lemma multiply_cost_stats:
  assumes "st_complexity st = before + n" and "1 \<le> mult" and "before + mult * n \<le> u64_max"
  shows "multiply_cost mult before st = st\<lparr>st_complexity := before + mult * n\<rparr>"
proof -
  obtain k where k: "mult = Suc k" using assms(2) by (cases mult) auto
  with assms(3) have "n * k \<le> u64_max" "before + n + n * k \<le> u64_max" by (simp_all add: algebra_simps)
  then have "min (before + n + min (n * k) u64_max) u64_max = before + n + n * k" by (simp only: min_absorb1)
  then show ?thesis by (simp add: multiply_cost_def Let_def assms(1) k algebra_simps)
qed

lemma multiply_cost_above:
  assumes "st_complexity st = before + n" and "cap < before + mult * n" and "1 \<le> mult" and "cap < u64_max"
  shows "cap < st_complexity (multiply_cost mult before st)"
proof -
  obtain k where k: "mult = Suc k" using assms(3) by (cases mult) auto
  have "cap < before + n + n * k" using assms(2) by (simp add: k algebra_simps)
  then have "cap < min (before + n + min (n * k) u64_max) u64_max" using assms(4) by (simp add: min_def)
  then show ?thesis by (simp add: multiply_cost_def Let_def assms(1) k)
qed

lemma measured_depth: "measured env d ys st = Some st' \<Longrightarrow> st_depth st \<le> st_depth st'"
  by (auto simp: measured_def Let_def split: if_splits)

lemma measured_inline:
  "measured env d (Inline c # ys) st = Option.bind (measured env d c st) (measured env d ys)"
  by (auto simp: measured_def Let_def max.assoc)

lemma measured_leaf:
  assumes "stats_ok env st" and "complexity_cap env < u32_max"
  shows "measured env d (Field al name args None # ys) st =
    (if complexity_cap env < st_complexity (count_field al name st) then None
     else measured env d ys (count_field al name st))"
  unfolding count_field_stats [OF assms] by (auto simp: measured_def Let_def)

text \<open>A field with a selection: the child is measured one level down and counted as often as the arguments say.\<close>

definition after_child :: "walk_env \<Rightarrow> (string \<times> gql_value) list \<Rightarrow> nat \<Rightarrow> gql_stats \<Rightarrow> gql_stats option" where
  "after_child env args before st =
     (let mult = list_multiplier args (env_variables env) (default_list env)
      in if 1 < mult then
           (let st3 = multiply_cost mult before st
            in if complexity_cap env < st_complexity st3 then None else Some st3)
         else Some st)"

lemma after_child_cost:
  assumes "st_complexity st = before + n" and "complexity_cap env < u64_max" and "before + n \<le> complexity_cap env"
  shows "after_child env args before st =
    (let mult = list_multiplier args (env_variables env) (default_list env)
     in if before + mult * n \<le> complexity_cap env then Some (st\<lparr>st_complexity := before + mult * n\<rparr>) else None)"
proof -
  define mult where "mult = list_multiplier args (env_variables env) (default_list env)"
  have m: "1 \<le> mult" unfolding mult_def by (rule list_multiplier_pos)
  show ?thesis
  proof (cases "1 < mult")
    case True
    then show ?thesis
      using multiply_cost_stats [OF assms(1) m] multiply_cost_above [OF assms(1) _ m assms(2)] assms(2)
      unfolding after_child_def mult_def [symmetric] Let_def by (cases "before + mult * n \<le> complexity_cap env") auto
  next
    case False
    then have "mult = 1" using m by simp
    then show ?thesis using assms(1,3) unfolding after_child_def mult_def [symmetric] by simp
  qed
qed

lemma after_child_ok:
  assumes "after_child env args before st = Some st'" and "stats_ok env st" and "complexity_cap env < u32_max"
  shows "stats_ok env st' \<and> st_depth st' = st_depth st"
  using assms by (auto simp: after_child_def multiply_cost_def stats_ok_def Let_def split: if_splits)

lemma measured_node:
  assumes "stats_ok env st" and cap: "complexity_cap env < u32_max"
  shows "measured env d (Field al name args (Some c) # ys) st =
    (if complexity_cap env < st_complexity (count_field al name st) then None
     else Option.bind (measured env (d + 1) c (count_field al name st)) (\<lambda>st2.
       Option.bind (after_child env args (st_complexity (count_field al name st)) st2) (measured env d ys)))"
proof -
  define st1 where "st1 = count_field al name st"
  define n where "n = total_cost (env_variables env) (default_list env) c"
  define mult where "mult = list_multiplier args (env_variables env) (default_list env)"
  have st1: "st1 = st\<lparr>st_aliases := st_aliases st + of_bool al,
       st_introspection := (st_introspection st \<or> name \<in> {''__schema'', ''__type''}),
       st_complexity := st_complexity st + 1\<rparr>"
    unfolding st1_def by (rule count_field_stats [OF assms])
  have "1 * n \<le> mult * n" unfolding mult_def by (intro mult_le_mono1 list_multiplier_pos)
  then have n: "n \<le> mult * n" by simp
  show ?thesis
  proof (cases "d + 1 + height c \<le> depth_cap env \<and> st_complexity st1 + n \<le> complexity_cap env")
    case True
    then obtain st2 where st2: "measured env (d + 1) c st1 = Some st2" "st_complexity st2 = st_complexity st1 + n"
      "st2 = \<lparr>st_depth = max (st_depth st1) (d + 1 + height c), st_complexity = st_complexity st1 + n,
           st_aliases = st_aliases st1 + count_aliases c, st_introspection = (st_introspection st1 \<or> introspects c)\<rparr>"
      by (simp add: measured_def n_def Let_def)
    have "after_child env args (st_complexity st1) st2 =
        (if st_complexity st1 + mult * n \<le> complexity_cap env
         then Some (st2\<lparr>st_complexity := st_complexity st1 + mult * n\<rparr>) else None)"
      using after_child_cost [OF st2(2), of env args] True cap by (simp add: mult_def Let_def)
    with True st2(1) show ?thesis unfolding st1_def [symmetric]
      by (auto simp: measured_def Let_def st2(3) st1 n_def [symmetric] mult_def [symmetric] max.assoc)
  next
    case False
    then have "measured env (d + 1) c st1 = None" by (auto simp: measured_def n_def Let_def)
    moreover have "measured env d (Field al name args (Some c) # ys) st = None"
    proof -
      have t: "total_cost (env_variables env) (default_list env) (Field al name args (Some c) # ys) =
          1 + mult * n + total_cost (env_variables env) (default_list env) ys" by (simp add: mult_def n_def)
      have "complexity_cap env < st_complexity st + (1 + mult * n)" if "complexity_cap env < st_complexity st1 + n"
      proof -
        have "st_complexity st1 = st_complexity st + 1" by (simp add: st1)
        with that n show ?thesis by linarith
      qed
      with False have "\<not> (d + height (Field al name args (Some c) # ys) \<le> depth_cap env \<and>
          st_complexity st + (1 + mult * n + total_cost (env_variables env) (default_list env) ys) \<le> complexity_cap env)"
        by auto
      then show ?thesis unfolding measured_def Let_def t by simp
    qed
    ultimately show ?thesis by (simp add: st1_def)
  qed
qed

lemma measures_seq:
  assumes "ok_part w = Option.bind e (\<lambda>c. measured env d c st)" and "stats_ok env st" and "d \<le> st_depth st"
    and "\<And>x. stats_ok env x \<Longrightarrow> d \<le> st_depth x \<Longrightarrow> ok_part (f x) = Option.bind e' (\<lambda>ys. measured env d ys x)"
  shows "ok_part (result_bind w f) =
    Option.bind (case e of None \<Rightarrow> None | Some c \<Rightarrow> map_option (Cons (Inline c)) e') (\<lambda>ys. measured env d ys st)"
proof (cases e)
  case (Some c)
  have "Option.bind (measured env d c st) (\<lambda>x. ok_part (f x)) =
      Option.bind (measured env d c st) (\<lambda>x. Option.bind e' (\<lambda>ys. measured env d ys x))"
  proof (cases "measured env d c st")
    case (Some x)
    then show ?thesis using assms(2-4) measured_ok [OF Some] measured_depth [OF Some] by simp
  qed simp
  then show ?thesis using assms(1) Some by (cases e'; cases "measured env d c st") (simp_all add: measured_inline)
qed (use assms(1) in simp)

lemma walk_measures:
  "complexity_cap env < u32_max \<Longrightarrow> stats_ok env st \<Longrightarrow>
     ok_part (walk env stack d items st) =
     Option.bind (expand (env_fragments env) stack items) (\<lambda>ys. measured env d ys st)"
  "complexity_cap env < u32_max \<Longrightarrow> stats_ok env st \<Longrightarrow> d \<le> st_depth st \<Longrightarrow> d \<le> depth_cap env \<Longrightarrow>
     ok_part (walk_items env stack d items st) =
     Option.bind (expand (env_fragments env) stack items) (\<lambda>ys. measured env d ys st)"
proof (induction env stack d items st and env stack d items st rule: walk_walk_items.induct)
  case (1 env stack d items st)
  show ?case
  proof (cases "depth_cap env < d")
    case True
    then show ?thesis by (auto simp: measured_def Let_def split: bind_splits)
  next
    case False
    have "stats_ok env (st\<lparr>st_depth := max (st_depth st) d\<rparr>)" using 1 by (simp add: stats_ok_def)
    moreover have "measured env d ys (st\<lparr>st_depth := max (st_depth st) d\<rparr>) = measured env d ys st" for ys
      by (simp add: measured_def Let_def max.assoc)
    ultimately show ?thesis using 1 False by simp
  qed
next
  case (2 env stack d st)
  then show ?case by (simp add: measured_def stats_ok_def)
next
  case (3 env stack d al name args children items st)
  define st1 where "st1 = count_field al name st"
  have ok1: "stats_ok env st1" if "\<not> complexity_cap env < st_complexity st1"
    using that "3.prems"(2) unfolding st1_def count_field_stats [OF "3.prems"(2,1)] by (auto simp: stats_ok_def)
  have d1: "d \<le> st_depth st1" using "3.prems"(3) by (simp add: st1_def count_field_def)
  show ?case
  proof (cases "complexity_cap env < st_complexity st1")
    case True
    then show ?thesis
      by (cases children) (auto simp: st1_def measured_leaf [OF "3.prems"(2,1)] measured_node [OF "3.prems"(2,1)] Let_def
          split: option.splits bind_splits)
  next
    case fits: False
    show ?thesis
    proof (cases children)
      case None
      from "3.IH"(1) [OF st1_def fits None "3.prems"(1) ok1 [OF fits] d1 "3.prems"(4)] fits None "3.prems"(1,2)
      show ?thesis by (cases "expand (env_fragments env) stack items") (simp_all add: st1_def measured_leaf [OF "3.prems"(2,1)] Let_def)
    next
      case (Some child)
      note IH = "3.IH"(2) [OF st1_def fits Some "3.prems"(1) ok1 [OF fits]]
      have rest: "ok_part (walk_items env stack d items st3) =
          Option.bind (expand (env_fragments env) stack items) (\<lambda>ys. measured env d ys st3)"
        if st2: "measured env (d + 1) c st1 = Some st2" and st3: "after_child env args (st_complexity st1) st2 = Some st3"
        for c st2 st3
      proof -
        have ok3: "stats_ok env st3" "d \<le> st_depth st3"
          using after_child_ok [OF st3 measured_ok [OF st2 ok1 [OF fits]] "3.prems"(1)] measured_depth [OF st2] d1 by simp_all
        show ?thesis
        proof (cases "1 < list_multiplier args (env_variables env) (default_list env)")
          case True
          with st3 have "st3 = multiply_cost (list_multiplier args (env_variables env) (default_list env)) (st_complexity st1) st2"
            "\<not> complexity_cap env < st_complexity st3"
            by (auto simp: after_child_def Let_def split: if_splits)
          from "3.IH"(3) [OF st1_def fits Some refl True this "3.prems"(1) ok3 "3.prems"(4)] show ?thesis .
        next
          case False
          from "3.IH"(4) [OF st1_def fits Some refl False "3.prems"(1) ok3 "3.prems"(4)] show ?thesis .
        qed
      qed
      have "ok_part (walk_items env stack d (Field al name args children # items) st) =
          Option.bind (ok_part (walk env stack (d + 1) child st1)) (\<lambda>st2.
            Option.bind (after_child env args (st_complexity st1) st2) (\<lambda>st3. ok_part (walk_items env stack d items st3)))"
        unfolding walk_items.simps st1_def [symmetric] using fits Some
        by (simp add: Let_def del: walk.simps) (auto simp: Let_def after_child_def intro!: arg_cong2 [where f = Option.bind])
      also have "\<dots> = Option.bind (expand (env_fragments env) stack child) (\<lambda>c. Option.bind (measured env (d + 1) c st1) (\<lambda>st2.
            Option.bind (after_child env args (st_complexity st1) st2) (\<lambda>st3.
              Option.bind (expand (env_fragments env) stack items) (\<lambda>ys. measured env d ys st3))))"
        unfolding IH using rest by (auto split: bind_splits)
      also have "\<dots> = Option.bind (expand (env_fragments env) stack (Field al name args children # items)) (\<lambda>ys. measured env d ys st)"
        using fits Some by (auto simp: measured_node [OF "3.prems"(2,1)] st1_def [symmetric] split: bind_splits option.splits)
      finally show ?thesis .
    qed
  qed
next
  case (4 env stack d name items st)
  show ?case
  proof (cases "name \<in> set stack \<or> map_of (env_fragments env) name = None")
    case False
    then obtain fr where fr: "name \<notin> set stack" "map_of (env_fragments env) name = Some fr" by auto
    from measures_seq [OF "4.IH"(1) [OF fr "4.prems"(1,2)] "4.prems"(2,3) "4.IH"(2) [OF fr "4.prems"(1) _ _ "4.prems"(4)]]
    show ?thesis using fr by simp
  qed auto
next
  case (5 env stack d child items st)
  from measures_seq [OF "5.IH"(1) [OF "5.prems"(1,2)] "5.prems"(2,3) "5.IH"(2) [OF "5.prems"(1) _ _ "5.prems"(4)]]
  show ?case by simp
qed

definition expand_operations :: "document \<Rightarrow> selection list list option" where
  "expand_operations doc = those (map (expand (fragments doc) []) (operations doc))"

definition full_depth :: "selection list list \<Rightarrow> nat" where
  "full_depth yss = foldr max (map (\<lambda>ys. Suc (height ys)) yss) 0"

definition full_cost :: "(string \<times> int) list \<Rightarrow> nat \<Rightarrow> selection list list \<Rightarrow> nat" where
  "full_cost vars dflt yss = sum_list (map (total_cost vars dflt) yss)"

definition full_stats :: "(string \<times> int) list \<Rightarrow> nat \<Rightarrow> selection list list \<Rightarrow> gql_stats" where
  "full_stats vars dflt yss =
     \<lparr>st_depth = full_depth yss, st_complexity = full_cost vars dflt yss,
      st_aliases = sum_list (map count_aliases yss), st_introspection = list_ex introspects yss\<rparr>"

definition measured_all :: "walk_env \<Rightarrow> selection list list \<Rightarrow> gql_stats \<Rightarrow> gql_stats option" where
  "measured_all env yss st =
     (let c = st_complexity st + full_cost (env_variables env) (default_list env) yss
      in if full_depth yss \<le> depth_cap env \<and> c \<le> complexity_cap env
         then Some \<lparr>st_depth = max (st_depth st) (full_depth yss), st_complexity = c,
           st_aliases = st_aliases st + sum_list (map count_aliases yss),
           st_introspection = (st_introspection st \<or> list_ex introspects yss)\<rparr>
         else None)"

lemma measured_all_Nil: "stats_ok env st \<Longrightarrow> measured_all env [] st = Some st"
  by (simp add: measured_all_def full_depth_def full_cost_def stats_ok_def)

lemma measured_all_Cons:
  "measured_all env (ys # yss) st = Option.bind (measured env 1 ys st) (measured_all env yss)"
  by (auto simp: measured_all_def measured_def full_depth_def full_cost_def Let_def max.assoc)

lemma foldl_bind_Err: "foldl (\<lambda>acc x. result_bind acc (f x)) (Err e) xs = Err e"
  by (induction xs) auto

lemma ok_part_foldl:
  "ok_part (foldl (\<lambda>acc x. result_bind acc (f x)) a xs) =
     Option.bind (ok_part a) (\<lambda>st. ok_part (foldl (\<lambda>acc x. result_bind acc (f x)) (Ok st) xs))"
  by (cases a) (simp_all add: foldl_bind_Err)

lemma walk_operations:
  assumes "complexity_cap env < u32_max" and "stats_ok env st"
  shows "ok_part (foldl (\<lambda>acc op. result_bind acc (walk env [] 1 op)) (Ok st) ops) =
    Option.bind (those (map (expand (env_fragments env) []) ops)) (\<lambda>yss. measured_all env yss st)"
  using assms(2)
proof (induction ops arbitrary: st)
  case Nil
  then show ?case by (simp add: measured_all_Nil)
next
  case (Cons op ops)
  have "Option.bind (measured env 1 ys st) (\<lambda>x. ok_part (foldl (\<lambda>acc op. result_bind acc (walk env [] 1 op)) (Ok x) ops)) =
      Option.bind (those (map (expand (env_fragments env) []) ops)) (\<lambda>yss. measured_all env (ys # yss) st)" for ys
    using Cons.IH [OF measured_ok [OF _ Cons.prems]]
    by (auto simp: measured_all_Cons simp del: walk.simps split: bind_splits)
  then show ?case
    by (subst foldl_Cons, subst ok_part_foldl)
      (simp add: walk_measures(1) [OF assms(1) Cons.prems] split: bind_splits option.splits del: walk.simps)
qed

abbreviation depth_limit :: "graphql_limits \<Rightarrow> nat" where
  "depth_limit lim \<equiv> min (unwrap_or (max_depth lim) HARD_DEPTH) HARD_DEPTH"

abbreviation cost_limit :: "graphql_limits \<Rightarrow> nat" where
  "cost_limit lim \<equiv> min (unwrap_or (max_complexity lim) HARD_COMPLEXITY) HARD_COMPLEXITY"

lemma analyze_document_measures:
  "ok_part (analyze_document doc vars lim) =
     Option.bind (expand_operations doc) (\<lambda>yss.
       if full_depth yss \<le> depth_limit lim \<and> full_cost (int_variables vars) (default_list_size lim) yss \<le> cost_limit lim
       then Some (full_stats (int_variables vars) (default_list_size lim) yss) else None)"
  unfolding analyze_document_def Let_def
  by (subst walk_operations) (auto simp: stats_ok_def measured_all_def expand_operations_def full_stats_def Let_def split: bind_splits)

lemma ok_part_eq: "ok_part x = Some a \<longleftrightarrow> x = Ok a"
  by (cases x) (auto simp: ok_part_def)

section \<open>Theorem\<close>

text \<open>C4. The analysis of a document is that of the document with all fragment spreads written out:
  it succeeds exactly when every spread resolves without a cycle and the written-out operations
  keep to the depth and cost limits, and its figures are then their depth, cost, aliases and use of
  introspection.\<close>

theorem analysis_sees_the_expansion:
  "analyze_document doc vars lim = Ok st \<longleftrightarrow>
     (\<exists>yss. expand_operations doc = Some yss \<and> st = full_stats (int_variables vars) (default_list_size lim) yss \<and>
        st_depth st \<le> min (unwrap_or (max_depth lim) HARD_DEPTH) HARD_DEPTH \<and>
        st_complexity st \<le> min (unwrap_or (max_complexity lim) HARD_COMPLEXITY) HARD_COMPLEXITY)"
proof -
  have "analyze_document doc vars lim = Ok st \<longleftrightarrow> ok_part (analyze_document doc vars lim) = Some st"
    by (simp only: ok_part_eq)
  then show ?thesis unfolding analyze_document_measures
    by (cases "expand_operations doc") (auto simp: full_stats_def simp del: min.bounded_iff)
qed

end
