(* ===== verification/Graphql_Gate.thy ===== *)
theory Graphql_Gate
  imports Graphql_Limits Route_Path Assoc_Maps
begin

text \<open>
  The GraphQL gate, \<open>src/src/graphql.rs\<close>: the extraction of operations from a request body,
  the evaluation of the limits and the quota. The JSON parser and the SHA-256 digest are
  parameters. The clock readings are arguments. The book of a policy is shared by reference;
  here it is passed along with the calls.
\<close>

section \<open>Quota\<close>

record quota_book =
  book_hits :: "(string \<times> (nat \<times> nat) list) list"
  book_n :: nat

definition new_book :: quota_book where
  "new_book = \<lparr>book_hits = [], book_n = 0\<rparr>"



definition fresh_stamps :: "nat \<Rightarrow> nat \<Rightarrow> (nat \<times> nat) list \<Rightarrow> (nat \<times> nat) list" where
  "fresh_stamps window now stamps = filter (\<lambda>(at, cost). now - at < window) stamps"

definition sweep_book :: "nat \<Rightarrow> nat \<Rightarrow> (string \<times> (nat \<times> nat) list) list \<Rightarrow> (string \<times> (nat \<times> nat) list) list" where
  "sweep_book window now hits =
     filter (\<lambda>(k, stamps). stamps \<noteq> []) (map (\<lambda>(k, stamps). (k, fresh_stamps window now stamps)) hits)"

definition used_cost :: "(nat \<times> nat) list \<Rightarrow> nat" where
  "used_cost stamps = foldl (\<lambda>acc c. min (acc + c) u64_max) 0 (map snd stamps)"

text \<open>\<open>now1\<close> is the clock reading of the sweep, \<open>now\<close> the later one of the check.\<close>

definition consume_quota ::
    "graphql_limits \<Rightarrow> string \<Rightarrow> nat \<Rightarrow> nat \<Rightarrow> nat \<Rightarrow> quota_book \<Rightarrow> (graphql_failure, unit) result \<times> quota_book" where
  "consume_quota lim key cost now1 now book =
     (case quota lim of
        None \<Rightarrow> (Ok (), book)
      | Some m \<Rightarrow>
          (let window = quota_window lim;
               hits1 = (if book_n book mod SWEEP_EVERY = 0 then sweep_book window now1 (book_hits book) else book_hits book);
               book1 = \<lparr>book_hits = hits1, book_n = (book_n book + 1) mod (u64_max + 1)\<rparr>
           in if map_of hits1 key = None \<and> QUOTA_MAX_KEYS \<le> length hits1 then (Err (Limit Quota), book1)
              else
                let entry = fresh_stamps window now (unwrap_or (map_of hits1 key) []);
                    used = used_cost entry
                in if m < min (used + cost) u64_max
                   then (Err (Limit Quota), book1\<lparr>book_hits := AList.update key entry hits1\<rparr>)
                   else (Ok (), book1\<lparr>book_hits := AList.update key (entry @ [(now, cost)]) hits1\<rparr>)))"

section \<open>Requests\<close>













definition over :: "nat \<Rightarrow> nat option \<Rightarrow> bool" where
  "over v m = (case m of Some b \<Rightarrow> b < v | None \<Rightarrow> False)"






section \<open>What a request asks for\<close>





















section \<open>The quota window\<close>

definition spent_in :: "nat \<Rightarrow> nat \<Rightarrow> (nat \<times> nat) list \<Rightarrow> nat" where
  "spent_in w a hs = sum_list (map snd (filter (\<lambda>(t, cost). a \<le> t \<and> t < a + w) hs))"

text \<open>
  \<open>accounts w m c ts hs\<close>: the stamps \<open>ts\<close>, last touched at \<open>c\<close>, still answer for every
  admission of \<open>hs\<close> that is fresh from now on, and no window of \<open>hs\<close> costs more than \<open>m\<close>.
\<close>

definition accounts :: "nat \<Rightarrow> nat \<Rightarrow> nat \<Rightarrow> (nat \<times> nat) list \<Rightarrow> (nat \<times> nat) list \<Rightarrow> bool" where
  "accounts w m c ts hs \<longleftrightarrow>
     (\<forall>now \<ge> c. fresh_stamps w now ts = fresh_stamps w now hs) \<and> (\<forall>h \<in> set hs. fst h \<le> c) \<and>
     (\<forall>a. spent_in w a hs \<le> m)"

lemma accounts_Nil: "accounts w m c [] []"
  by (simp add: accounts_def spent_in_def)

lemma accounts_later: "accounts w m c ts hs \<Longrightarrow> c \<le> c' \<Longrightarrow> accounts w m c' ts hs"
  by (fastforce simp: accounts_def)

lemma fresh_fresh: "c \<le> now \<Longrightarrow> fresh_stamps w now (fresh_stamps w c ts) = fresh_stamps w now ts"
  by (auto simp: fresh_stamps_def filter_filter intro!: filter_cong)

lemma accounts_fresh: "accounts w m c ts hs \<Longrightarrow> c \<le> now \<Longrightarrow> accounts w m now (fresh_stamps w now ts) hs"
  using accounts_later [of w m c ts hs now] by (auto simp: accounts_def fresh_fresh)

lemma spent_in_fresh:
  assumes "a \<le> now" and "now < a + w"
  shows "spent_in w a hs \<le> sum_list (map snd (fresh_stamps w now hs))"
  using assms by (induction hs) (auto simp: spent_in_def fresh_stamps_def)

lemma accounts_push:
  assumes acc: "accounts w m c ts hs" and c: "c \<le> now"
    and room: "sum_list (map snd (fresh_stamps w now ts)) + cost \<le> m"
  shows "accounts w m now (fresh_stamps w now ts @ [(now, cost)]) (hs @ [(now, cost)])"
proof -
  have "spent_in w a (hs @ [(now, cost)]) \<le> m" for a
  proof (cases "a \<le> now \<and> now < a + w")
    case True
    have "fresh_stamps w now ts = fresh_stamps w now hs" using acc c by (simp add: accounts_def)
    with room spent_in_fresh [of a now w hs] True show ?thesis by (simp add: spent_in_def)
  next
    case False
    then show ?thesis using acc by (auto simp: spent_in_def accounts_def)
  qed
  moreover have "fresh_stamps w t (fresh_stamps w now ts @ [(now, cost)]) = fresh_stamps w t (hs @ [(now, cost)])"
    if "now \<le> t" for t
  proof -
    have "fresh_stamps w t ts = fresh_stamps w t hs" using acc c that by (simp add: accounts_def)
    then show ?thesis using fresh_fresh [OF that, of w ts] by (simp add: fresh_stamps_def)
  qed
  moreover have "\<forall>h \<in> set (hs @ [(now, cost)]). fst h \<le> now" using acc c by (fastforce simp: accounts_def)
  ultimately show ?thesis by (simp add: accounts_def)
qed

lemma used_cost_sum: "used_cost ts = min (sum_list (map snd ts)) u64_max"
proof -
  have "a \<le> u64_max \<Longrightarrow> foldl (\<lambda>acc c. min (acc + c) u64_max) a cs = min (a + sum_list cs) u64_max" for a cs
    by (induction cs arbitrary: a) auto
  from this [of 0] show ?thesis by (simp add: used_cost_def)
qed

text \<open>A book with the admissions it stands for, in the order they happened.\<close>

definition history :: "string \<Rightarrow> (string \<times> nat \<times> nat) list \<Rightarrow> (nat \<times> nat) list" where
  "history key hs = map snd (filter (\<lambda>(k, h). k = key) hs)"

definition book_inv :: "nat \<Rightarrow> nat \<Rightarrow> nat \<Rightarrow> quota_book \<Rightarrow> (string \<times> nat \<times> nat) list \<Rightarrow> bool" where
  "book_inv w m c book hs \<longleftrightarrow>
     distinct (map fst (book_hits book)) \<and> length (book_hits book) \<le> QUOTA_MAX_KEYS \<and>
     (\<forall>key. accounts w m c (unwrap_or (map_of (book_hits book) key) []) (history key hs))"

lemma map_of_sweep:
  "distinct (map fst hits) \<Longrightarrow>
     unwrap_or (map_of (sweep_book w now hits) key) [] = fresh_stamps w now (unwrap_or (map_of hits key) [])"
proof (induction hits)
  case (Cons x hits)
  have "map_of (sweep_book w now hits) key = None" if "key \<notin> fst ` set hits"
    using that by (force simp: map_of_eq_None_iff sweep_book_def)
  with Cons show ?case by (auto simp: sweep_book_def unwrap_or_def split: option.splits prod.splits)
qed (simp add: sweep_book_def fresh_stamps_def unwrap_or_def)

lemma sweep_book_keys:
  "distinct (map fst hits) \<Longrightarrow> distinct (map fst (sweep_book w now hits))"
  "length (sweep_book w now hits) \<le> length hits"
proof -
  have "map fst (map (\<lambda>(k, stamps). (k, fresh_stamps w now stamps)) hits) = map fst hits" by (induction hits) auto
  then show "distinct (map fst hits) \<Longrightarrow> distinct (map fst (sweep_book w now hits))"
    unfolding sweep_book_def by (metis distinct_map_filter)
qed (metis length_filter_le length_map sweep_book_def)

record quota_call =
  call_key :: string
  call_cost :: nat
  call_sweep :: nat
  call_now :: nat

definition quota_step ::
    "graphql_limits \<Rightarrow> quota_book \<times> (string \<times> nat \<times> nat) list \<Rightarrow> quota_call \<Rightarrow> quota_book \<times> (string \<times> nat \<times> nat) list" where
  "quota_step lim s call =
     (case consume_quota lim (call_key call) (call_cost call) (call_sweep call) (call_now call) (fst s) of
        (Ok u, book) \<Rightarrow> (book, snd s @ [(call_key call, call_now call, call_cost call)])
      | (Err e, book) \<Rightarrow> (book, snd s))"

definition quota_run :: "graphql_limits \<Rightarrow> quota_call list \<Rightarrow> quota_book \<times> (string \<times> nat \<times> nat) list" where
  "quota_run lim calls = foldl (quota_step lim) (new_book, []) calls"

definition call_times :: "quota_call list \<Rightarrow> nat list" where
  "call_times calls = concat (map (\<lambda>call. [call_sweep call, call_now call]) calls)"

lemma book_inv_sweep:
  assumes "book_inv w m c book hs" and "c \<le> now1"
  shows "book_inv w m now1 (book\<lparr>book_hits := (if b then sweep_book w now1 (book_hits book) else book_hits book), book_n := n\<rparr>) hs"
  using assms accounts_fresh [of w m c _ _ now1] accounts_later [of w m c _ _ now1]
    sweep_book_keys(1) [of "book_hits book" w now1] sweep_book_keys(2) [where hits = "book_hits book" and w = w and now = now1]
  by (auto simp: book_inv_def map_of_sweep)

lemma book_inv_later: "book_inv w m c book hs \<Longrightarrow> c \<le> now \<Longrightarrow> book_inv w m now book hs"
  using accounts_later [of w m c _ _ now] by (simp add: book_inv_def)

text \<open>Writing one entry: the entry must answer for the key, and a new key needs room.\<close>

lemma book_inv_write:
  assumes inv: "book_inv w m c book hs" and c: "c \<le> now"
    and room: "map_of (book_hits book) key \<noteq> None \<or> length (book_hits book) < QUOTA_MAX_KEYS"
    and acc: "accounts w m now entry (history key hs')"
    and other: "\<And>k. k \<noteq> key \<Longrightarrow> history k hs' = history k hs"
  shows "book_inv w m now (book\<lparr>book_hits := AList.update key entry (book_hits book)\<rparr>) hs'"
proof -
  have "length (AList.update key entry xs) = length xs + of_bool (map_of xs key = None)" for xs
    by (induction xs) auto
  then have "length (AList.update key entry (book_hits book)) \<le> QUOTA_MAX_KEYS"
    using inv room by (auto simp: book_inv_def)
  moreover have "accounts w m now (unwrap_or (map_of (AList.update key entry (book_hits book)) k) []) (history k hs')" for k
    using acc other [of k] book_inv_later [OF inv c] by (cases "k = key") (auto simp: book_inv_def update_conv')
  ultimately show ?thesis using inv by (simp add: book_inv_def distinct_update)
qed

lemma quota_step_inv:
  assumes inv: "book_inv (quota_window lim) m c (fst s) (snd s)" and q: "quota lim = Some m" "m < u64_max"
    and t: "c \<le> call_sweep call" "call_sweep call \<le> call_now call"
  shows "book_inv (quota_window lim) m (call_now call) (fst (quota_step lim s call)) (snd (quota_step lim s call))"
proof -
  let ?w = "quota_window lim" and ?key = "call_key call" and ?now = "call_now call"
  define book1 where "book1 = fst s\<lparr>book_hits := (if book_n (fst s) mod SWEEP_EVERY = 0
      then sweep_book ?w (call_sweep call) (book_hits (fst s)) else book_hits (fst s)), book_n := (book_n (fst s) + 1) mod (u64_max + 1)\<rparr>"
  define entry where "entry = fresh_stamps ?w ?now (unwrap_or (map_of (book_hits book1) ?key) [])"
  have inv1: "book_inv ?w m (call_sweep call) book1 (snd s)" unfolding book1_def by (rule book_inv_sweep [OF inv t(1)])
  have step: "consume_quota lim ?key (call_cost call) (call_sweep call) ?now (fst s) =
      (if map_of (book_hits book1) ?key = None \<and> QUOTA_MAX_KEYS \<le> length (book_hits book1) then (Err (Limit Quota), book1)
       else if m < min (used_cost entry + call_cost call) u64_max
       then (Err (Limit Quota), book1\<lparr>book_hits := AList.update ?key entry (book_hits book1)\<rparr>)
       else (Ok (), book1\<lparr>book_hits := AList.update ?key (entry @ [(?now, call_cost call)]) (book_hits book1)\<rparr>))"
    by (simp add: consume_quota_def q(1) Let_def book1_def entry_def)
  have acc: "accounts ?w m (call_sweep call) (unwrap_or (map_of (book_hits book1) ?key) []) (history ?key (snd s))"
    using inv1 by (simp add: book_inv_def)
  consider (full) "map_of (book_hits book1) ?key = None \<and> QUOTA_MAX_KEYS \<le> length (book_hits book1)"
    | (over) "\<not> (map_of (book_hits book1) ?key = None \<and> QUOTA_MAX_KEYS \<le> length (book_hits book1))"
        "m < min (used_cost entry + call_cost call) u64_max"
    | (fits) "\<not> (map_of (book_hits book1) ?key = None \<and> QUOTA_MAX_KEYS \<le> length (book_hits book1))"
        "\<not> m < min (used_cost entry + call_cost call) u64_max" by blast
  then show ?thesis
  proof cases
    case full
    then show ?thesis using book_inv_later [OF inv1 t(2)] by (simp add: quota_step_def step)
  next
    case over
    then show ?thesis using book_inv_write [OF inv1 t(2) _ accounts_fresh [OF acc t(2)]]
      by (auto simp: quota_step_def step entry_def)
  next
    case fits
    have "sum_list (map snd entry) + call_cost call \<le> m" using fits(2) q(2) by (auto simp: used_cost_sum min_def split: if_splits)
    from accounts_push [OF acc t(2) this [unfolded entry_def]]
    have "accounts ?w m ?now (entry @ [(?now, call_cost call)]) (history ?key (snd s @ [(?key, ?now, call_cost call)]))"
      by (simp add: entry_def history_def)
    then show ?thesis using fits book_inv_write [OF inv1 t(2), of ?key]
      by (auto simp: quota_step_def step history_def)
  qed
qed

lemma quota_run_inv:
  assumes "quota lim = Some m" and "m < u64_max" and "sorted (call_times calls)"
  shows "\<exists>c. book_inv (quota_window lim) m c (fst (quota_run lim calls)) (snd (quota_run lim calls)) \<and>
    (\<forall>t. sorted (call_times calls @ [t]) \<longrightarrow> c \<le> t)"
  using assms(3)
proof (induction calls rule: rev_induct)
  case Nil
  then show ?case by (auto simp: quota_run_def new_book_def book_inv_def history_def accounts_Nil unwrap_or_def intro!: exI [of _ 0])
next
  case (snoc call calls)
  have "sorted (call_times calls @ [call_sweep call])" "call_sweep call \<le> call_now call"
    using snoc.prems by (auto simp: call_times_def sorted_append)
  moreover from this(1) have "sorted (call_times calls)" by (simp add: sorted_append)
  ultimately obtain c where "book_inv (quota_window lim) m c (fst (quota_run lim calls)) (snd (quota_run lim calls))"
    "c \<le> call_sweep call" using snoc.IH by blast
  from quota_step_inv [OF this(1) assms(1,2) this(2) \<open>call_sweep call \<le> call_now call\<close>]
  show ?case by (auto simp: quota_run_def call_times_def sorted_append intro!: exI [of _ "call_now call"])
qed

section \<open>Theorems\<close>



text \<open>Whatever the sequence of requests, the cost admitted for one key within any window stays
  within the quota, and the book never holds more than 50,000 keys.\<close>

theorem quota_window_bound:
  assumes "quota lim = Some m" and "m < u64_max" and "sorted (call_times calls)"
  shows "spent_in (quota_window lim) a (history key (snd (quota_run lim calls))) \<le> m \<and>
    length (book_hits (fst (quota_run lim calls))) \<le> QUOTA_MAX_KEYS"
  using quota_run_inv [OF assms] by (auto simp: book_inv_def accounts_def)

theorem quota_window_bound_witness:
  "let lim = \<lparr>max_depth = None, max_complexity = None, max_aliases = None, max_fragments = None,
         max_operations = None, introspection = False, introspection_set = True, persisted_only = False,
         persisted_only_set = False, default_list_size = 10, quota = Some 2, quota_window = 10\<rparr>;
       calls = [\<lparr>call_key = ''k'', call_cost = 2, call_sweep = 0, call_now = 0\<rparr>,
                \<lparr>call_key = ''k'', call_cost = 1, call_sweep = 5, call_now = 5\<rparr>]
   in snd (quota_run lim calls) = [(''k'', 0, 2)] \<and> spent_in 10 0 (history ''k'' (snd (quota_run lim calls))) \<le> 2"
proof -
  let ?lim = "\<lparr>max_depth = None, max_complexity = None, max_aliases = None, max_fragments = None,
         max_operations = None, introspection = False, introspection_set = True, persisted_only = False,
         persisted_only_set = False, default_list_size = 10, quota = Some 2, quota_window = 10\<rparr>"
  let ?calls = "[\<lparr>call_key = ''k'', call_cost = 2, call_sweep = 0, call_now = 0\<rparr>,
                \<lparr>call_key = ''k'', call_cost = 1, call_sweep = 5, call_now = 5\<rparr>]"
  have "snd (quota_run ?lim ?calls) = [(''k'', 0, 2)]"
    by (simp add: quota_run_def quota_step_def consume_quota_def new_book_def sweep_book_def fresh_stamps_def used_cost_def
        unwrap_or_def)
  moreover have "sorted (call_times ?calls)" by (simp add: call_times_def)
  ultimately show ?thesis
    using quota_window_bound [of ?lim 2 ?calls 0 "''k''"] by (simp add: Let_def)
qed

section \<open>Observations\<close>

text \<open>
  A route's overlay counts into the book of its site. When the route has a shorter window, its
  requests erase stamps the longer window still needs: here four units are admitted within one
  window of a quota of two.
\<close>

lemma shorter_window_forgets:
  assumes "quota site_lim = Some 2" and "quota_window site_lim = 60"
    and "quota route_lim = Some 2" and "quota_window route_lim = 1"
    and "consume_quota site_lim ''k'' 2 0 0 new_book = (r1, book1)"
    and "consume_quota route_lim ''k'' 3 5 5 book1 = (r2, book2)"
  shows "r1 = Ok () \<and> r2 = Err (Limit Quota) \<and> fst (consume_quota site_lim ''k'' 2 6 6 book2) = Ok ()"
  using assms
  by (auto simp: consume_quota_def new_book_def sweep_book_def fresh_stamps_def used_cost_def unwrap_or_def)

text \<open>The default of a variable is parsed and forgotten, so it does not raise the cost of a list.\<close>

lemma variable_default_ignored:
  "parse_document ''query($n:T=9){a(first:$n)}'' = parse_document ''query($n:T){a(first:$n)}''"
  by code_simp

end
