(* ===== verification/Rust_Text.thy ===== *)
theory Rust_Text
  imports Prelude
begin

text \<open>
  String functions of the standard library with a string as pattern: \<open>find\<close>, \<open>split_once\<close>,
  \<open>split\<close>, \<open>split_whitespace\<close> and \<open>lines\<close>.
\<close>

primrec find_str :: "'a list \<Rightarrow> 'a list \<Rightarrow> nat option" where
  "find_str p [] = (if p = [] then Some 0 else None)"
| "find_str p (x # xs) = (if starts_with (x # xs) p then Some 0 else map_option Suc (find_str p xs))"

definition split_once_str :: "'a list \<Rightarrow> 'a list \<Rightarrow> ('a list \<times> 'a list) option" where
  "split_once_str p s = map_option (\<lambda>i. (take i s, drop (i + length p) s)) (find_str p s)"

lemma find_str_Some: "find_str p s = Some i \<Longrightarrow> i + length p \<le> length s \<and> take (length p) (drop i s) = p"
proof (induction s arbitrary: i)
  case (Cons x xs)
  show ?case
  proof (cases "starts_with (x # xs) p")
    case True
    then have "length p \<le> Suc (length xs)" by (auto simp: starts_with_iff Cons_eq_append_conv)
    with True Cons.prems show ?thesis by (simp add: starts_with_def)
  next
    case False
    with Cons show ?thesis by auto
  qed
qed (simp split: if_splits)

lemma find_str_append: "find_str p s = Some i \<Longrightarrow> find_str p (s @ t) = Some i"
proof (induction s arbitrary: i)
  case Nil
  then show ?case by (cases t) (auto simp: starts_with_def split: if_splits)
next
  case (Cons x xs)
  show ?case
  proof (cases "starts_with (x # xs) p")
    case True
    then obtain r where "x # xs = p @ r" by (auto simp: starts_with_iff)
    then have "x # xs @ t = p @ (r @ t)" by (metis append_Cons append_assoc)
    then have "starts_with (x # xs @ t) p" by (metis starts_with_append)
    with True Cons.prems show ?thesis by simp
  next
    case False
    with Cons.prems obtain j where j: "find_str p xs = Some j" "i = Suc j" by auto
    have "\<not> starts_with (x # xs @ t) p"
    proof
      assume "starts_with (x # xs @ t) p"
      moreover have "length p \<le> Suc (length xs)" using find_str_Some [OF j(1)] by linarith
      ultimately show False using False by (simp add: starts_with_def take_Cons' split: if_splits)
    qed
    with Cons.IH [OF j(1)] j(2) show ?thesis by simp
  qed
qed

lemma split_once_str_shorter:
  assumes "split_once_str p s = Some (a, b)" and "p \<noteq> []"
  shows "length b < length s"
proof -
  obtain i where i: "find_str p s = Some i" "b = drop (i + length p) s"
    using assms(1) by (auto simp: split_once_str_def)
  from find_str_Some [OF i(1)] i(2) assms(2) show ?thesis by (cases p) auto
qed

text \<open>\<open>str::split\<close> with a string pattern; the pattern is never empty.\<close>

function split_str :: "'a list \<Rightarrow> 'a list \<Rightarrow> 'a list list" where
  "split_str p s =
     (if p = [] then [s]
      else case split_once_str p s of None \<Rightarrow> [s] | Some (a, b) \<Rightarrow> a # split_str p b)"
  by pat_completeness auto
termination
  by (relation "measure (\<lambda>(p, s). length s)") (auto dest: split_once_str_shorter)

declare split_str.simps [simp del]

definition flush :: "'a list \<Rightarrow> 'a list list" where
  "flush acc = (if acc = [] then [] else [acc])"

function words_from :: "string \<Rightarrow> string \<Rightarrow> string list" where
  "words_from acc [] = flush acc"
| "words_from acc (c # r) =
     (case find (\<lambda>e. e \<noteq> [] \<and> starts_with (c # r) e) white_space of
        Some e \<Rightarrow> flush acc @ words_from [] (drop (length e) (c # r))
      | None \<Rightarrow> words_from (acc @ [c]) r)"
  by pat_completeness auto
termination
  by (relation "measure (\<lambda>(acc, s). length s)") (auto simp: find_Some_iff)

definition split_whitespace :: "string \<Rightarrow> string list" where
  "split_whitespace s = words_from [] s"

definition chop_cr :: "string \<Rightarrow> string" where
  "chop_cr s = (case strip_suffix s [CHR 0x0D] of Some r \<Rightarrow> r | None \<Rightarrow> s)"

text \<open>\<open>str::lines\<close>: an empty piece behind the last line feed is not a line; only a carriage
  return in front of a line feed is dropped.\<close>

definition str_lines :: "string \<Rightarrow> string list" where
  "str_lines s =
     (let ps = split_on (CHR 0x0A) s
      in map chop_cr (butlast ps) @ (if last ps = [] then [] else [last ps]))"

end
