(* ===== verification/Jwt_Keys.thy ===== *)
theory Jwt_Keys
  imports Route_Path Rust_Text Json_Value Assoc_Maps
begin

text \<open>
  The keys of the JWT identity, \<open>src/src/jwt.rs\<close>: algorithms, the key set, its cache and its
  download. The library functions the code calls (base64, JSON, the primitives of OpenSSL, the hash
  of a token id) are the fields of \<open>jwt_lib\<close>. Clock readings and the answers of the network are
  arguments.
\<close>

section \<open>Algorithms\<close>

datatype algorithm = Rs256 | Es256 | Hs256 | Hs384 | Hs512

datatype alg_error = AlgNone | AlgHmacUnlisted | AlgUnknown

definition algorithm_parse :: "string \<Rightarrow> (alg_error, algorithm) result" where
  "algorithm_parse raw =
     (let t = trim raw
      in if t = ''RS256'' then Ok Rs256
         else if t = ''ES256'' then Ok Es256
         else if t = ''HS256'' then Ok Hs256
         else if t = ''HS384'' then Ok Hs384
         else if t = ''HS512'' then Ok Hs512
         else if t = ''none'' \<or> t = ''None'' \<or> t = ''NONE'' then Err AlgNone
         else if starts_with (to_ascii_uppercase t) ''HS'' then Err AlgHmacUnlisted
         else Err AlgUnknown)"

definition is_hmac :: "algorithm \<Rightarrow> bool" where
  "is_hmac alg \<longleftrightarrow> alg = Hs256 \<or> alg = Hs384 \<or> alg = Hs512"

datatype digest_name = Sha256 | Sha384 | Sha512

fun digest :: "algorithm \<Rightarrow> digest_name" where
  "digest Hs384 = Sha384"
| "digest Hs512 = Sha512"
| "digest _ = Sha256"

record jwt_header =
  header_alg :: string
  header_kid :: "string option"
  header_typ :: "string option"
  header_crit :: "string list option"

record jwk_doc =
  jwk_kty :: string
  jwk_kid :: "string option"
  jwk_alg :: "string option"
  jwk_use :: "string option"
  jwk_n :: "string option"
  jwk_e :: "string option"
  jwk_crv :: "string option"
  jwk_x :: "string option"
  jwk_y :: "string option"

text \<open>What the code takes from other crates, and the unspecified hash of the standard library.\<close>

record jwt_lib =
  lib_base64 :: "string \<Rightarrow> string option"
  lib_header :: "string \<Rightarrow> jwt_header option"
  lib_json :: "string \<Rightarrow> json_value option"
  lib_jwks :: "string \<Rightarrow> jwk_doc list option"
  lib_hmac :: "digest_name \<Rightarrow> string \<Rightarrow> string \<Rightarrow> string option"
  lib_rsa :: "string \<Rightarrow> string \<Rightarrow> string \<Rightarrow> string \<Rightarrow> bool"
  lib_ecdsa :: "string \<Rightarrow> string \<Rightarrow> string \<Rightarrow> bool"
  lib_number :: "string \<Rightarrow> string"
  lib_float_secs :: "string \<Rightarrow> nat option"
  lib_hash :: "string \<Rightarrow> nat"

section \<open>Keys\<close>

abbreviation JWKS_TIMEOUT :: nat where "JWKS_TIMEOUT \<equiv> 2 * 1000000000"
abbreviation JWKS_TTL :: nat where "JWKS_TTL \<equiv> 300 * 1000000000"
abbreviation JWKS_MIN_REFRESH :: nat where "JWKS_MIN_REFRESH \<equiv> 1000000000"
abbreviation JWKS_MAX_BODY :: nat where "JWKS_MAX_BODY \<equiv> 64 * 1024"
abbreviation JWKS_MAX_KEYS :: nat where "JWKS_MAX_KEYS \<equiv> 32"
abbreviation JWKS_MAX_REDIRECTS :: nat where "JWKS_MAX_REDIRECTS \<equiv> 3"
abbreviation TOKEN_MAX_BYTES :: nat where "TOKEN_MAX_BYTES \<equiv> 8 * 1024"
abbreviation MAX_JTI :: nat where "MAX_JTI \<equiv> 50000"
abbreviation RSA_MIN_BITS :: nat where "RSA_MIN_BITS \<equiv> 2048"
abbreviation DEFAULT_LEEWAY_SECS :: nat where "DEFAULT_LEEWAY_SECS \<equiv> 60"

datatype key_material = RsaKey (rsa_n: string) (rsa_e: string) | EcKey (ec_x: string) (ec_y: string)

record cached_jwk =
  key_alg :: "algorithm option"
  key_material :: key_material

definition nonblank :: "string option \<Rightarrow> string option" where
  "nonblank x = opt_filter (\<lambda>s. s \<noteq> []) (map_option trim x)"

definition jwk_material :: "jwt_lib \<Rightarrow> jwk_doc \<Rightarrow> key_material option" where
  "jwk_material lib jwk =
     (if jwk_kty jwk = ''RSA'' then
        (case (lib_base64 lib (unwrap_or (jwk_n jwk) []), lib_base64 lib (unwrap_or (jwk_e jwk) [])) of
           (Some n, Some e) \<Rightarrow> if n = [] \<or> e = [] then None else Some (RsaKey n e)
         | _ \<Rightarrow> None)
      else if jwk_kty jwk = ''EC'' then
        (if jwk_crv jwk \<noteq> Some ''P-256'' then None
         else (case (lib_base64 lib (unwrap_or (jwk_x jwk) []), lib_base64 lib (unwrap_or (jwk_y jwk) [])) of
                 (Some x, Some y) \<Rightarrow> Some (EcKey x y)
               | _ \<Rightarrow> None))
      else None)"

text \<open>One entry of the key set: \<open>None\<close> where the loop of the source continues with the next.\<close>

definition usable_key :: "jwt_lib \<Rightarrow> jwk_doc \<Rightarrow> (string \<times> cached_jwk) option" where
  "usable_key lib jwk =
     (if jwk_use jwk = Some ''enc'' then None
      else case nonblank (jwk_kid jwk) of
             None \<Rightarrow> None
           | Some kid \<Rightarrow>
               (case (case jwk_alg jwk of
                        None \<Rightarrow> Some None
                      | Some raw \<Rightarrow> (case algorithm_parse raw of Ok alg \<Rightarrow> Some (Some alg) | Err e \<Rightarrow> None)) of
                  None \<Rightarrow> None
                | Some alg \<Rightarrow>
                    (case jwk_material lib jwk of
                       None \<Rightarrow> None
                     | Some m \<Rightarrow> Some (kid, \<lparr>key_alg = alg, key_material = m\<rparr>))))"

definition insert_key ::
    "jwt_lib \<Rightarrow> (string \<times> cached_jwk) list \<Rightarrow> jwk_doc \<Rightarrow> (string \<times> cached_jwk) list" where
  "insert_key lib out jwk = (case usable_key lib jwk of None \<Rightarrow> out | Some (kid, k) \<Rightarrow> AList.update kid k out)"

datatype jwks_error = JwksJson | JwksTooManyKeys | JwksEmpty | JwksRead | JwksTooLarge | JwksUtf8 | JwksMissing
  | JwksRedirects | JwksUrl | JwksNet | JwksHttp | JwksLocation | JwksStatus nat

definition parse_jwks :: "jwt_lib \<Rightarrow> string \<Rightarrow> (jwks_error, (string \<times> cached_jwk) list) result" where
  "parse_jwks lib body =
     (case lib_jwks lib body of
        None \<Rightarrow> Err JwksJson
      | Some docs \<Rightarrow>
          if JWKS_MAX_KEYS < length docs then Err JwksTooManyKeys else Ok (foldl (insert_key lib) [] docs))"

record jwks_state =
  jwks_keys :: "(string \<times> cached_jwk) list"
  fetched_at :: "nat option"
  last_attempt :: "nat option"

definition jwks_new :: jwks_state where
  "jwks_new = \<lparr>jwks_keys = [], fetched_at = None, last_attempt = None\<rparr>"

definition jwks_refresh ::
    "jwt_lib \<Rightarrow> (jwks_error, string) result \<Rightarrow> nat \<Rightarrow> jwks_state \<Rightarrow> (jwks_error, jwks_state) result" where
  "jwks_refresh lib fetched now st =
     result_bind fetched (\<lambda>body. result_bind (parse_jwks lib body) (\<lambda>ks.
       if ks = [] then Err JwksEmpty
       else Ok \<lparr>jwks_keys = ks, fetched_at = Some now, last_attempt = Some now\<rparr>))"

definition fresh_key :: "jwks_state \<Rightarrow> string \<Rightarrow> nat \<Rightarrow> cached_jwk option" where
  "fresh_key st kid now =
     (case fetched_at st of
        None \<Rightarrow> None
      | Some at \<Rightarrow> if JWKS_TTL \<le> now - at then None else map_of (jwks_keys st) kid)"

text \<open>
  \<open>JwksCache::key\<close> holds the lock of the state four times. The blocks are \<open>jwks_probe\<close> (\<open>None\<close> when
  the caller goes on to a download), \<open>jwks_recheck\<close>, \<open>jwks_mark\<close> and \<open>jwks_store\<close>.
\<close>

definition jwks_probe :: "string \<Rightarrow> nat \<Rightarrow> jwks_state \<Rightarrow> cached_jwk option option" where
  "jwks_probe kid now st =
     (case fresh_key st kid now of
        Some k \<Rightarrow> Some (Some k)
      | None \<Rightarrow>
          (let known = (map_of (jwks_keys st) kid \<noteq> None);
               stale = (case fetched_at st of Some at \<Rightarrow> JWKS_TTL \<le> now - at | None \<Rightarrow> True);
               recent = (case last_attempt st of Some at \<Rightarrow> now - at < JWKS_MIN_REFRESH | None \<Rightarrow> False)
           in if \<not> stale \<and> (known \<or> recent) then Some (map_of (jwks_keys st) kid) else None))"

definition jwks_mark :: "nat \<Rightarrow> jwks_state \<Rightarrow> jwks_state" where
  "jwks_mark now st = st\<lparr>last_attempt := Some now\<rparr>"

definition jwks_store :: "jwt_lib \<Rightarrow> (jwks_error, string) result \<Rightarrow> nat \<Rightarrow> jwks_state \<Rightarrow> jwks_state" where
  "jwks_store lib fetched now st =
     (case fetched of
        Err e \<Rightarrow> st
      | Ok body \<Rightarrow>
          (case parse_jwks lib body of
             Ok ks \<Rightarrow> if ks \<noteq> [] then st\<lparr>jwks_keys := ks, fetched_at := Some now\<rparr> else st
           | Err e \<Rightarrow> st))"

text \<open>The clock readings and the download of one call; the last two are used only when it downloads.\<close>

record jwks_call =
  at_probe :: nat
  at_recheck :: nat
  at_mark :: nat
  downloaded :: "(jwks_error, string) result"
  at_store :: nat

definition jwks_key :: "jwt_lib \<Rightarrow> jwks_call \<Rightarrow> string \<Rightarrow> jwks_state \<Rightarrow> cached_jwk option \<times> jwks_state" where
  "jwks_key lib call kid st =
     (case jwks_probe kid (at_probe call) st of
        Some found \<Rightarrow> (found, st)
      | None \<Rightarrow>
          (case fresh_key st kid (at_recheck call) of
             Some k \<Rightarrow> (Some k, st)
           | None \<Rightarrow>
               (let st' = jwks_store lib (downloaded call) (at_store call) (jwks_mark (at_mark call) st)
                in (map_of (jwks_keys st') kid, st'))))"

section \<open>Downloading the key set\<close>

datatype jwks_source = JwksFile string | JwksUrlSource string

definition path_join :: "string \<Rightarrow> string \<Rightarrow> string" where
  "path_join base p = (if base = [] \<or> ends_with base ''/'' then base @ p else base @ ''/'' @ p)"

definition jwks_source_parse :: "string \<Rightarrow> string \<Rightarrow> (jwks_error, jwks_source) result" where
  "jwks_source_parse raw0 base_dir =
     (let raw = trim raw0
      in if raw = [] then Err JwksMissing
         else if starts_with raw ''https://'' \<or> starts_with raw ''http://'' then Ok (JwksUrlSource raw)
         else if starts_with raw ''/'' then Ok (JwksFile raw)
         else Ok (JwksFile (path_join base_dir raw)))"

record parsed_url =
  url_tls :: bool
  url_host :: string
  url_port :: nat
  url_path :: string

definition default_port :: "bool \<Rightarrow> nat" where
  "default_port tls = (if tls then 443 else 80)"

definition parse_authority :: "bool \<Rightarrow> string \<Rightarrow> (string \<times> nat) option" where
  "parse_authority tls auth =
     (case strip_prefix auth ''['' of
        Some h \<Rightarrow>
          (case find_char (CHR '']'') h of
             None \<Rightarrow> None
           | Some i \<Rightarrow>
               (case strip_prefix (drop (i + 1) h) '':'' of
                  Some port \<Rightarrow> map_option (Pair (take i h)) (parse_uint u16_max port)
                | None \<Rightarrow> Some (take i h, default_port tls)))
      | None \<Rightarrow>
          (case rsplit_once (CHR '':'') auth of
             Some (host, port) \<Rightarrow> map_option (Pair host) (parse_uint u16_max port)
           | None \<Rightarrow> Some (auth, default_port tls)))"

definition parse_http_url :: "string \<Rightarrow> parsed_url option" where
  "parse_http_url url =
     (case (case strip_prefix url ''https://'' of
              Some rest \<Rightarrow> Some (True, rest)
            | None \<Rightarrow> map_option (Pair False) (strip_prefix url ''http://'')) of
        None \<Rightarrow> None
      | Some (tls, rest) \<Rightarrow>
          (let (auth0, path) = (case split_once slash rest of Some (a, p) \<Rightarrow> (a, slash # p) | None \<Rightarrow> (rest, ''/''));
               auth = last (split_on CHR ''@'' auth0)
           in case parse_authority tls auth of
                None \<Rightarrow> None
              | Some (host, port) \<Rightarrow>
                  if host = [] then None
                  else Some \<lparr>url_tls = tls, url_host = host, url_port = port, url_path = path\<rparr>))"

definition host_header :: "parsed_url \<Rightarrow> string" where
  "host_header u =
     (if url_port u = default_port (url_tls u) then url_host u
      else url_host u @ '':'' @ nat_to_string (url_port u))"

definition crlf :: string where "crlf = [CHR 0x0D, CHR 0x0A]"

definition jwks_request :: "parsed_url \<Rightarrow> string" where
  "jwks_request u =
     ''GET '' @ url_path u @ '' HTTP/1.0'' @ crlf @ ''Host: '' @ host_header u @ crlf @
     ''User-Agent: ferroada-jwks'' @ crlf @ ''Connection: close'' @ crlf @ crlf"

fun last_location :: "string list \<Rightarrow> string option \<Rightarrow> string option" where
  "last_location [] loc = loc"
| "last_location (line # rest) loc =
     last_location rest
       (case split_once CHR '':'' line of
          Some (name, v) \<Rightarrow> if eq_ignore_ascii_case name ''location'' then Some (trim v) else loc
        | None \<Rightarrow> loc)"

datatype jwks_answer = JwksBody string | JwksRedirect string | JwksFail jwks_error

text \<open>The reading of one answer, given as the text of the bytes received.\<close>

definition read_answer :: "parsed_url \<Rightarrow> string \<Rightarrow> jwks_answer" where
  "read_answer u text =
     (case (case split_once_str (crlf @ crlf) text of
              Some hb \<Rightarrow> Some hb
            | None \<Rightarrow> split_once_str [CHR 0x0A, CHR 0x0A] text) of
        None \<Rightarrow> JwksFail JwksHttp
      | Some (head, body) \<Rightarrow>
          (case str_lines head of
             [] \<Rightarrow> JwksFail JwksHttp
           | status_line # rest \<Rightarrow>
               (case split_whitespace status_line of
                  version # code # others \<Rightarrow>
                    (case parse_uint u16_max code of
                       None \<Rightarrow> JwksFail JwksHttp
                     | Some status \<Rightarrow>
                         if 300 \<le> status \<and> status < 400 then
                           (case last_location rest None of
                              None \<Rightarrow> JwksFail JwksLocation
                            | Some loc \<Rightarrow>
                                if starts_with loc ''http://'' \<or> starts_with loc ''https://'' then JwksRedirect loc
                                else (case strip_prefix loc ''/'' of
                                        Some r \<Rightarrow> JwksRedirect
                                          ((if url_tls u then ''https'' else ''http'') @ ''://'' @ host_header u @ ''/'' @ r)
                                      | None \<Rightarrow> JwksFail JwksLocation))
                         else if status \<noteq> 200 then JwksFail (JwksStatus status)
                         else if JWKS_MAX_BODY < length body then JwksFail JwksTooLarge
                         else JwksBody body)
                | _ \<Rightarrow> JwksFail JwksHttp)))"

text \<open>
  The download follows redirects; \<open>net k u\<close> is the text received from \<open>u\<close> after \<open>k\<close> redirects, or \<open>None\<close> when the
  connection fails or the time is up.
\<close>

function http_get :: "(nat \<Rightarrow> parsed_url \<Rightarrow> string option) \<Rightarrow> string \<Rightarrow> nat \<Rightarrow> (jwks_error, string) result" where
  "http_get net url redirects =
     (if JWKS_MAX_REDIRECTS < redirects then Err JwksRedirects
      else case parse_http_url url of
             None \<Rightarrow> Err JwksUrl
           | Some u \<Rightarrow>
               (case net redirects u of
                  None \<Rightarrow> Err JwksNet
                | Some text \<Rightarrow>
                    (case read_answer u text of
                       JwksFail e \<Rightarrow> Err e
                     | JwksBody body \<Rightarrow> Ok body
                     | JwksRedirect loc \<Rightarrow> http_get net loc (redirects + 1))))"
  by pat_completeness auto
termination
  by (relation "measure (\<lambda>(net, url, redirects). JWKS_MAX_REDIRECTS + 1 - redirects)") auto

declare http_get.simps [simp del]

definition jwks_fetch ::
    "(string \<Rightarrow> string option) \<Rightarrow> (nat \<Rightarrow> parsed_url \<Rightarrow> string option) \<Rightarrow> jwks_source \<Rightarrow> (jwks_error, string) result" where
  "jwks_fetch read_file net source =
     (case source of
        JwksFile path \<Rightarrow>
          (case read_file path of
             None \<Rightarrow> Err JwksRead
           | Some bytes \<Rightarrow>
               if JWKS_MAX_BODY < length bytes then Err JwksTooLarge
               else if utf8_valid bytes then Ok bytes else Err JwksUtf8)
      | JwksUrlSource url \<Rightarrow> http_get net url 0)"

section \<open>Invariant of the key cache\<close>

text \<open>The blocks under the lock, in any order.\<close>

inductive jwks_reach :: "jwt_lib \<Rightarrow> jwks_state \<Rightarrow> bool" for lib where
  loaded: "jwks_refresh lib fetched now jwks_new = Ok st \<Longrightarrow> jwks_reach lib st"
| marked: "jwks_reach lib st \<Longrightarrow> jwks_reach lib (jwks_mark now st)"
| stored: "jwks_reach lib st \<Longrightarrow> jwks_reach lib (jwks_store lib fetched now st)"

definition jwks_good :: "jwt_lib \<Rightarrow> jwks_state \<Rightarrow> bool" where
  "jwks_good lib st \<longleftrightarrow> jwks_keys st \<noteq> [] \<and> length (jwks_keys st) \<le> JWKS_MAX_KEYS \<and>
     (\<exists>body. parse_jwks lib body = Ok (jwks_keys st))"

lemma length_insert_key: "length (insert_key lib out jwk) \<le> Suc (length out)"
  by (simp add: insert_key_def length_alist_update split: option.split)

lemma parse_jwks_length: "parse_jwks lib body = Ok ks \<Longrightarrow> length ks \<le> JWKS_MAX_KEYS"
proof -
  have "length (foldl (insert_key lib) out docs) \<le> length out + length docs" for out docs
  proof (induction docs arbitrary: out)
    case (Cons d docs)
    show ?case using Cons.IH [of "insert_key lib out d"] length_insert_key [of lib out d] by simp
  qed simp
  from this [of "[]"] show "parse_jwks lib body = Ok ks \<Longrightarrow> length ks \<le> JWKS_MAX_KEYS"
    by (auto simp: parse_jwks_def not_less split: option.splits if_splits intro: order.trans)
qed

lemma jwks_reach_good: "jwks_reach lib st \<Longrightarrow> jwks_good lib st"
proof (induction rule: jwks_reach.induct)
  case (loaded fetched now st)
  then show ?case by (auto simp: jwks_refresh_def jwks_good_def parse_jwks_length split: if_splits)
next
  case (marked st now)
  then show ?case by (simp add: jwks_mark_def jwks_good_def)
next
  case (stored st fetched now)
  then show ?case by (auto simp: jwks_store_def jwks_good_def parse_jwks_length split: sum.splits)
qed

lemma jwks_key_reach: "jwks_reach lib st \<Longrightarrow> jwks_key lib call kid st = (found, st') \<Longrightarrow> jwks_reach lib st'"
  by (auto simp: jwks_key_def Let_def intro: marked stored split: option.splits)

lemma jwks_key_found:
  "jwks_key lib call kid st = (found, st') \<Longrightarrow> found = map_of (jwks_keys st') kid"
  by (auto simp: jwks_key_def jwks_probe_def fresh_key_def Let_def split: option.splits if_splits)

text \<open>A download that brings no usable key set.\<close>

definition bad_download :: "jwt_lib \<Rightarrow> (jwks_error, string) result \<Rightarrow> bool" where
  "bad_download lib fetched =
     (case fetched of Err e \<Rightarrow> True | Ok body \<Rightarrow> (case parse_jwks lib body of Err e \<Rightarrow> True | Ok ks \<Rightarrow> ks = []))"

lemma jwks_key_bad: "bad_download lib (downloaded call) \<Longrightarrow> jwks_keys (snd (jwks_key lib call kid st)) = jwks_keys st"
  by (auto simp: jwks_key_def jwks_store_def jwks_mark_def bad_download_def Let_def split: option.splits sum.splits)

text \<open>A concrete library for the witnesses.\<close>

definition sample_lib :: jwt_lib where
  "sample_lib = \<lparr>lib_base64 = Some, lib_header = (\<lambda>s. Some \<lparr>header_alg = ''HS256'', header_kid = Some ''k'', header_typ = None, header_crit = None\<rparr>),
     lib_json = (\<lambda>s. Some (Object [(''iss'', String ''i''), (''aud'', String ''a''), (''exp'', Number ''9''), (''nbf'', Number ''1''),
        (''iat'', Number ''1''), (''jti'', String s), (''sub'', String ''u'')])),
     lib_jwks = (\<lambda>s. Some [\<lparr>jwk_kty = ''EC'', jwk_kid = Some ''k'', jwk_alg = None, jwk_use = None, jwk_n = None, jwk_e = None,
        jwk_crv = Some ''P-256'', jwk_x = Some ''x'', jwk_y = Some ''y''\<rparr>]),
     lib_hmac = (\<lambda>d key input. Some ''m''), lib_rsa = (\<lambda>n e i s. False), lib_ecdsa = (\<lambda>p i s. True), lib_number = id,
     lib_float_secs = (\<lambda>n. None), lib_hash = length\<rparr>"

section \<open>Theorem\<close>

text \<open>C33. The cache never loses its keys: after the first load it always holds the at most 32 usable keys
  of a key set that was downloaded, whatever later downloads bring and however calls interleave; a
  key is looked up there, and when a download fails or brings no usable key the previous keys
  stay in use.\<close>

theorem key_cache_keeps_last_good:
  assumes "jwks_reach lib st" and "jwks_key lib call kid st = (found, st')"
  shows "jwks_keys st' \<noteq> [] \<and> length (jwks_keys st') \<le> JWKS_MAX_KEYS \<and> (\<exists>body. parse_jwks lib body = Ok (jwks_keys st')) \<and>
    found = map_of (jwks_keys st') kid \<and>
    (bad_download lib (downloaded call) \<longrightarrow> found = map_of (jwks_keys st) kid)"
  using jwks_reach_good [OF jwks_key_reach [OF assms]] jwks_key_found [OF assms(2)] jwks_key_bad [of lib call kid st] assms(2)
  by (auto simp: jwks_good_def)

theorem key_cache_keeps_last_good_witness:
  "let st = \<lparr>jwks_keys = [(''k'', \<lparr>key_alg = None, key_material = EcKey ''x'' ''y''\<rparr>)], fetched_at = Some 0, last_attempt = Some 0\<rparr>;
       call = \<lparr>at_probe = JWKS_TTL, at_recheck = JWKS_TTL, at_mark = JWKS_TTL, downloaded = Err JwksNet, at_store = JWKS_TTL\<rparr>
   in fst (jwks_key sample_lib call ''k'' st) = Some \<lparr>key_alg = None, key_material = EcKey ''x'' ''y''\<rparr>"
proof -
  let ?ks = "[(''k'', \<lparr>key_alg = None, key_material = EcKey ''x'' ''y''\<rparr>)]"
  let ?st = "\<lparr>jwks_keys = ?ks, fetched_at = Some 0, last_attempt = Some 0\<rparr>"
  let ?call = "\<lparr>at_probe = JWKS_TTL, at_recheck = JWKS_TTL, at_mark = JWKS_TTL, downloaded = Err JwksNet, at_store = JWKS_TTL\<rparr>"
  have "parse_jwks sample_lib ''body'' = Ok ?ks" by code_simp
  then have "jwks_refresh sample_lib (Ok ''body'') 0 jwks_new = Ok ?st" by (simp add: jwks_refresh_def)
  then have "jwks_reach sample_lib ?st" by (rule loaded)
  from key_cache_keeps_last_good [OF this, of ?call "''k''" "fst (jwks_key sample_lib ?call ''k'' ?st)" "snd (jwks_key sample_lib ?call ''k'' ?st)"]
  have "bad_download sample_lib (downloaded ?call) \<longrightarrow> fst (jwks_key sample_lib ?call ''k'' ?st) = map_of (jwks_keys ?st) ''k''"
    by (metis prod.collapse)
  then show ?thesis by (simp add: Let_def bad_download_def)
qed

section \<open>Bounds of the download\<close>

lemma read_answer_body: "read_answer u answer = JwksBody b \<Longrightarrow> length b \<le> JWKS_MAX_BODY"
  by (auto simp: read_answer_def split: option.splits prod.splits list.splits if_splits)

lemma http_get_body: "http_get net url k = Ok body \<Longrightarrow> length body \<le> JWKS_MAX_BODY"
proof (induction net url k rule: http_get.induct)
  case (1 net url k)
  obtain u answer where u: "\<not> JWKS_MAX_REDIRECTS < k" "parse_http_url url = Some u" "net k u = Some answer"
    and r: "read_answer u answer = JwksBody body \<or> (\<exists>loc. read_answer u answer = JwksRedirect loc \<and> http_get net loc (k + 1) = Ok body)"
    using "1.prems" unfolding http_get.simps [of net url k]
    by (auto split: if_splits option.splits jwks_answer.splits)
  from r show ?case using read_answer_body "1.IH" [OF u] by blast
qed

text \<open>A redirect of a download over TLS to a plain address is followed.\<close>

lemma redirect_drops_tls:
  assumes "parse_http_url url = Some u" and "url_tls u" and "net 0 u = Some text"
    and "read_answer u text = JwksRedirect ''http://h/''"
    and "net 1 \<lparr>url_tls = False, url_host = ''h'', url_port = 80, url_path = ''/''\<rparr> = Some text2"
    and "read_answer \<lparr>url_tls = False, url_host = ''h'', url_port = 80, url_path = ''/''\<rparr> text2 = JwksBody body"
  shows "http_get net url 0 = Ok body"
proof -
  have "parse_http_url ''http://h/'' = Some \<lparr>url_tls = False, url_host = ''h'', url_port = 80, url_path = ''/''\<rparr>"
    by code_simp
  with assms show ?thesis by (simp add: http_get.simps [of net url] http_get.simps [of net "''http://h/''"])
qed


text \<open>
  The host of an IPv6 address loses its brackets: a redirect relative to it leads to another host
  and port.
\<close>

lemma ipv6_redirect_lost:
  "let u = \<lparr>url_tls = False, url_host = ''::1'', url_port = 80, url_path = ''/''\<rparr>
   in parse_http_url ''http://[::1]/'' = Some u \<and>
      parse_http_url (''http://'' @ host_header u @ ''/k'') = Some \<lparr>url_tls = False, url_host = '':'', url_port = 1, url_path = ''/k''\<rparr>"
proof -
  have h: "host_header \<lparr>url_tls = False, url_host = ''::1'', url_port = 80, url_path = ''/''\<rparr> = ''::1''"
    by (simp add: host_header_def default_port_def)
  have p: "parse_uint u16_max ''1'' = Some 1" by (simp add: from_str_radix_def to_digit_def Let_def)
  have "parse_authority False ''[::1]'' = Some (''::1'', 80)"
    by (simp add: parse_authority_def strip_prefix_def starts_with_def default_port_def)
  moreover have "parse_authority False ''::1'' = Some ('':'', 1)"
    using p by (simp add: parse_authority_def strip_prefix_def starts_with_def rsplit_once_def split_once_def first_piece_def)
  ultimately show ?thesis unfolding Let_def h
    by (simp add: parse_http_url_def strip_prefix_def starts_with_def split_once_def first_piece_def)
qed

end
