(* ===== verification/Jwt.thy ===== *)
theory Jwt
  imports Jwt_Keys
begin

text \<open>
  JWT identity, \<open>src/src/jwt.rs\<close>: the policy and its bindings, the token, the signature, the
  claims and the replay cache of token ids. A failure keeps the reason string of the source; load
  errors are constructors.
\<close>

section \<open>Bindings and path templates\<close>

datatype bind_source = BindPath string | BindBody string

record binding =
  bind_claim :: string
  bind_source :: bind_source

datatype path_seg = Literal string | Param string

type_synonym path_template = "path_seg list"

datatype jwt_failure = Unauthorized string | Forbidden string

fun failure_status :: "jwt_failure \<Rightarrow> nat" where
  "failure_status (Unauthorized r) = 401"
| "failure_status (Forbidden r) = 403"

fun event_type :: "jwt_failure \<Rightarrow> string" where
  "event_type (Unauthorized r) = ''jwt''"
| "event_type (Forbidden r) = ''jwt_binding''"

record jwt_principal =
  principal_sub :: string
  principal_tenant :: "string option"
  principal_claims :: "(string \<times> string) list"

datatype binding_error = NoEquals | LeftNotJwt | BadClaim | BadPathName | BadBodyName | BadRight

definition parse_binding :: "string \<Rightarrow> (binding_error, binding) result" where
  "parse_binding raw =
     (case split_once_str ''=='' (trim raw) of
        None \<Rightarrow> Err NoEquals
      | Some (left0, right0) \<Rightarrow>
          (let left1 = trim left0; right1 = trim right0
           in case strip_prefix left1 ''jwt.'' of
                None \<Rightarrow> Err LeftNotJwt
              | Some c \<Rightarrow>
                  (let claim = trim c
                   in if claim = [] \<or> CHR ''.'' \<in> set claim then Err BadClaim
                      else (case strip_prefix right1 ''path.'' of
                              Some n \<Rightarrow>
                                (let name = trim n
                                 in if name = [] \<or> CHR ''.'' \<in> set name then Err BadPathName
                                    else Ok \<lparr>bind_claim = claim, bind_source = BindPath name\<rparr>)
                            | None \<Rightarrow>
                                (case strip_prefix right1 ''body.'' of
                                   Some n \<Rightarrow>
                                     (let name = trim n
                                      in if name = [] then Err BadBodyName
                                         else Ok \<lparr>bind_claim = claim, bind_source = BindBody name\<rparr>)
                                 | None \<Rightarrow> Err BadRight)))))"

definition parse_bindings :: "string list \<Rightarrow> (binding_error, binding list) result" where
  "parse_bindings raw = collect_results parse_binding raw"

datatype template_error = NotAbsolute | BadParam

definition parse_path_seg :: "string \<Rightarrow> (template_error, path_seg) result" where
  "parse_path_seg part =
     (case Option.bind (strip_prefix part ''{'') (\<lambda>p. strip_suffix p ''}'') of
        Some name \<Rightarrow> if name = [] \<or> CHR ''{'' \<in> set name then Err BadParam else Ok (Param name)
      | None \<Rightarrow> Ok (Literal part))"

definition path_parts :: "string \<Rightarrow> string list" where
  "path_parts path = filter (\<lambda>part. part \<noteq> []) (split_on slash path)"

definition parse_path_template :: "string \<Rightarrow> (template_error, path_template) result" where
  "parse_path_template raw =
     (let path = trim raw
      in if \<not> starts_with path ''/'' then Err NotAbsolute
         else collect_results parse_path_seg (path_parts path))"

definition parse_path_templates :: "string list \<Rightarrow> (template_error, path_template list) result" where
  "parse_path_templates raw = collect_results parse_path_template raw"

fun decode_once_bytes :: "string \<Rightarrow> string" where
  "decode_once_bytes [] = []"
| "decode_once_bytes (c # r) =
     (case r of
        h # l # rest \<Rightarrow>
          if c = CHR ''%'' then
            (case (hex_value h, hex_value l) of
               (Some a, Some b) \<Rightarrow> char_of (a * 16 + b) # decode_once_bytes rest
             | _ \<Rightarrow> c # decode_once_bytes r)
          else c # decode_once_bytes r
      | _ \<Rightarrow> c # decode_once_bytes r)"

definition percent_decode_once :: "string \<Rightarrow> string" where
  "percent_decode_once input =
     (let out = decode_once_bytes input in if utf8_valid out then out else input)"

text \<open>The parameters a template finds, a later one of the same name replacing an earlier one.\<close>

fun match_template :: "path_template \<Rightarrow> string list \<Rightarrow> (string \<times> string) list \<Rightarrow> (string \<times> string) list option" where
  "match_template (Literal l # segs) (part # parts) found = (if l = part then match_template segs parts found else None)"
| "match_template (Param name # segs) (part # parts) found =
     match_template segs parts (AList.update name (percent_decode_once part) found)"
| "match_template _ _ found = Some found"

definition or_insert :: "(string \<times> string) list \<Rightarrow> string \<times> string \<Rightarrow> (string \<times> string) list" where
  "or_insert params kv = (if map_of params (fst kv) = None then params @ [kv] else params)"

fun first_match :: "path_template list \<Rightarrow> string list \<Rightarrow> (string \<times> string) list option" where
  "first_match [] parts = None"
| "first_match (t # ts) parts =
     (case (if length t = length parts then match_template t parts [] else None) of
        Some found \<Rightarrow> Some found
      | None \<Rightarrow> first_match ts parts)"

definition path_params ::
    "path_template list \<Rightarrow> string \<Rightarrow> (string \<times> string) list \<Rightarrow> (string \<times> string) list" where
  "path_params templates raw_path extra =
     (let cut = first_piece CHR ''?'' raw_path;
          path = unwrap_or (canonical_route_path cut) cut
      in case first_match templates (path_parts path) of
           None \<Rightarrow> extra
         | Some found \<Rightarrow> foldl or_insert extra found)"

fun value_as_string :: "jwt_lib \<Rightarrow> json_value \<Rightarrow> string option" where
  "value_as_string lib (String text) = Some text"
| "value_as_string lib (Number n) = Some (lib_number lib n)"
| "value_as_string lib (Bool b) = Some (if b then ''true'' else ''false'')"
| "value_as_string lib _ = None"

fun walk_fields :: "string list \<Rightarrow> json_value \<Rightarrow> json_value option" where
  "walk_fields [] v = Some v"
| "walk_fields (part # parts) v = Option.bind (json_get part v) (walk_fields parts)"

definition json_field :: "jwt_lib \<Rightarrow> json_value \<Rightarrow> string \<Rightarrow> string option" where
  "json_field lib root dotted = Option.bind (walk_fields (split_on CHR ''.'' dotted) root) (value_as_string lib)"

section \<open>Policy\<close>

record jwt_policy =
  jwt_issuer :: string
  jwt_audience :: string
  jwt_algorithms :: "algorithm list"
  jwt_bindings :: "binding list"
  jwt_paths :: "path_template list"
  jwt_secret :: "string option"
  jwt_leeway :: nat

record jwt_spec =
  spec_jwks :: string
  spec_issuer :: string
  spec_audience :: string
  spec_algorithms :: "string list"
  spec_bindings :: "string list"
  spec_paths :: "string list"
  spec_hmac_env :: "string option"

datatype load_error = NoIssuer | NoAudience | BadAlgorithm alg_error | NoHmacEnv | HmacUnset | HmacEmpty | HmacUnused
  | BadBinding binding_error | BadTemplate template_error | BadJwks jwks_error

definition map_err :: "('e \<Rightarrow> 'f) \<Rightarrow> ('e, 'a) result \<Rightarrow> ('f, 'a) result" where
  "map_err f r = (case r of Ok a \<Rightarrow> Ok a | Err e \<Rightarrow> Err (f e))"

definition parse_algorithms :: "string list \<Rightarrow> (alg_error, algorithm list) result" where
  "parse_algorithms raw =
     (if raw = [] then Ok [Rs256, Es256] else collect_results algorithm_parse raw)"

definition load_secret ::
    "(string \<Rightarrow> string option) \<Rightarrow> algorithm list \<Rightarrow> string option \<Rightarrow> (load_error, string option) result" where
  "load_secret env algs name =
     (if list_ex is_hmac algs then
        (case nonblank name of
           None \<Rightarrow> Err NoHmacEnv
         | Some n \<Rightarrow> (case env n of None \<Rightarrow> Err HmacUnset | Some v \<Rightarrow> if v = [] then Err HmacEmpty else Ok (Some v)))
      else if name \<noteq> None then Err HmacUnused else Ok None)"

definition jwt_load ::
    "jwt_lib \<Rightarrow> (string \<Rightarrow> string option) \<Rightarrow> (string \<Rightarrow> string option) \<Rightarrow> (nat \<Rightarrow> parsed_url \<Rightarrow> string option) \<Rightarrow>
     nat \<Rightarrow> jwt_spec \<Rightarrow> string \<Rightarrow> (load_error, jwt_policy \<times> jwks_state) result" where
  "jwt_load lib env read_file net now spec base_dir =
     (let issuer = trim (spec_issuer spec); audience = trim (spec_audience spec)
      in if issuer = [] then Err NoIssuer
         else if audience = [] then Err NoAudience
         else result_bind (map_err BadAlgorithm (parse_algorithms (spec_algorithms spec))) (\<lambda>algs.
           result_bind (load_secret env algs (spec_hmac_env spec)) (\<lambda>secret.
             result_bind (map_err BadBinding (parse_bindings (spec_bindings spec))) (\<lambda>bs.
               result_bind (map_err BadTemplate (parse_path_templates (spec_paths spec))) (\<lambda>ts.
                 result_bind (map_err BadJwks (jwks_source_parse (spec_jwks spec) base_dir)) (\<lambda>source.
                   result_bind (map_err BadJwks (jwks_refresh lib (jwks_fetch read_file net source) now jwks_new)) (\<lambda>st.
                     Ok (\<lparr>jwt_issuer = issuer, jwt_audience = audience, jwt_algorithms = algs, jwt_bindings = bs,
                          jwt_paths = ts, jwt_secret = secret, jwt_leeway = DEFAULT_LEEWAY_SECS\<rparr>, st))))))))"

section \<open>Tokens\<close>

definition bearer :: "string option \<Rightarrow> (jwt_failure, string) result" where
  "bearer authorization =
     (case nonblank authorization of
        None \<Rightarrow> Err (Unauthorized ''missing'')
      | Some v \<Rightarrow>
          (case split_once CHR '' '' v of
             None \<Rightarrow> Err (Unauthorized ''missing'')
           | Some (scheme, rest) \<Rightarrow>
               if \<not> eq_ignore_ascii_case scheme ''bearer'' then Err (Unauthorized ''missing'')
               else
                 let tok = trim rest
                 in if tok = [] \<or> TOKEN_MAX_BYTES < length tok then Err (Unauthorized ''malformed'') else Ok tok))"

definition decode_part :: "jwt_lib \<Rightarrow> string \<Rightarrow> (jwt_failure, string) result" where
  "decode_part lib part =
     (case lib_base64 lib part of Some b \<Rightarrow> Ok b | None \<Rightarrow> Err (Unauthorized ''malformed''))"

record token_parts =
  tok_header :: string
  tok_payload :: string
  tok_input :: string
  tok_signature :: string

definition split_token :: "jwt_lib \<Rightarrow> string \<Rightarrow> (jwt_failure, token_parts) result" where
  "split_token lib tok =
     (case split_on CHR ''.'' tok of
        h # p # rest \<Rightarrow>
          (let s = (case rest of x # xs \<Rightarrow> x | [] \<Rightarrow> [])
           in if 1 < length rest \<or> h = [] \<or> p = [] then Err (Unauthorized ''malformed'')
              else result_bind (decode_part lib h) (\<lambda>header.
                result_bind (decode_part lib p) (\<lambda>payload.
                  result_bind (if s = [] then Ok [] else decode_part lib s) (\<lambda>signature.
                    Ok \<lparr>tok_header = header, tok_payload = payload, tok_input = h @ ''.'' @ p, tok_signature = signature\<rparr>))))
      | _ \<Rightarrow> Err (Unauthorized ''malformed''))"

definition be_value :: "string \<Rightarrow> nat" where
  "be_value bs = foldl (\<lambda>acc b. acc * 256 + byte_of b) 0 bs"

fun num_bits :: "nat \<Rightarrow> nat" where
  "num_bits n = (if n = 0 then 0 else Suc (num_bits (n div 2)))"

declare num_bits.simps [simp del]

definition left_pad :: "string \<Rightarrow> nat \<Rightarrow> string option" where
  "left_pad bs n = (if n < length bs then None else Some (replicate (n - length bs) (CHR 0x00) @ bs))"

definition verify_hmac :: "jwt_lib \<Rightarrow> algorithm \<Rightarrow> string \<Rightarrow> string \<Rightarrow> string \<Rightarrow> bool" where
  "verify_hmac lib alg secret input signature = (lib_hmac lib (digest alg) secret input = Some signature)"

definition verify_rsa :: "jwt_lib \<Rightarrow> string \<Rightarrow> string \<Rightarrow> string \<Rightarrow> string \<Rightarrow> bool" where
  "verify_rsa lib n e input signature \<longleftrightarrow> RSA_MIN_BITS \<le> num_bits (be_value n) \<and> lib_rsa lib n e input signature"

definition verify_es256 :: "jwt_lib \<Rightarrow> string \<Rightarrow> string \<Rightarrow> string \<Rightarrow> string \<Rightarrow> bool" where
  "verify_es256 lib x y input signature \<longleftrightarrow>
     length signature = 64 \<and>
     (case (left_pad x 32, left_pad y 32) of
        (Some px, Some py) \<Rightarrow> lib_ecdsa lib (CHR 0x04 # px @ py) input signature
      | _ \<Rightarrow> False)"

definition check_sig :: "bool \<Rightarrow> (jwt_failure, unit) result" where
  "check_sig b = (if b then Ok () else Err (Unauthorized ''sig''))"

definition verify_signature ::
    "jwt_lib \<Rightarrow> jwt_policy \<Rightarrow> jwks_call \<Rightarrow> algorithm \<Rightarrow> string \<Rightarrow> string \<Rightarrow> string \<Rightarrow> jwks_state \<Rightarrow>
     (jwt_failure, unit) result \<times> jwks_state" where
  "verify_signature lib pol call alg kid input signature st =
     (if is_hmac alg then
        (case jwt_secret pol of
           None \<Rightarrow> (Err (Unauthorized ''alg''), st)
         | Some secret \<Rightarrow> (check_sig (verify_hmac lib alg secret input signature), st))
      else
        (case jwks_key lib call kid st of
           (None, st') \<Rightarrow> (Err (Unauthorized ''kid''), st')
         | (Some key, st') \<Rightarrow>
             (if key_alg key \<noteq> None \<and> key_alg key \<noteq> Some alg then Err (Unauthorized ''alg'')
              else (case (alg, key_material key) of
                      (Rs256, RsaKey n e) \<Rightarrow> check_sig (verify_rsa lib n e input signature)
                    | (Es256, EcKey x y) \<Rightarrow> check_sig (verify_es256 lib x y input signature)
                    | _ \<Rightarrow> Err (Unauthorized ''alg'')), st')))"

section \<open>Claims\<close>

record validated_claims =
  claim_sub :: string
  claim_tenant :: "string option"
  claim_jti :: string
  claim_exp :: nat
  claim_rest :: "(string \<times> string) list"

fun aud_matches :: "json_value option \<Rightarrow> string \<Rightarrow> bool" where
  "aud_matches (Some (String v)) expected = (v = expected)"
| "aud_matches (Some (Array items)) expected = list_ex (\<lambda>item. as_str item = Some expected) items"
| "aud_matches _ expected = False"

definition unix_claim :: "jwt_lib \<Rightarrow> json_value \<Rightarrow> string \<Rightarrow> nat option" where
  "unix_claim lib payload name =
     (case json_get name payload of
        Some (Number n) \<Rightarrow>
          opt_or (as_u64 n)
            (opt_or (Option.bind (as_i64 n) (\<lambda>i. if 0 \<le> i then Some (nat i) else None)) (lib_float_secs lib n))
      | _ \<Rightarrow> None)"

definition str_claim :: "json_value \<Rightarrow> string \<Rightarrow> string option" where
  "str_claim payload name = Option.bind (json_get name payload) as_str"

fun claim_texts :: "jwt_lib \<Rightarrow> json_value \<Rightarrow> (string \<times> string) list" where
  "claim_texts lib (Object ms) =
     List.map_filter (\<lambda>(k, v). map_option (Pair k) (value_as_string lib v)) ms"
| "claim_texts lib _ = []"

definition require :: "bool \<Rightarrow> string \<Rightarrow> (jwt_failure, unit) result" where
  "require b reason = (if b then Ok () else Err (Unauthorized reason))"

definition claim_or :: "'a option \<Rightarrow> string \<Rightarrow> (jwt_failure, 'a) result" where
  "claim_or x reason = (case x of Some a \<Rightarrow> Ok a | None \<Rightarrow> Err (Unauthorized reason))"

text \<open>\<open>exp + leeway\<close> is a plain addition of 64-bit numbers, which wraps in a release build.\<close>

definition validate_claims ::
    "jwt_lib \<Rightarrow> json_value \<Rightarrow> string \<Rightarrow> string \<Rightarrow> nat \<Rightarrow> nat \<Rightarrow> (jwt_failure, validated_claims) result" where
  "validate_claims lib payload issuer audience now leeway =
     result_bind (require (str_claim payload ''iss'' = Some issuer) ''iss'') (\<lambda>u1.
       result_bind (require (aud_matches (json_get ''aud'' payload) audience) ''aud'') (\<lambda>u2.
         result_bind (claim_or (unix_claim lib payload ''exp'') ''exp'') (\<lambda>exp0.
           result_bind (require (now \<le> (exp0 + leeway) mod (u64_max + 1)) ''exp'') (\<lambda>u3.
             result_bind (claim_or (unix_claim lib payload ''nbf'') ''nbf'') (\<lambda>nbf.
               result_bind (require (nbf \<le> min (now + leeway) u64_max) ''nbf'') (\<lambda>u4.
                 result_bind (claim_or (unix_claim lib payload ''iat'') ''iat'') (\<lambda>iat.
                   result_bind (require (iat \<le> min (now + leeway) u64_max) ''iat'') (\<lambda>u5.
                     result_bind (claim_or (nonblank (str_claim payload ''jti'')) ''jti'') (\<lambda>jti.
                       result_bind (claim_or (nonblank (str_claim payload ''sub'')) ''sub'') (\<lambda>sub.
                         let rest = claim_texts lib payload
                         in Ok \<lparr>claim_sub = sub,
                              claim_tenant = opt_or (map_of rest ''tenant_id'')
                                (opt_or (map_of rest ''tenant'') (map_of rest ''tid'')),
                              claim_jti = jti, claim_exp = exp0, claim_rest = rest\<rparr>))))))))))"

section \<open>Replay cache\<close>

text \<open>The second \<open>retain\<close> keeps every tenth entry of the iteration.\<close>

fun keep_tenth :: "nat \<Rightarrow> 'a list \<Rightarrow> 'a list" where
  "keep_tenth seen [] = []"
| "keep_tenth seen (x # xs) =
     (if (seen + 1) mod 10 = 0 then x # keep_tenth (seen + 1) xs else keep_tenth (seen + 1) xs)"

definition jti_evict :: "nat \<Rightarrow> (nat \<times> nat) list \<Rightarrow> (nat \<times> nat) list" where
  "jti_evict now cache =
     (if MAX_JTI \<le> length cache then
        (let kept = filter (\<lambda>(k, until). now \<le> until) cache
         in if MAX_JTI \<le> length kept then keep_tenth 0 kept else kept)
      else cache)"

definition remember_jti ::
    "jwt_lib \<Rightarrow> string \<Rightarrow> nat \<Rightarrow> nat \<Rightarrow> (nat \<times> nat) list \<Rightarrow> (jwt_failure, unit) result \<times> (nat \<times> nat) list" where
  "remember_jti lib jti until now cache0 =
     (let key = lib_hash lib jti; cache = jti_evict now cache0
      in case map_of cache key of
           Some u \<Rightarrow> if now \<le> u then (Err (Unauthorized ''jti''), cache) else (Ok (), AList.update key until cache)
         | None \<Rightarrow> (Ok (), AList.update key until cache))"

section \<open>Authentication and bindings\<close>

record jwt_state =
  state_jwks :: jwks_state
  state_jti :: "(nat \<times> nat) list"

definition allowed_alg :: "jwt_policy \<Rightarrow> string \<Rightarrow> (jwt_failure, algorithm) result" where
  "allowed_alg pol raw =
     (case algorithm_parse raw of
        Ok alg \<Rightarrow> if alg \<in> set (jwt_algorithms pol) then Ok alg else Err (Unauthorized ''alg'')
      | Err e \<Rightarrow> Err (Unauthorized ''alg''))"

text \<open>The part before the signature: the parts of the token, its algorithm, key id and payload.\<close>

definition open_token ::
    "jwt_lib \<Rightarrow> jwt_policy \<Rightarrow> string option \<Rightarrow> (jwt_failure, token_parts \<times> algorithm \<times> string \<times> json_value) result" where
  "open_token lib pol authorization =
     result_bind (bearer authorization) (\<lambda>tok.
       result_bind (split_token lib tok) (\<lambda>parts.
         result_bind (claim_or (lib_header lib (tok_header parts)) ''malformed'') (\<lambda>header.
           result_bind (require (case header_crit header of Some (c # cs) \<Rightarrow> False | _ \<Rightarrow> True) ''crit'') (\<lambda>u1.
             result_bind (require (case header_typ header of
                 Some typ \<Rightarrow> eq_ignore_ascii_case typ ''JWT'' \<or> eq_ignore_ascii_case typ ''at+jwt'' | None \<Rightarrow> True) ''typ'') (\<lambda>u2.
               result_bind (allowed_alg pol (header_alg header)) (\<lambda>alg.
                 result_bind (claim_or (nonblank (header_kid header)) ''kid'') (\<lambda>kid.
                   result_bind (claim_or (lib_json lib (tok_payload parts)) ''malformed'') (\<lambda>payload.
                     Ok (parts, alg, kid, payload)))))))))"

definition authenticate ::
    "jwt_lib \<Rightarrow> jwt_policy \<Rightarrow> jwks_call \<Rightarrow> string option \<Rightarrow> nat \<Rightarrow> jwt_state \<Rightarrow>
     (jwt_failure, jwt_principal) result \<times> jwt_state" where
  "authenticate lib pol call authorization now st =
     (case open_token lib pol authorization of
        Err e \<Rightarrow> (Err e, st)
      | Ok (parts, alg, kid, payload) \<Rightarrow>
          (case verify_signature lib pol call alg kid (tok_input parts) (tok_signature parts) (state_jwks st) of
             (Err e, ks) \<Rightarrow> (Err e, st\<lparr>state_jwks := ks\<rparr>)
           | (Ok u, ks) \<Rightarrow>
               (case validate_claims lib payload (jwt_issuer pol) (jwt_audience pol) now (jwt_leeway pol) of
                  Err e \<Rightarrow> (Err e, st\<lparr>state_jwks := ks\<rparr>)
                | Ok claims \<Rightarrow>
                    (case remember_jti lib (claim_jti claims) (min (claim_exp claims + jwt_leeway pol) u64_max) now (state_jti st) of
                       (Err e, cache) \<Rightarrow> (Err e, st\<lparr>state_jwks := ks, state_jti := cache\<rparr>)
                     | (Ok v, cache) \<Rightarrow>
                         (Ok \<lparr>principal_sub = claim_sub claims, principal_tenant = claim_tenant claims,
                            principal_claims = claim_rest claims\<rparr>,
                          st\<lparr>state_jwks := ks, state_jti := cache\<rparr>)))))"

definition bind_one :: "jwt_principal \<Rightarrow> string \<Rightarrow> string option \<Rightarrow> bool" where
  "bind_one who claim found =
     (case (map_of (principal_claims who) claim, found) of
        (Some l, Some r) \<Rightarrow> l = r
      | _ \<Rightarrow> False)"

definition bind_path ::
    "jwt_policy \<Rightarrow> jwt_principal \<Rightarrow> string \<Rightarrow> (string \<times> string) list \<Rightarrow> (jwt_failure, unit) result" where
  "bind_path pol who path extra =
     (let params = path_params (jwt_paths pol) path extra
      in if list_all (\<lambda>b. case bind_source b of
               BindPath name \<Rightarrow> bind_one who (bind_claim b) (map_of params name)
             | BindBody name \<Rightarrow> True) (jwt_bindings pol)
         then Ok () else Err (Forbidden ''binding''))"

definition has_body_bindings :: "jwt_policy \<Rightarrow> bool" where
  "has_body_bindings pol = list_ex (\<lambda>b. case bind_source b of BindBody n \<Rightarrow> True | BindPath n \<Rightarrow> False) (jwt_bindings pol)"

definition bind_body :: "jwt_lib \<Rightarrow> jwt_policy \<Rightarrow> jwt_principal \<Rightarrow> string \<Rightarrow> (jwt_failure, unit) result" where
  "bind_body lib pol who body =
     (if \<not> has_body_bindings pol \<or> list_all is_ascii_whitespace body then Ok ()
      else case lib_json lib body of
             None \<Rightarrow> Err (Forbidden ''binding'')
           | Some json \<Rightarrow>
               if list_all (\<lambda>b. case bind_source b of
                      BindBody pointer \<Rightarrow> bind_one who (bind_claim b) (json_field lib json pointer)
                    | BindPath name \<Rightarrow> True) (jwt_bindings pol)
               then Ok () else Err (Forbidden ''binding''))"

section \<open>Lemmas on the replay cache and on success\<close>

lemma length_update_le: "length (AList.update k v al) \<le> Suc (length al)"
  by (simp add: length_alist_update)

lemma length_keep_tenth: "10 * length (keep_tenth n xs) \<le> n mod 10 + length xs"
proof (induction xs arbitrary: n)
  case (Cons x xs)
  show ?case using Cons.IH [of "n + 1"] by (auto simp: mod_Suc split: if_splits)
qed simp

lemma jti_evict_length:
  assumes "length cache \<le> MAX_JTI"
  shows "length (jti_evict now cache) < MAX_JTI"
proof -
  define kept where "kept = filter (\<lambda>(k, until). now \<le> until) cache"
  have "length kept \<le> length cache" unfolding kept_def by (rule length_filter_le)
  moreover have "10 * length (keep_tenth 0 kept) \<le> length kept" using length_keep_tenth [of 0 kept] by simp
  ultimately show ?thesis using assms unfolding jti_evict_def kept_def [symmetric] Let_def by (simp split: if_split)
qed

lemma remember_jti_length:
  "length cache \<le> MAX_JTI \<Longrightarrow> length (snd (remember_jti lib jti until now cache)) \<le> MAX_JTI"
  using jti_evict_length [of cache now] length_update_le [of "lib_hash lib jti" until "jti_evict now cache"]
  by (auto simp: remember_jti_def Let_def split: option.split)

definition live_ids :: "nat \<Rightarrow> (nat \<times> nat) list \<Rightarrow> nat" where
  "live_ids now cache = length (filter (\<lambda>(k, until). now \<le> until) cache)"

lemma map_of_jti_evict:
  assumes "distinct (map fst cache)" and "live_ids now cache < MAX_JTI" and "map_of cache k = Some u" and "now \<le> u"
  shows "map_of (jti_evict now cache) k = Some u"
proof -
  have "map_of (filter (\<lambda>(k, until). now \<le> until) cache) k = Some u"
    using assms(1,3,4) by (simp add: map_of_eq_Some_iff distinct_map_filter)
  with assms show ?thesis by (auto simp: jti_evict_def live_ids_def Let_def)
qed

lemma distinct_keep_tenth: "distinct (map fst xs) \<Longrightarrow> distinct (map fst (keep_tenth n xs)) \<and> set (keep_tenth n xs) \<subseteq> set xs"
proof (induction xs arbitrary: n)
  case (Cons x xs)
  then show ?case using Cons.IH [of "n + 1"] by auto
qed simp

lemma distinct_jti_evict: "distinct (map fst cache) \<Longrightarrow> distinct (map fst (jti_evict now cache))"
  by (simp add: jti_evict_def Let_def distinct_keep_tenth distinct_map_filter)

lemma remember_jti_distinct: "distinct (map fst cache) \<Longrightarrow> distinct (map fst (snd (remember_jti lib jti until now cache)))"
  by (auto simp: remember_jti_def Let_def distinct_jti_evict distinct_update split: option.split)

text \<open>An accepted id was not in the cache with a later end; every other live id stays.\<close>

lemma remember_jti_keeps:
  assumes "distinct (map fst cache)" and "live_ids now cache < MAX_JTI"
    and "map_of cache k = Some u" and "now \<le> u"
  shows "map_of (snd (remember_jti lib jti until now cache)) k = Some u"
    and "k = lib_hash lib jti \<Longrightarrow> fst (remember_jti lib jti until now cache) = Err (Unauthorized ''jti'')"
  using map_of_jti_evict [OF assms] assms(4)
  by (auto simp: remember_jti_def Let_def update_conv' split: option.split)

lemma remember_jti_enters:
  "fst (remember_jti lib jti until now cache) = Ok () \<Longrightarrow>
     map_of (snd (remember_jti lib jti until now cache)) (lib_hash lib jti) = Some until"
  by (auto simp: remember_jti_def Let_def update_conv' split: option.splits if_splits)

lemma require_Ok [simp]: "require b r = Ok u \<longleftrightarrow> b"
  by (simp add: require_def)

lemma claim_or_Ok [simp]: "claim_or x r = Ok a \<longleftrightarrow> x = Some a"
  by (cases x) (auto simp: claim_or_def)

lemma check_sig_Ok [simp]: "check_sig b = Ok u \<longleftrightarrow> b"
  by (simp add: check_sig_def)

definition claims_hold :: "jwt_lib \<Rightarrow> jwt_policy \<Rightarrow> nat \<Rightarrow> json_value \<Rightarrow> validated_claims \<Rightarrow> bool" where
  "claims_hold lib pol now payload cl \<longleftrightarrow>
     str_claim payload ''iss'' = Some (jwt_issuer pol) \<and> aud_matches (json_get ''aud'' payload) (jwt_audience pol) \<and>
     unix_claim lib payload ''exp'' = Some (claim_exp cl) \<and> now \<le> claim_exp cl + jwt_leeway pol \<and>
     (case unix_claim lib payload ''nbf'' of Some nbf \<Rightarrow> nbf \<le> now + jwt_leeway pol | None \<Rightarrow> False) \<and>
     (case unix_claim lib payload ''iat'' of Some iat \<Rightarrow> iat \<le> now + jwt_leeway pol | None \<Rightarrow> False) \<and>
     nonblank (str_claim payload ''jti'') = Some (claim_jti cl) \<and> nonblank (str_claim payload ''sub'') = Some (claim_sub cl)"

lemma validate_claims_hold:
  assumes "validate_claims lib payload (jwt_issuer pol) (jwt_audience pol) now (jwt_leeway pol) = Ok cl"
  shows "claims_hold lib pol now payload cl \<and> now \<le> min (claim_exp cl + jwt_leeway pol) u64_max \<and>
    claim_rest cl = claim_texts lib payload"
proof -
  have le: "n mod (u64_max + 1) \<le> min n u64_max" for n by simp
  show ?thesis using assms le [of "claim_exp cl + jwt_leeway pol"]
    by (auto simp: validate_claims_def claims_hold_def Let_def intro: order.trans)
qed

text \<open>The signature was checked with the configured secret or with a key of the key set of the right kind.\<close>

definition signed_by ::
    "jwt_lib \<Rightarrow> jwt_policy \<Rightarrow> algorithm \<Rightarrow> cached_jwk option \<Rightarrow> string \<Rightarrow> string \<Rightarrow> bool" where
  "signed_by lib pol alg key input signature \<longleftrightarrow>
     (if is_hmac alg
      then (case jwt_secret pol of Some secret \<Rightarrow> lib_hmac lib (digest alg) secret input = Some signature | None \<Rightarrow> False)
      else (case key of
              None \<Rightarrow> False
            | Some k \<Rightarrow>
                (key_alg k = None \<or> key_alg k = Some alg) \<and>
                (case key_material k of
                   RsaKey n e \<Rightarrow> alg = Rs256 \<and> RSA_MIN_BITS \<le> num_bits (be_value n) \<and> lib_rsa lib n e input signature
                 | EcKey x y \<Rightarrow> alg = Es256 \<and> verify_es256 lib x y input signature)))"

lemma verify_signature_signed:
  assumes "verify_signature lib pol call alg kid input signature st = (Ok u, st')"
  shows "signed_by lib pol alg (map_of (jwks_keys st') kid) input signature"
proof (cases "is_hmac alg")
  case True
  then show ?thesis using assms
    by (auto simp: verify_signature_def signed_by_def verify_hmac_def split: option.splits)
next
  case False
  obtain found ks where k: "jwks_key lib call kid st = (found, ks)" by fastforce
  obtain key where key: "found = Some key"
    using False assms k by (cases found) (auto simp: verify_signature_def)
  have f: "map_of (jwks_keys ks) kid = Some key" using jwks_key_found [OF k] key by simp
  have "st' = ks" using False assms k by (auto simp: verify_signature_def key)
  then show ?thesis using False assms k f unfolding key
    by (cases alg; cases "key_material key")
      (auto simp: verify_signature_def signed_by_def is_hmac_def verify_rsa_def split: if_splits)
qed

lemma allowed_alg_Ok: "allowed_alg pol raw = Ok alg \<longleftrightarrow> algorithm_parse raw = Ok alg \<and> alg \<in> set (jwt_algorithms pol)"
  by (cases "algorithm_parse raw") (auto simp: allowed_alg_def)

lemma open_token_alg: "open_token lib pol auth = Ok (parts, alg, kid, payload) \<Longrightarrow> alg \<in> set (jwt_algorithms pol)"
  by (auto simp: open_token_def allowed_alg_Ok)

lemma authenticate_Ok:
  assumes "authenticate lib pol call auth now st = (Ok p, st')"
  obtains parts alg kid payload cl where
    "open_token lib pol auth = Ok (parts, alg, kid, payload)"
    "signed_by lib pol alg (map_of (jwks_keys (state_jwks st')) kid) (tok_input parts) (tok_signature parts)"
    "validate_claims lib payload (jwt_issuer pol) (jwt_audience pol) now (jwt_leeway pol) = Ok cl"
    "remember_jti lib (claim_jti cl) (min (claim_exp cl + jwt_leeway pol) u64_max) now (state_jti st) = (Ok (), state_jti st')"
    "p = \<lparr>principal_sub = claim_sub cl, principal_tenant = claim_tenant cl, principal_claims = claim_rest cl\<rparr>"
proof -
  obtain parts alg kid payload where o: "open_token lib pol auth = Ok (parts, alg, kid, payload)"
    using assms by (cases "open_token lib pol auth") (auto simp: authenticate_def)
  obtain r ks where v: "verify_signature lib pol call alg kid (tok_input parts) (tok_signature parts) (state_jwks st) = (r, ks)"
    by fastforce
  obtain cl where c: "validate_claims lib payload (jwt_issuer pol) (jwt_audience pol) now (jwt_leeway pol) = Ok cl"
    using assms o v by (cases "validate_claims lib payload (jwt_issuer pol) (jwt_audience pol) now (jwt_leeway pol)")
      (auto simp: authenticate_def split: sum.splits)
  obtain q cache where j: "remember_jti lib (claim_jti cl) (min (claim_exp cl + jwt_leeway pol) u64_max) now (state_jti st) = (q, cache)"
    by fastforce
  have r: "r = Ok ()" and q: "q = Ok ()"
    using assms o v c j by (auto simp: authenticate_def split: sum.splits)
  have st': "st' = st\<lparr>state_jwks := ks, state_jti := cache\<rparr>" and p: "p = \<lparr>principal_sub = claim_sub cl, principal_tenant = claim_tenant cl, principal_claims = claim_rest cl\<rparr>"
    using assms o v c j r q by (auto simp: authenticate_def)
  show thesis
    by (rule that [OF o _ c _ p]) (use verify_signature_signed [OF v [unfolded r]] j q st' in simp_all)
qed

lemma authenticate_jti:
  "state_jti (snd (authenticate lib pol call auth now st)) = state_jti st \<or>
   (\<exists>jti until. state_jti (snd (authenticate lib pol call auth now st)) = snd (remember_jti lib jti until now (state_jti st)))"
  by (auto simp: authenticate_def split: sum.splits prod.splits) (metis snd_conv)+

section \<open>Logins\<close>

text \<open>Sequences of authentications with the accepted ones logged, while the cache has room for the live ids.\<close>

record jwt_login =
  login_header :: "string option"
  login_jti :: string
  login_exp :: nat
  login_at :: nat

inductive jwt_reach :: "jwt_lib \<Rightarrow> jwt_policy \<Rightarrow> nat \<Rightarrow> jwt_state \<Rightarrow> jwt_login list \<Rightarrow> bool" for lib pol where
  start: "jwt_reach lib pol 0 \<lparr>state_jwks = ks, state_jti = []\<rparr> []"
| refuse: "jwt_reach lib pol c st log \<Longrightarrow> c \<le> now \<Longrightarrow> live_ids now (state_jti st) < MAX_JTI \<Longrightarrow>
    authenticate lib pol call auth now st = (Err e, st') \<Longrightarrow> jwt_reach lib pol now st' log"
| accept: "jwt_reach lib pol c st log \<Longrightarrow> c \<le> now \<Longrightarrow> live_ids now (state_jti st) < MAX_JTI \<Longrightarrow>
    authenticate lib pol call auth now st = (Ok p, st') \<Longrightarrow>
    open_token lib pol auth = Ok (parts, alg, kid, payload) \<Longrightarrow>
    validate_claims lib payload (jwt_issuer pol) (jwt_audience pol) now (jwt_leeway pol) = Ok cl \<Longrightarrow>
    jwt_reach lib pol now st' (log @ [\<lparr>login_header = auth, login_jti = claim_jti cl, login_exp = claim_exp cl, login_at = now\<rparr>])"

definition login_end :: "jwt_policy \<Rightarrow> jwt_login \<Rightarrow> nat" where
  "login_end pol l = min (login_exp l + jwt_leeway pol) u64_max"

text \<open>A login that still counts is in the cache.\<close>

definition remembered :: "jwt_lib \<Rightarrow> jwt_policy \<Rightarrow> nat \<Rightarrow> (nat \<times> nat) list \<Rightarrow> jwt_login \<Rightarrow> bool" where
  "remembered lib pol c cache l \<longleftrightarrow>
     login_end pol l < c \<or> map_of cache (lib_hash lib (login_jti l)) = Some (login_end pol l)"

definition single_use :: "jwt_policy \<Rightarrow> jwt_login list \<Rightarrow> bool" where
  "single_use pol log \<longleftrightarrow> sorted_wrt (\<lambda>a b. login_jti a = login_jti b \<longrightarrow> login_end pol a < login_at b) log"

definition logged_ok :: "jwt_lib \<Rightarrow> jwt_policy \<Rightarrow> jwt_login \<Rightarrow> bool" where
  "logged_ok lib pol l \<longleftrightarrow> login_at l \<le> login_end pol l \<and>
     (\<exists>parts alg kid payload cl. open_token lib pol (login_header l) = Ok (parts, alg, kid, payload) \<and>
        claims_hold lib pol (login_at l) payload cl \<and> login_jti l = claim_jti cl \<and> login_exp l = claim_exp cl)"

lemma remembered_step:
  assumes "remembered lib pol c cache l" and "c \<le> now" and "distinct (map fst cache)" and "live_ids now cache < MAX_JTI"
    and "cache' = cache \<or> (\<exists>jti until. cache' = snd (remember_jti lib jti until now cache))"
  shows "remembered lib pol now cache' l"
proof (cases "login_end pol l < now")
  case False
  then have "map_of cache (lib_hash lib (login_jti l)) = Some (login_end pol l)" "now \<le> login_end pol l"
    using assms(1,2) by (auto simp: remembered_def)
  with remember_jti_keeps(1) [OF assms(3,4) this] assms(5) show ?thesis by (auto simp: remembered_def)
qed (simp add: remembered_def)

lemma cache_step:
  assumes "distinct (map fst cache)" and "length cache \<le> MAX_JTI"
    and "cache' = cache \<or> (\<exists>jti until. cache' = snd (remember_jti lib jti until now cache))"
  shows "distinct (map fst cache') \<and> length cache' \<le> MAX_JTI"
  using assms remember_jti_distinct remember_jti_length by blast

lemma jwt_reach_inv:
  assumes "jwt_reach lib pol c st log"
  shows "distinct (map fst (state_jti st)) \<and> length (state_jti st) \<le> MAX_JTI \<and>
    (\<forall>l \<in> set log. remembered lib pol c (state_jti st) l \<and> logged_ok lib pol l) \<and> single_use pol log"
  using assms
proof (induction rule: jwt_reach.induct)
  case (start ks)
  then show ?case by (simp add: single_use_def)
next
  case (refuse c st log now call auth e st')
  have "state_jti st' = state_jti st \<or> (\<exists>jti until. state_jti st' = snd (remember_jti lib jti until now (state_jti st)))"
    using authenticate_jti [of lib pol call auth now st] refuse.hyps by simp
  note c = cache_step [OF _ _ this] and r = remembered_step [OF _ refuse.hyps(2) _ refuse.hyps(3) this]
  show ?case using refuse.IH c r by simp
next
  case (accept c st log now call auth p st' parts alg kid payload cl)
  let ?l = "\<lparr>login_header = auth, login_jti = claim_jti cl, login_exp = claim_exp cl, login_at = now\<rparr>"
  have step: "state_jti st' = state_jti st \<or> (\<exists>jti until. state_jti st' = snd (remember_jti lib jti until now (state_jti st)))"
    using authenticate_jti [of lib pol call auth now st] accept.hyps by simp
  have j: "remember_jti lib (claim_jti cl) (login_end pol ?l) now (state_jti st) = (Ok (), state_jti st')"
    using authenticate_Ok [OF accept.hyps(4)] accept.hyps(5,6) by (auto simp: login_end_def)
  have new: "remembered lib pol now (state_jti st') ?l"
    using remember_jti_enters [of lib "claim_jti cl" "login_end pol ?l" now "state_jti st"] j by (simp add: remembered_def)
  have ok: "logged_ok lib pol ?l"
    using validate_claims_hold [OF accept.hyps(6)] accept.hyps(5) by (auto simp: logged_ok_def login_end_def)
  have "login_end pol l < now" if "l \<in> set log" "login_jti l = claim_jti cl" for l
  proof (rule ccontr)
    assume "\<not> login_end pol l < now"
    then have "map_of (state_jti st) (lib_hash lib (claim_jti cl)) = Some (login_end pol l)" "now \<le> login_end pol l"
      using accept.IH that accept.hyps(2) by (auto simp: remembered_def)
    from remember_jti_keeps(2) [OF _ accept.hyps(3) this refl, of "login_end pol ?l"] accept.IH j show False by simp
  qed
  then have "single_use pol (log @ [?l])" using accept.IH by (auto simp: single_use_def sorted_wrt_append)
  moreover note cache_step [OF _ _ step] and remembered_step [OF _ accept.hyps(2) _ accept.hyps(3) step]
  ultimately show ?case using accept.IH new ok by simp
qed

text \<open>A login for the witnesses.\<close>

definition sample_policy :: jwt_policy where
  "sample_policy = \<lparr>jwt_issuer = ''i'', jwt_audience = ''a'', jwt_algorithms = [Hs256], jwt_bindings = [], jwt_paths = [],
     jwt_secret = Some ''secret'', jwt_leeway = 1\<rparr>"

definition sample_call :: jwks_call where
  "sample_call = \<lparr>at_probe = 0, at_recheck = 0, at_mark = 0, downloaded = Err JwksNet, at_store = 0\<rparr>"

definition sample_payload :: json_value where
  "sample_payload = Object [(''iss'', String ''i''), (''aud'', String ''a''), (''exp'', Number ''9''), (''nbf'', Number ''1''),
        (''iat'', Number ''1''), (''jti'', String ''p''), (''sub'', String ''u'')]"

lemma sample_open:
  "open_token sample_lib sample_policy (Some ''Bearer h.p.m'') =
     Ok (\<lparr>tok_header = ''h'', tok_payload = ''p'', tok_input = ''h.p'', tok_signature = ''m''\<rparr>, Hs256, ''k'', sample_payload)"
proof -
  have b: "nonblank (Some ''Bearer h.p.m'') = Some ''Bearer h.p.m''" "split_once CHR '' '' ''Bearer h.p.m'' = Some (''Bearer'', ''h.p.m'')"
    "eq_ignore_ascii_case ''Bearer'' ''bearer''" "trim ''h.p.m'' = ''h.p.m''" by code_simp+
  have s: "split_token sample_lib ''h.p.m'' = Ok \<lparr>tok_header = ''h'', tok_payload = ''p'', tok_input = ''h.p'', tok_signature = ''m''\<rparr>"
    and a: "allowed_alg sample_policy ''HS256'' = Ok Hs256" and k: "nonblank (Some ''k'') = Some ''k''" by code_simp+
  have "bearer (Some ''Bearer h.p.m'') = Ok ''h.p.m''" by (simp add: bearer_def b)
  with s a k show ?thesis by (simp add: open_token_def sample_lib_def sample_payload_def require_def claim_or_def)
qed

lemma sample_claims:
  "validate_claims sample_lib sample_payload ''i'' ''a'' 5 1 =
     Ok \<lparr>claim_sub = ''u'', claim_tenant = None, claim_jti = ''p'', claim_exp = 9, claim_rest = claim_texts sample_lib sample_payload\<rparr>"
proof -
  have t: "unix_claim sample_lib sample_payload ''exp'' = Some 9" "unix_claim sample_lib sample_payload ''nbf'' = Some 1"
    "unix_claim sample_lib sample_payload ''iat'' = Some 1"
    by (simp_all add: unix_claim_def sample_payload_def as_u64_def from_str_radix_def to_digit_def Let_def)
  have "nonblank (str_claim sample_payload ''jti'') = Some ''p''" "nonblank (str_claim sample_payload ''sub'') = Some ''u''"
    "str_claim sample_payload ''iss'' = Some ''i''" "aud_matches (json_get ''aud'' sample_payload) ''a''"
    "map_of (claim_texts sample_lib sample_payload) ''tenant_id'' = None" "map_of (claim_texts sample_lib sample_payload) ''tenant'' = None"
    "map_of (claim_texts sample_lib sample_payload) ''tid'' = None"
    by code_simp+
  then show ?thesis by (simp add: validate_claims_def t require_def claim_or_def Let_def)
qed

lemma sample_login:
  "authenticate sample_lib sample_policy sample_call (Some ''Bearer h.p.m'') 5 \<lparr>state_jwks = jwks_new, state_jti = []\<rparr> =
     (Ok \<lparr>principal_sub = ''u'', principal_tenant = None, principal_claims = claim_texts sample_lib sample_payload\<rparr>,
      \<lparr>state_jwks = jwks_new, state_jti = [(1, 10)]\<rparr>)"
proof -
  have pol: "jwt_issuer sample_policy = ''i''" "jwt_audience sample_policy = ''a''" "jwt_leeway sample_policy = 1"
    "jwt_secret sample_policy = Some ''secret''" by (simp_all add: sample_policy_def)
  have lib: "lib_hmac sample_lib d key input = Some ''m''" "lib_hash sample_lib ''p'' = 1" for d key input
    by (simp_all add: sample_lib_def)
  show ?thesis
    by (simp add: authenticate_def sample_open verify_signature_def is_hmac_def check_sig_def verify_hmac_def
        remember_jti_def jti_evict_def Let_def pol lib sample_claims [simplified])
qed

section \<open>Theorems\<close>

text \<open>C7. Whoever is authenticated presented a token whose algorithm is on the allowlist, whose signature
  was checked with the configured secret (HMAC) or with a key of the key set of the matching kind
  (RSA of at least 2048 bits, P-256), and whose claims name this issuer and audience, are within
  their time window and carry an id and a subject.\<close>

theorem authenticate_sound:
  assumes "authenticate lib pol call auth now st = (Ok p, st')"
  shows "\<exists>parts alg kid payload cl.
    open_token lib pol auth = Ok (parts, alg, kid, payload) \<and> alg \<in> set (jwt_algorithms pol) \<and>
    signed_by lib pol alg (map_of (jwks_keys (state_jwks st')) kid) (tok_input parts) (tok_signature parts) \<and>
    claims_hold lib pol now payload cl \<and> principal_sub p = claim_sub cl \<and> principal_claims p = claim_texts lib payload"
proof -
  from assms obtain parts alg kid payload cl where *:
    "open_token lib pol auth = Ok (parts, alg, kid, payload)"
    "signed_by lib pol alg (map_of (jwks_keys (state_jwks st')) kid) (tok_input parts) (tok_signature parts)"
    "validate_claims lib payload (jwt_issuer pol) (jwt_audience pol) now (jwt_leeway pol) = Ok cl"
    "p = \<lparr>principal_sub = claim_sub cl, principal_tenant = claim_tenant cl, principal_claims = claim_rest cl\<rparr>"
    by (rule authenticate_Ok)
  with open_token_alg [OF *(1)] validate_claims_hold [OF *(3)] show ?thesis by auto
qed

theorem authenticate_sound_witness:
  "\<exists>parts alg kid payload cl.
    open_token sample_lib sample_policy (Some ''Bearer h.p.m'') = Ok (parts, alg, kid, payload) \<and> alg = Hs256 \<and>
    claims_hold sample_lib sample_policy 5 payload cl"
  using authenticate_sound [OF sample_login] by (auto simp: sample_policy_def)

text \<open>C2. As long as fewer than 50,000 token ids are live, no Authorization value is accepted twice; a
  token id is accepted again only after the end of the earlier token; the cache never exceeds
  its maximum.\<close>

theorem tokens_single_use:
  assumes "jwt_reach lib pol c st log"
  shows "distinct (map login_header log) \<and> single_use pol log \<and> length (state_jti st) \<le> MAX_JTI"
proof -
  have inv: "single_use pol log" "length (state_jti st) \<le> MAX_JTI" "\<And>l. l \<in> set log \<Longrightarrow> logged_ok lib pol l"
    using jwt_reach_inv [OF assms] by auto
  have "login_header (log ! i) \<noteq> login_header (log ! j)" if "i < j" "j < length log" for i j
  proof
    assume eq: "login_header (log ! i) = login_header (log ! j)"
    have ok: "logged_ok lib pol (log ! i)" "logged_ok lib pol (log ! j)" using inv(3) that by auto
    have "login_jti (log ! i) = login_jti (log ! j) \<and> login_exp (log ! i) = login_exp (log ! j)"
      using ok eq by (auto simp: logged_ok_def claims_hold_def)
    moreover have "login_jti (log ! i) = login_jti (log ! j) \<longrightarrow> login_end pol (log ! i) < login_at (log ! j)"
      using inv(1) that by (simp add: single_use_def sorted_wrt_iff_nth_less)
    ultimately show False using ok(2) by (auto simp: logged_ok_def login_end_def)
  qed
  then have "distinct (map login_header log)" by (simp add: distinct_conv_nth) (metis nat_neq_iff)
  with inv show ?thesis by simp
qed

theorem tokens_single_use_witness:
  "\<exists>st log. jwt_reach sample_lib sample_policy 5 st log \<and> log \<noteq> [] \<and> distinct (map login_header log)"
proof -
  let ?log = "[\<lparr>login_header = Some ''Bearer h.p.m'', login_jti = ''p'', login_exp = 9, login_at = 5\<rparr>]"
  have "jwt_reach sample_lib sample_policy 5 \<lparr>state_jwks = jwks_new, state_jti = [(1, 10)]\<rparr> ([] @ ?log)"
    using accept [OF start _ _ sample_login sample_open] sample_claims by (simp add: sample_policy_def live_ids_def)
  with tokens_single_use [OF this] show ?thesis by blast
qed

section \<open>Observation\<close>

text \<open>
  With 50,000 live ids in the cache every tenth is kept and the others are forgotten while their
  tokens are still valid: the token of the first entry can be replayed.
\<close>

lemma keep_tenth_first:
  assumes "distinct (map fst ((k, u) # rest))"
  shows "map_of (keep_tenth 0 ((k, u) # rest)) k = None"
proof -
  have "set (keep_tenth 1 rest) \<subseteq> set rest" using assms distinct_keep_tenth [of rest 1] by simp
  then have "map_of (keep_tenth 1 rest) k = None" using assms by (force simp: map_of_eq_None_iff)
  then show ?thesis by simp
qed

lemma full_cache_forgets:
  assumes "distinct (map fst ((k, u) # rest))" and "MAX_JTI \<le> length ((k, u) # rest)"
    and "\<forall>e \<in> set ((k, u) # rest). now \<le> snd e" and "lib_hash lib jti = k"
  shows "fst (remember_jti lib jti until now ((k, u) # rest)) = Ok ()"
proof -
  have "filter (\<lambda>(k, until). now \<le> until) ((k, u) # rest) = (k, u) # rest"
    using assms(3) by (intro filter_True) auto
  then have "jti_evict now ((k, u) # rest) = keep_tenth 0 ((k, u) # rest)"
    using assms(2) unfolding jti_evict_def by (simp only: Let_def if_True)
  with keep_tenth_first [OF assms(1)] assms(4) show ?thesis unfolding remember_jti_def Let_def by simp
qed


end
