(* ===== verification/Authz.thy ===== *)
theory Authz
  imports Jwt
begin

text \<open>
  The authorization callback, \<open>src/src/authz.rs\<close>, its choice for a path in \<open>src/src/config.rs\<close> and
  its use in \<open>src/src/proxy.rs\<close>. The socket is the sequence of what its reads return; the JSON
  encoding of the question and the decoding of the answer are parameters.
\<close>

section \<open>Policy\<close>

abbreviation DEFAULT_AUTHZ_TIMEOUT :: nat where "DEFAULT_AUTHZ_TIMEOUT \<equiv> 50"
abbreviation MAX_AUTHZ_TIMEOUT :: nat where "MAX_AUTHZ_TIMEOUT \<equiv> 200"
abbreviation MAX_RESPONSE :: nat where "MAX_RESPONSE \<equiv> 8 * 1024"

datatype fail_mode = Closed | Open

datatype resource_selector = PathResource string | BodyResource string

record authz_policy =
  authz_socket :: string
  authz_action :: string
  authz_resource :: resource_selector
  authz_fail_mode :: fail_mode
  authz_timeout :: nat

datatype authz_verdict = AuthzAllow | AuthzDeny | AuthzUnavailable string

record authz_request =
  ask_principal :: string
  ask_action :: string
  ask_resource :: string
  ask_tenant :: "string option"

datatype authz_error = EmptySocket | RemoteSocket | NotUnix | NoSocketPath | RelativeSocket | EmptyAction
  | BadPathResource | BadBodyResource | BadResource | BadFailMode | ZeroTimeout | LongTimeout

definition parse_unix_socket :: "string \<Rightarrow> (authz_error, string) result" where
  "parse_unix_socket raw0 =
     (let raw = trim raw0; lower = to_ascii_lowercase raw
      in if raw = [] then Err EmptySocket
         else if starts_with lower ''http://'' \<or> starts_with lower ''https://'' \<or> starts_with lower ''tcp://'' \<or>
                 starts_with lower ''grpc://'' then Err RemoteSocket
         else case strip_prefix raw ''unix://'' of
                None \<Rightarrow> Err NotUnix
              | Some p \<Rightarrow>
                  (let path = trim p
                   in if path = [] then Err NoSocketPath
                      else if \<not> starts_with path ''/'' then Err RelativeSocket
                      else Ok path))"

definition parse_resource :: "string \<Rightarrow> (authz_error, resource_selector) result" where
  "parse_resource raw =
     (let trimmed = trim raw
      in case strip_prefix trimmed ''path.'' of
           Some n \<Rightarrow>
             (let name = trim n
              in if name = [] \<or> CHR ''.'' \<in> set name then Err BadPathResource else Ok (PathResource name))
         | None \<Rightarrow>
             (case strip_prefix trimmed ''body.'' of
                Some n \<Rightarrow> (let name = trim n in if name = [] then Err BadBodyResource else Ok (BodyResource name))
              | None \<Rightarrow> Err BadResource))"

definition parse_fail_mode :: "string \<Rightarrow> (authz_error, fail_mode) result" where
  "parse_fail_mode raw =
     (if trim raw = ''closed'' then Ok Closed else if trim raw = ''open'' then Ok Open else Err BadFailMode)"

definition parse_timeout_ms :: "nat option \<Rightarrow> (authz_error, nat) result" where
  "parse_timeout_ms timeout_ms =
     (case timeout_ms of
        None \<Rightarrow> Ok DEFAULT_AUTHZ_TIMEOUT
      | Some ms \<Rightarrow> if ms = 0 then Err ZeroTimeout else if MAX_AUTHZ_TIMEOUT < ms then Err LongTimeout else Ok ms)"

definition authz_parse ::
    "string \<Rightarrow> string \<Rightarrow> string \<Rightarrow> string \<Rightarrow> nat option \<Rightarrow> (authz_error, authz_policy) result" where
  "authz_parse socket action resource mode timeout_ms =
     result_bind (parse_unix_socket socket) (\<lambda>path.
       if trim action = [] then Err EmptyAction
       else result_bind (parse_resource resource) (\<lambda>r.
         result_bind (parse_fail_mode mode) (\<lambda>m.
           result_bind (parse_timeout_ms timeout_ms) (\<lambda>t.
             Ok \<lparr>authz_socket = path, authz_action = trim action, authz_resource = r, authz_fail_mode = m,
                authz_timeout = t\<rparr>))))"

fun needs_body :: "authz_policy \<Rightarrow> bool" where
  "needs_body pol = (case authz_resource pol of BodyResource n \<Rightarrow> True | PathResource n \<Rightarrow> False)"

definition extract_resource ::
    "jwt_lib \<Rightarrow> authz_policy \<Rightarrow> string \<Rightarrow> string \<Rightarrow> jwt_policy option \<Rightarrow> (string \<times> string) list \<Rightarrow> string option" where
  "extract_resource lib pol path body jwt extra =
     (case authz_resource pol of
        PathResource name \<Rightarrow>
          map_of (case jwt of Some p \<Rightarrow> path_params (jwt_paths p) path extra | None \<Rightarrow> extra) name
      | BodyResource pointer \<Rightarrow>
          if list_all is_ascii_whitespace body then None
          else Option.bind (lib_json lib body) (\<lambda>json. json_field lib json pointer))"

section \<open>The callback\<close>

definition encode_http_post :: "string \<Rightarrow> string" where
  "encode_http_post json =
     ''POST /authorize HTTP/1.1'' @ crlf @ ''Host: authz'' @ crlf @ ''Content-Type: application/json'' @ crlf @
     ''Content-Length: '' @ nat_to_string (length json) @ crlf @ ''Connection: close'' @ crlf @ crlf @ json"

record http_response =
  resp_status :: nat
  resp_body :: string

fun content_length :: "string list \<Rightarrow> nat option \<Rightarrow> (string, nat option) result" where
  "content_length [] len = Ok len"
| "content_length (line # rest) len =
     (case split_once CHR '':'' line of
        None \<Rightarrow> content_length rest len
      | Some (name, v) \<Rightarrow>
          if eq_ignore_ascii_case name ''content-length'' then
            (case parse_uint usize_max (trim v) of
               Some n \<Rightarrow> content_length rest (Some n)
             | None \<Rightarrow> Err ''protocol'')
          else content_length rest len)"

text \<open>Status and length from the head of an answer.\<close>

definition parse_head :: "string \<Rightarrow> (string, nat \<times> nat option) result" where
  "parse_head head =
     (if \<not> utf8_valid head then Err ''protocol''
      else case split_str crlf head of
             [] \<Rightarrow> Err ''protocol''
           | status_line # lines \<Rightarrow>
               (case split_whitespace status_line of
                  version # status_token # others \<Rightarrow>
                    (case parse_uint u16_max status_token of
                       None \<Rightarrow> Err ''protocol''
                     | Some status \<Rightarrow> result_bind (content_length lines None) (\<lambda>len. Ok (status, len)))
                | _ \<Rightarrow> Err ''protocol''))"

definition try_parse_http :: "string \<Rightarrow> (string, http_response) result option" where
  "try_parse_http raw =
     (case find_str (crlf @ crlf) raw of
        None \<Rightarrow> None
      | Some header_end \<Rightarrow>
          (case parse_head (take header_end raw) of
             Err e \<Rightarrow> Some (Err e)
           | Ok (status, len) \<Rightarrow>
               (let rest = drop (header_end + 4) raw
                in case len of
                     Some n \<Rightarrow>
                       if length rest < n then None else Some (Ok \<lparr>resp_status = status, resp_body = take n rest\<rparr>)
                   | None \<Rightarrow> Some (Ok \<lparr>resp_status = status, resp_body = rest\<rparr>))))"

definition parse_allow_body :: "(string \<Rightarrow> bool option) \<Rightarrow> nat \<Rightarrow> string \<Rightarrow> (string, authz_verdict) result" where
  "parse_allow_body decode status body =
     (if status \<noteq> 200 then Err ''protocol''
      else case decode body of
             None \<Rightarrow> Err ''protocol''
           | Some b \<Rightarrow> Ok (if b then AuthzAllow else AuthzDeny))"

definition answer :: "(string \<Rightarrow> bool option) \<Rightarrow> (string, http_response) result \<Rightarrow> (string, authz_verdict) result" where
  "answer decode r = result_bind r (\<lambda>resp. parse_allow_body decode (resp_status resp) (resp_body resp))"

datatype read_event = Chunk string | ReadError | Eof

text \<open>When no event is left the timer fires.\<close>

fun read_response :: "(string \<Rightarrow> bool option) \<Rightarrow> string \<Rightarrow> read_event list \<Rightarrow> (string, authz_verdict) result" where
  "read_response decode buf [] = Err ''timeout''"
| "read_response decode buf (ReadError # events) = Err ''timeout''"
| "read_response decode buf (Eof # events) =
     (case try_parse_http buf of Some r \<Rightarrow> answer decode r | None \<Rightarrow> Err ''protocol'')"
| "read_response decode buf (Chunk c # events) =
     (let buf' = buf @ c
      in if MAX_RESPONSE < length buf' then Err ''protocol''
         else case try_parse_http buf' of
                Some r \<Rightarrow> answer decode r
              | None \<Rightarrow> read_response decode buf' events)"

record socket_script =
  connects :: bool
  written :: bool
  reads :: "read_event list"

definition query_socket ::
    "(string \<Rightarrow> bool option) \<Rightarrow> (string \<Rightarrow> string \<Rightarrow> socket_script) \<Rightarrow> (authz_request \<Rightarrow> string option) \<Rightarrow>
     string \<Rightarrow> authz_request \<Rightarrow> (string, authz_verdict) result" where
  "query_socket decode service encode socket request =
     (case encode request of
        None \<Rightarrow> Err ''protocol''
      | Some json \<Rightarrow>
          (let script = service socket (encode_http_post json)
           in if \<not> connects script \<or> \<not> written script then Err ''connect'' else read_response decode [] (reads script)))"

definition decide ::
    "(string \<Rightarrow> bool option) \<Rightarrow> (string \<Rightarrow> string \<Rightarrow> socket_script) \<Rightarrow> (authz_request \<Rightarrow> string option) \<Rightarrow>
     authz_policy \<Rightarrow> authz_request \<Rightarrow> authz_verdict" where
  "decide decode service encode pol request =
     (case query_socket decode service encode (authz_socket pol) request of
        Ok v \<Rightarrow> v
      | Err detail \<Rightarrow> AuthzUnavailable detail)"

section \<open>Identity and authorization in the request filter\<close>

record authz_route =
  route_prefix :: string
  route_authz :: "authz_policy option"

definition authz_for :: "authz_route list \<Rightarrow> string \<Rightarrow> authz_policy option" where
  "authz_for routes uri =
     (case canonical_route_path (first_piece CHR ''?'' uri) of
        None \<Rightarrow> (case List.map_filter route_authz routes of p # ps \<Rightarrow> Some p | [] \<Rightarrow> None)
      | Some path \<Rightarrow>
          (let matching = sort_key (length \<circ> route_prefix)
                 (filter (\<lambda>r. route_authz r \<noteq> None \<and> path_matches_prefix path (route_prefix r)) routes)
           in if matching = [] then None else route_authz (last matching)))"

text \<open>A step of the request filter lets the request go on or answers it with a status.\<close>

datatype filter_step = Continue | Answered nat

record identity_site =
  site_jwt :: "jwt_policy option"
  site_openapi_params :: "string \<Rightarrow> (string \<times> string) list"
  site_routes :: "authz_route list"

definition apply_jwt_identity ::
    "jwt_lib \<Rightarrow> identity_site \<Rightarrow> jwks_call \<Rightarrow> string option \<Rightarrow> string \<Rightarrow> nat \<Rightarrow> jwt_state \<Rightarrow>
     filter_step \<times> jwt_principal option \<times> jwt_state" where
  "apply_jwt_identity lib st_site call authorization uri now st =
     (case site_jwt st_site of
        None \<Rightarrow> (Continue, None, st)
      | Some pol \<Rightarrow>
          (case authenticate lib pol call authorization now st of
             (Err e, st') \<Rightarrow> (Answered (failure_status e), None, st')
           | (Ok who, st') \<Rightarrow>
               (let path = first_piece CHR ''?'' uri
                in case bind_path pol who path (site_openapi_params st_site path) of
                     Err e \<Rightarrow> (Answered (failure_status e), None, st')
                   | Ok u \<Rightarrow> (Continue, Some who, st'))))"

definition apply_jwt_body :: "jwt_lib \<Rightarrow> identity_site \<Rightarrow> jwt_principal option \<Rightarrow> string \<Rightarrow> filter_step" where
  "apply_jwt_body lib st_site who body =
     (case site_jwt st_site of
        None \<Rightarrow> Continue
      | Some pol \<Rightarrow>
          if \<not> has_body_bindings pol then Continue
          else case who of
                 None \<Rightarrow> Continue
               | Some w \<Rightarrow> (case bind_body lib pol w body of Ok u \<Rightarrow> Continue | Err e \<Rightarrow> Answered (failure_status e)))"

definition authz_question :: "authz_policy \<Rightarrow> jwt_principal \<Rightarrow> string \<Rightarrow> authz_request" where
  "authz_question pol who resource =
     \<lparr>ask_principal = principal_sub who, ask_action = authz_action pol, ask_resource = resource,
      ask_tenant = principal_tenant who\<rparr>"

definition apply_authz ::
    "jwt_lib \<Rightarrow> (authz_policy \<Rightarrow> authz_request \<Rightarrow> authz_verdict) \<Rightarrow> identity_site \<Rightarrow> jwt_principal option \<Rightarrow>
     string \<Rightarrow> string \<Rightarrow> filter_step" where
  "apply_authz lib verdict_of st_site who uri body =
     (case authz_for (site_routes st_site) uri of
        None \<Rightarrow> Continue
      | Some pol \<Rightarrow>
          (let path = first_piece CHR ''?'' uri
           in case who of
                None \<Rightarrow> Answered 403
              | Some w \<Rightarrow>
                  (case extract_resource lib pol path body (site_jwt st_site) (site_openapi_params st_site path) of
                     None \<Rightarrow> Answered 403
                   | Some resource \<Rightarrow>
                       (case verdict_of pol (authz_question pol w resource) of
                          AuthzAllow \<Rightarrow> Continue
                        | AuthzDeny \<Rightarrow> Answered 403
                        | AuthzUnavailable detail \<Rightarrow>
                            (case authz_fail_mode pol of Closed \<Rightarrow> Answered 403 | Open \<Rightarrow> Continue)))))"

section \<open>Reading an answer\<close>

text \<open>The head of the answer gives a length (or is malformed), so the end of the answer is known.\<close>

definition sized :: "string \<Rightarrow> bool" where
  "sized raw =
     (case find_str (crlf @ crlf) raw of
        None \<Rightarrow> True
      | Some i \<Rightarrow> (case parse_head (take i raw) of Ok (status, None) \<Rightarrow> False | _ \<Rightarrow> True))"

lemma try_parse_stable:
  assumes "try_parse_http p = Some r" and "sized (p @ q)"
  shows "try_parse_http (p @ q) = Some r"
proof -
  obtain i where i: "find_str (crlf @ crlf) p = Some i"
    using assms(1) by (cases "find_str (crlf @ crlf) p") (auto simp: try_parse_http_def)
  have len: "i + 4 \<le> length p" using find_str_Some [OF i] by (simp add: crlf_def)
  have j: "find_str (crlf @ crlf) (p @ q) = Some i" "take i (p @ q) = take i p"
    "drop (i + 4) (p @ q) = drop (i + 4) p @ q"
    using find_str_append [OF i] len by auto
  show ?thesis using assms i j
    by (auto simp: try_parse_http_def sized_def Let_def split: sum.splits option.splits if_splits)
qed

lemma read_response_chunks:
  assumes "sized (buf @ concat cs)" and "length (buf @ concat cs) \<le> MAX_RESPONSE"
  shows "read_response decode buf (map Chunk cs @ [Eof]) =
    (case try_parse_http (buf @ concat cs) of Some r \<Rightarrow> answer decode r | None \<Rightarrow> Err ''protocol'')"
  using assms
proof (induction cs arbitrary: buf)
  case (Cons c cs)
  have eq: "buf @ concat (c # cs) = (buf @ c) @ concat cs" by simp
  have fits: "\<not> MAX_RESPONSE < length (buf @ c)" using Cons.prems(2) by simp
  show ?case
  proof (cases "try_parse_http (buf @ c)")
    case None
    then show ?thesis using Cons.IH [of "buf @ c"] Cons.prems fits by (simp add: Let_def)
  next
    case (Some r)
    from try_parse_stable [OF this] Cons.prems(1) have "try_parse_http (buf @ concat (c # cs)) = Some r"
      unfolding eq by blast
    with Some fits show ?thesis by (simp add: Let_def)
  qed
qed simp

fun received :: "read_event list \<Rightarrow> string" where
  "received (Chunk c # events) = c @ received events"
| "received _ = []"

text \<open>What was received up to some point is an answer with status 200 that grants the request.\<close>

definition granted :: "(string \<Rightarrow> bool option) \<Rightarrow> string \<Rightarrow> bool" where
  "granted decode raw \<longleftrightarrow>
     (\<exists>n resp. try_parse_http (take n raw) = Some (Ok resp) \<and> resp_status resp = 200 \<and> decode (resp_body resp) = Some True)"

lemma answer_Allow:
  "answer decode r = Ok AuthzAllow \<longleftrightarrow> (\<exists>resp. r = Ok resp \<and> resp_status resp = 200 \<and> decode (resp_body resp) = Some True)"
proof (cases r)
  case (Inr resp)
  then show ?thesis by (cases "decode (resp_body resp)") (simp_all add: answer_def parse_allow_body_def)
qed (simp add: answer_def)

lemma read_response_Allow:
  "read_response decode buf events = Ok AuthzAllow \<Longrightarrow>
     \<exists>n resp. try_parse_http (buf @ take n (received events)) = Some (Ok resp) \<and> resp_status resp = 200 \<and>
       decode (resp_body resp) = Some True"
proof (induction decode buf events rule: read_response.induct)
  case (3 decode buf events)
  then show ?case by (auto simp: answer_Allow split: option.splits)
next
  case (4 decode buf c events)
  have fits: "\<not> MAX_RESPONSE < length (buf @ c)" using "4.prems" by (auto simp: Let_def split: if_splits)
  show ?case
  proof (cases "try_parse_http (buf @ c)")
    case None
    from "4.prems" fits None have "read_response decode (buf @ c) events = Ok AuthzAllow" by (simp add: Let_def)
    from "4.IH" [OF refl fits None this] obtain n resp where
      "try_parse_http ((buf @ c) @ take n (received events)) = Some (Ok resp)" "resp_status resp = 200"
      "decode (resp_body resp) = Some True" by blast
    then show ?thesis by (intro exI [of _ "length c + n"] exI [of _ resp]) simp
  next
    case (Some r)
    with "4.prems" fits have "answer decode r = Ok AuthzAllow" by (simp add: Let_def)
    with Some show ?thesis by (intro exI [of _ "length c"]) (auto simp: answer_Allow)
  qed
qed simp_all

definition sample_answer :: string where
  "sample_answer = ''HTTP/1.1 200 OK'' @ crlf @ crlf"

lemma sample_answer_parsed:
  "try_parse_http sample_answer = Some (Ok \<lparr>resp_status = 200, resp_body = []\<rparr>)"
  "try_parse_http (sample_answer @ ''{}'') = Some (Ok \<lparr>resp_status = 200, resp_body = ''{}''\<rparr>)"
  "length sample_answer = 19"
proof -
  have f: "find_str (crlf @ crlf) sample_answer = Some 15" "find_str (crlf @ crlf) (sample_answer @ ''{}'') = Some 15"
    by code_simp+
  have "utf8_valid ''HTTP/1.1 200 OK''" "split_str crlf ''HTTP/1.1 200 OK'' = [''HTTP/1.1 200 OK'']"
    "split_whitespace ''HTTP/1.1 200 OK'' = [''HTTP/1.1'', ''200'', ''OK'']" by code_simp+
  moreover have "parse_uint u16_max ''200'' = Some 200" by (simp add: from_str_radix_def to_digit_def Let_def)
  moreover have "take 15 sample_answer = ''HTTP/1.1 200 OK''" "take 15 (sample_answer @ ''{}'') = ''HTTP/1.1 200 OK''" by code_simp+
  ultimately have h: "parse_head (take 15 sample_answer) = Ok (200, None)" "parse_head (take 15 (sample_answer @ ''{}'')) = Ok (200, None)"
    by (simp_all add: parse_head_def)
  have d: "drop 19 sample_answer = []" "drop 19 (sample_answer @ ''{}'') = ''{}''"  "length sample_answer = 19" by code_simp+
  show "try_parse_http sample_answer = Some (Ok \<lparr>resp_status = 200, resp_body = []\<rparr>)"
    unfolding try_parse_http_def f option.case h sum.case prod.case by (simp add: d)
  show "try_parse_http (sample_answer @ ''{}'') = Some (Ok \<lparr>resp_status = 200, resp_body = ''{}''\<rparr>)"
    unfolding try_parse_http_def f option.case h sum.case prod.case by (simp add: d)
  show "length sample_answer = 19" by (rule d(3))
qed

section \<open>Theorems\<close>

text \<open>How the answer of the service is cut into reads does not matter, as long as its head gives a
  length and it stays within the maximum.\<close>

theorem authz_chunking_irrelevant:
  assumes "sized (concat cs)" and "length (concat cs) \<le> MAX_RESPONSE"
  shows "read_response decode [] (map Chunk cs @ [Eof]) = read_response decode [] [Chunk (concat cs), Eof]"
  using read_response_chunks [of "[]" cs decode] read_response_chunks [of "[]" "[concat cs]" decode] assms by simp

theorem authz_chunking_irrelevant_witness:
  "read_response (\<lambda>b. Some True) [] [Chunk ''a'', Chunk ''b'', Eof] = read_response (\<lambda>b. Some True) [] [Chunk ''ab'', Eof]"
proof -
  have "find_str (crlf @ crlf) ''ab'' = None" by code_simp
  then have "sized (concat [''a'', ''b''])" by (simp add: sized_def)
  from authz_chunking_irrelevant [OF this, of "\<lambda>b. Some True"] show ?thesis by simp
qed

text \<open>C1. On a route with an authorization block only requests of an authenticated principal go on, whose
  path bindings hold and whose resource was found, and, unless the block fails open, only after the
  service answered the question about exactly this principal, action and resource with status 200 and a
  body that grants it. An unreachable, slow or malformed service does not let a request through.\<close>

theorem authorized_requests_only:
  assumes "authz_for (site_routes st_site) uri = Some pol"
    and "apply_jwt_identity lib st_site call authorization uri now st = (Continue, who, st')"
    and "apply_authz lib (decide decode service encode) st_site who uri body = Continue"
  shows "\<exists>w jwt resource json. who = Some w \<and> site_jwt st_site = Some jwt \<and>
    fst (authenticate lib jwt call authorization now st) = Ok w \<and>
    bind_path jwt w (first_piece CHR ''?'' uri) (site_openapi_params st_site (first_piece CHR ''?'' uri)) = Ok () \<and>
    extract_resource lib pol (first_piece CHR ''?'' uri) body (Some jwt) (site_openapi_params st_site (first_piece CHR ''?'' uri)) = Some resource \<and>
    (authz_fail_mode pol = Open \<or>
     encode (authz_question pol w resource) = Some json \<and>
     granted decode (received (reads (service (authz_socket pol) (encode_http_post json)))))"
proof -
  let ?path = "first_piece CHR ''?'' uri"
  let ?extra = "site_openapi_params st_site ?path"
  obtain w where w: "who = Some w" using assms(1,3) by (cases who) (auto simp: apply_authz_def Let_def)
  obtain jwt where jwt: "site_jwt st_site = Some jwt" using assms(2) w by (cases "site_jwt st_site") (auto simp: apply_jwt_identity_def)
  obtain r s where a: "authenticate lib jwt call authorization now st = (r, s)" by fastforce
  have auth: "r = Ok w" "bind_path jwt w ?path ?extra = Ok ()"
    using assms(2) w jwt a by (auto simp: apply_jwt_identity_def Let_def split: sum.splits)
  obtain resource where res: "extract_resource lib pol ?path body (Some jwt) ?extra = Some resource"
    using assms(1,3) w jwt by (cases "extract_resource lib pol ?path body (Some jwt) ?extra") (auto simp: apply_authz_def Let_def)
  have v: "authz_fail_mode pol = Open \<or> decide decode service encode pol (authz_question pol w resource) = AuthzAllow"
    using assms(1,3) w jwt res by (auto simp: apply_authz_def Let_def split: authz_verdict.splits fail_mode.splits)
  have "\<exists>json. encode (authz_question pol w resource) = Some json \<and>
      granted decode (received (reads (service (authz_socket pol) (encode_http_post json))))"
    if allow: "decide decode service encode pol (authz_question pol w resource) = AuthzAllow"
  proof -
    obtain json where j: "encode (authz_question pol w resource) = Some json"
      "read_response decode [] (reads (service (authz_socket pol) (encode_http_post json))) = Ok AuthzAllow"
      using allow by (auto simp: decide_def query_socket_def Let_def split: sum.splits option.splits if_splits)
    from read_response_Allow [OF j(2)] j(1) show ?thesis by (auto simp: granted_def)
  qed
  with w jwt a auth res v show ?thesis by auto
qed

theorem authorized_requests_only_witness:
  "let pol = \<lparr>authz_socket = ''/s'', authz_action = ''read'', authz_resource = PathResource ''id'', authz_fail_mode = Closed,
         authz_timeout = 50\<rparr>;
       st_site = \<lparr>site_jwt = Some sample_policy, site_openapi_params = (\<lambda>p. [(''id'', ''7'')]),
         site_routes = [\<lparr>route_prefix = ''/'', route_authz = Some pol\<rparr>]\<rparr>;
       service = (\<lambda>socket payload. \<lparr>connects = True, written = True, reads = [Chunk sample_answer]\<rparr>)
   in \<exists>w. apply_authz sample_lib (decide (\<lambda>b. Some True) service (\<lambda>r. Some [])) st_site (Some w) ''/x'' [] = Continue \<and>
        fst (authenticate sample_lib sample_policy sample_call (Some ''Bearer h.p.m'') 5 \<lparr>state_jwks = jwks_new, state_jti = []\<rparr>) = Ok w"
proof -
  let ?pol = "\<lparr>authz_socket = ''/s'', authz_action = ''read'', authz_resource = PathResource ''id'', authz_fail_mode = Closed,
         authz_timeout = 50\<rparr>"
  let ?site = "\<lparr>site_jwt = Some sample_policy, site_openapi_params = (\<lambda>p. [(''id'', ''7'')]),
         site_routes = [\<lparr>route_prefix = ''/'', route_authz = Some ?pol\<rparr>]\<rparr>"
  let ?service = "\<lambda>socket payload. \<lparr>connects = True, written = True, reads = [Chunk sample_answer]\<rparr>"
  let ?st = "\<lparr>state_jwks = jwks_new, state_jti = []\<rparr>"
  let ?w = "\<lparr>principal_sub = ''u'', principal_tenant = None, principal_claims = claim_texts sample_lib sample_payload\<rparr>"
  have path: "canonical_route_path (first_piece CHR ''?'' ''/x'') = Some ''/x''" "first_piece CHR ''?'' ''/x'' = ''/x''" by code_simp+
  have params: "path_params (jwt_paths sample_policy) ''/x'' e = e" for e
    by (simp add: path_params_def sample_policy_def Let_def)
  have for_x: "authz_for (site_routes ?site) ''/x'' = Some ?pol"
    unfolding authz_for_def path(1) by (simp add: path_matches_prefix_def Let_def)
  have ident: "apply_jwt_identity sample_lib ?site sample_call (Some ''Bearer h.p.m'') ''/x'' 5 ?st =
      (Continue, Some ?w, \<lparr>state_jwks = jwks_new, state_jti = [(1, 10)]\<rparr>)"
    using sample_login by (simp add: apply_jwt_identity_def bind_path_def Let_def) (simp add: sample_policy_def)
  have ok: "apply_authz sample_lib (decide (\<lambda>b. Some True) ?service (\<lambda>r. Some [])) ?site (Some ?w) ''/x'' [] = Continue"
    using for_x sample_answer_parsed(1,3) path(2) params
    by (simp add: apply_authz_def extract_resource_def decide_def query_socket_def answer_def parse_allow_body_def Let_def)
  have "\<exists>w. Some ?w = Some w \<and> fst (authenticate sample_lib sample_policy sample_call (Some ''Bearer h.p.m'') 5 ?st) = Ok w"
    using authorized_requests_only [OF for_x ident ok] by auto
  with ok show ?thesis unfolding Let_def by auto
qed

section \<open>Observation\<close>

text \<open>
  Without a Content-Length the answer counts as complete as soon as its head is there, so an answer
  cut behind the head is read as an empty body, while the same bytes in one read grant the request.
\<close>

lemma unsized_answer_cut:
  assumes "decode [] = None" and "decode ''{}'' = Some True"
  shows "read_response decode [] [Chunk sample_answer, Chunk ''{}'', Eof] = Err ''protocol''"
    and "read_response decode [] [Chunk (sample_answer @ ''{}''), Eof] = Ok AuthzAllow"
proof -
  show "read_response decode [] [Chunk sample_answer, Chunk ''{}'', Eof] = Err ''protocol''"
    using assms sample_answer_parsed(1,3) by (simp add: answer_def parse_allow_body_def Let_def)
  show "read_response decode [] [Chunk (sample_answer @ ''{}''), Eof] = Ok AuthzAllow"
    using assms sample_answer_parsed(2,3) by (simp add: answer_def parse_allow_body_def Let_def)
qed

end
