(* ===== verification/Header_Map.thy ===== *)
theory Header_Map
  imports Prelude
begin

text \<open>
  The header map of a request as \<open>src/src/proxy.rs\<close> uses it: a list of name and value pairs whose
  names compare without regard to ASCII case. \<open>get\<close> is the first value of a name, \<open>insert_header\<close>
  replaces every value of the name and refuses what is not a header name or value, and \<open>to_str\<close>
  gives the text of a value of visible ASCII characters only.
\<close>

type_synonym headers = "(string \<times> string) list"

section \<open>Tokens and values\<close>

definition token_punctuation :: string where
  "token_punctuation = ''!#$%&'' @ [CHR 0x27] @ ''*+-.^_'' @ [CHR 0x60] @ ''|~''"

definition token_char :: "char \<Rightarrow> bool" where
  "token_char c \<longleftrightarrow> is_ascii_alphanumeric c \<or> c \<in> set token_punctuation"

definition header_name_ok :: "string \<Rightarrow> bool" where
  "header_name_ok s \<longleftrightarrow> s \<noteq> [] \<and> list_all token_char s"

definition header_value_ok :: "string \<Rightarrow> bool" where
  "header_value_ok s \<longleftrightarrow> list_all (\<lambda>c. byte_of c = 9 \<or> 32 \<le> byte_of c \<and> byte_of c \<noteq> 127) s"

definition value_to_str :: "string \<Rightarrow> string option" where
  "value_to_str s = (if list_all (\<lambda>c. byte_of c = 9 \<or> 32 \<le> byte_of c \<and> byte_of c < 127) s then Some s else None)"

section \<open>The map\<close>

definition hm_get_all :: "headers \<Rightarrow> string \<Rightarrow> string list" where
  "hm_get_all hs name = map snd (filter (\<lambda>h. eq_ignore_ascii_case (fst h) name) hs)"

definition hm_get :: "headers \<Rightarrow> string \<Rightarrow> string option" where
  "hm_get hs name = map_option snd (find (\<lambda>h. eq_ignore_ascii_case (fst h) name) hs)"

definition hm_text :: "headers \<Rightarrow> string \<Rightarrow> string option" where
  "hm_text hs name = Option.bind (hm_get hs name) value_to_str"

definition contains_key :: "headers \<Rightarrow> string \<Rightarrow> bool" where
  "contains_key hs name \<longleftrightarrow> list_ex (\<lambda>h. eq_ignore_ascii_case (fst h) name) hs"

definition remove_header :: "headers \<Rightarrow> string \<Rightarrow> headers" where
  "remove_header hs name = filter (\<lambda>h. \<not> eq_ignore_ascii_case (fst h) name) hs"

definition insert_header :: "headers \<Rightarrow> string \<Rightarrow> string \<Rightarrow> headers option" where
  "insert_header hs name v =
     (if header_name_ok name \<and> header_value_ok v then Some (remove_header hs name @ [(name, v)]) else None)"

section \<open>Laws\<close>

lemma eq_ignore_ascii_case_sym: "eq_ignore_ascii_case a b \<longleftrightarrow> eq_ignore_ascii_case b a"
  by (auto simp: eq_ignore_ascii_case_def)

lemma eq_ignore_ascii_case_trans:
  "eq_ignore_ascii_case a b \<Longrightarrow> eq_ignore_ascii_case b c \<Longrightarrow> eq_ignore_ascii_case a c"
  by (simp add: eq_ignore_ascii_case_def)

lemma get_all_remove [simp]:
  "hm_get_all (remove_header hs n) m = (if eq_ignore_ascii_case n m then [] else hm_get_all hs m)"
proof (cases "eq_ignore_ascii_case n m")
  case True
  then have "filter (\<lambda>h. eq_ignore_ascii_case (fst h) m \<and> \<not> eq_ignore_ascii_case (fst h) n) hs = []"
    by (auto simp: filter_empty_conv eq_ignore_ascii_case_def)
  with True show ?thesis
    by (simp add: hm_get_all_def remove_header_def conj_commute)
next
  case False
  then have "(eq_ignore_ascii_case (fst h) m \<and> \<not> eq_ignore_ascii_case (fst h) n) =
      eq_ignore_ascii_case (fst h) m" for h :: "string \<times> string"
    by (auto simp: eq_ignore_ascii_case_def)
  with False show ?thesis
    by (simp add: hm_get_all_def remove_header_def conj_commute)
qed

lemma get_all_append [simp]:
  "hm_get_all (hs @ ks) m = hm_get_all hs m @ hm_get_all ks m"
  by (simp add: hm_get_all_def)

lemma get_all_single [simp]:
  "hm_get_all [(n, v)] m = (if eq_ignore_ascii_case n m then [v] else [])"
  by (simp add: hm_get_all_def)

lemma get_all_insert:
  "insert_header hs n v = Some ks \<Longrightarrow>
   hm_get_all ks m = (if eq_ignore_ascii_case n m then [v] else hm_get_all hs m)"
  by (auto simp: insert_header_def split: if_splits)

lemma hm_get_hd: "hm_get hs n = (case hm_get_all hs n of [] \<Rightarrow> None | v # vs \<Rightarrow> Some v)"
  by (induction hs) (auto simp: hm_get_def hm_get_all_def)

lemma contains_key_iff: "contains_key hs n \<longleftrightarrow> hm_get_all hs n \<noteq> []"
  by (induction hs) (auto simp: contains_key_def hm_get_all_def)

lemma value_to_str_Some [dest]: "value_to_str s = Some t \<Longrightarrow> t = s"
  by (simp add: value_to_str_def split: if_splits)

end
