(* ===== verification/Shield.thy ===== *)
theory Shield
  imports Header_Map Rust_Text
begin

text \<open>
  The request shield, \<open>src/src/shield.rs\<close>: limits on headers, method, URI and body, the host
  allowlist, the comparison of \<open>Host\<close> with \<open>:authority\<close>, the user agent signatures and the
  framing checks, together with the count of framing headers in the raw header block of
  \<open>src/src/proxy.rs\<close>. The environment and the Unicode case mappings are parameters.
\<close>

section \<open>Settings\<close>

type_synonym env = "string \<Rightarrow> string option"

record case_maps =
  lower_str :: "string \<Rightarrow> string"
  upper_str :: "string \<Rightarrow> string"

text \<open>What the proxy relies on: on ASCII text the mappings are the ASCII ones.\<close>

definition ascii_upper :: "char \<Rightarrow> char" where
  "ascii_upper c = (if 97 \<le> byte_of c \<and> byte_of c \<le> 122 then char_of (byte_of c - 32) else c)"

definition case_maps_ok :: "case_maps \<Rightarrow> bool" where
  "case_maps_ok cm \<longleftrightarrow>
     (\<forall>s. list_all is_ascii s \<longrightarrow> lower_str cm s = to_ascii_lowercase s \<and> upper_str cm s = map ascii_upper s)"

definition DEFAULT_ALLOWED :: string where
  "DEFAULT_ALLOWED = ''GET,POST,PUT,PATCH,DELETE,HEAD,OPTIONS''"

definition MAX_REPLAYABLE_BODY :: nat where
  "MAX_REPLAYABLE_BODY = 65536"

definition DEFAULT_MAX_BODY :: nat where
  "DEFAULT_MAX_BODY = MAX_REPLAYABLE_BODY"

definition DEFAULT_MAX_URI :: nat where
  "DEFAULT_MAX_URI = 8192"

definition DEFAULT_MAX_HEADER_COUNT :: nat where
  "DEFAULT_MAX_HEADER_COUNT = 100"

definition DEFAULT_MAX_HEADER_BYTES :: nat where
  "DEFAULT_MAX_HEADER_BYTES = 65536"

definition comma_list :: "(string \<Rightarrow> string) \<Rightarrow> string \<Rightarrow> string list" where
  "comma_list f s = filter (\<lambda>m. m \<noteq> []) (map (\<lambda>m. f (trim m)) (split_on CHR '','' s))"

definition ALLOWED_METHODS :: "case_maps \<Rightarrow> env \<Rightarrow> string list" where
  "ALLOWED_METHODS cm env = comma_list (upper_str cm) (unwrap_or (env ''ALLOWED_METHODS'') DEFAULT_ALLOWED)"

definition positive_usize :: "env \<Rightarrow> string \<Rightarrow> nat \<Rightarrow> nat" where
  "positive_usize env name d =
     unwrap_or (opt_filter (\<lambda>v. v > 0) (Option.bind (env name) (parse_uint usize_max))) d"

definition MAX_BODY_SIZE :: "env \<Rightarrow> nat" where
  "MAX_BODY_SIZE env = min (positive_usize env ''MAX_BODY_SIZE'' DEFAULT_MAX_BODY) MAX_REPLAYABLE_BODY"

definition MAX_URI_LENGTH :: "env \<Rightarrow> nat" where
  "MAX_URI_LENGTH env = unwrap_or (Option.bind (env ''MAX_URI_LENGTH'') (parse_uint usize_max)) DEFAULT_MAX_URI"

definition MAX_HEADER_COUNT :: "env \<Rightarrow> nat" where
  "MAX_HEADER_COUNT env = positive_usize env ''MAX_HEADER_COUNT'' DEFAULT_MAX_HEADER_COUNT"

definition MAX_HEADER_BYTES :: "env \<Rightarrow> nat" where
  "MAX_HEADER_BYTES env = positive_usize env ''MAX_HEADER_BYTES'' DEFAULT_MAX_HEADER_BYTES"

definition ALLOWED_HOSTS :: "case_maps \<Rightarrow> env \<Rightarrow> string list option" where
  "ALLOWED_HOSTS cm env = map_option (comma_list (lower_str cm)) (env ''ALLOWED_HOSTS'')"

definition BAD_BOT_ENABLED :: "env \<Rightarrow> bool" where
  "BAD_BOT_ENABLED env = (case env ''BAD_BOT_ENABLED'' of Some v \<Rightarrow> v \<noteq> ''false'' | None \<Rightarrow> True)"

section \<open>Verdicts\<close>

datatype shield_verdict =
    ShieldAllow | BlockMethod | BlockBodySize | BlockUriLength | BlockHost | BlockBadBot | BlockSmuggling | BlockHeaders

definition shield_check_headers :: "env \<Rightarrow> nat \<Rightarrow> nat \<Rightarrow> shield_verdict" where
  "shield_check_headers env header_count header_bytes =
     (if header_count > MAX_HEADER_COUNT env \<or> header_bytes > MAX_HEADER_BYTES env
      then BlockHeaders else ShieldAllow)"

definition check_method :: "case_maps \<Rightarrow> env \<Rightarrow> string \<Rightarrow> shield_verdict" where
  "check_method cm env mth =
     (if upper_str cm mth \<notin> set (ALLOWED_METHODS cm env) then BlockMethod else ShieldAllow)"

definition check_uri_length :: "env \<Rightarrow> string \<Rightarrow> shield_verdict" where
  "check_uri_length env uri = (if length uri > MAX_URI_LENGTH env then BlockUriLength else ShieldAllow)"

definition max_body_size :: "env \<Rightarrow> nat" where
  "max_body_size env = MAX_BODY_SIZE env"

definition body_would_exceed :: "env \<Rightarrow> nat \<Rightarrow> nat \<Rightarrow> bool" where
  "body_would_exceed env current_len chunk_len \<longleftrightarrow> min (current_len + chunk_len) usize_max > MAX_BODY_SIZE env"

definition check_body_size :: "env \<Rightarrow> nat \<Rightarrow> shield_verdict" where
  "check_body_size env n = (if n > MAX_BODY_SIZE env then BlockBodySize else ShieldAllow)"

definition check_host :: "case_maps \<Rightarrow> env \<Rightarrow> string \<Rightarrow> shield_verdict" where
  "check_host cm env host_header =
     (case ALLOWED_HOSTS cm env of
        Some allowed \<Rightarrow>
          (if lower_str cm (first_piece CHR '':'' host_header) \<notin> set allowed then BlockHost else ShieldAllow)
      | None \<Rightarrow> ShieldAllow)"

section \<open>Connection tokens\<close>

definition is_http_token :: "string \<Rightarrow> bool" where
  "is_http_token s \<longleftrightarrow> s \<noteq> [] \<and> list_all (\<lambda>b. is_ascii_alphanumeric b \<or> b \<in> set token_punctuation) s"

definition connection_hop_by_hop_names :: "string list \<Rightarrow> string list" where
  "connection_hop_by_hop_names vals =
     concat (map (\<lambda>v. filter is_http_token (map trim (split_on CHR '','' v))) vals)"

section \<open>Host and authority\<close>

definition split_host_port :: "string \<Rightarrow> (string \<times> string option) option" where
  "split_host_port given =
     (let v = (case rsplit_once CHR ''@'' given of Some (_, rest) \<Rightarrow> rest | None \<Rightarrow> given)
      in case strip_prefix v ''['' of
           Some rest \<Rightarrow>
             Option.bind (split_once CHR '']'' rest) (\<lambda>(host, after).
               if host = [] then None
               else if after = [] then Some (host, None)
               else Option.bind (strip_prefix after '':'') (\<lambda>port. Some (host, Some port)))
         | None \<Rightarrow>
             (case rsplit_once CHR '':'' v of
                Some (host, port) \<Rightarrow>
                  (if host \<noteq> [] \<and> port \<noteq> [] \<and> list_all is_ascii_digit port then Some (host, Some port)
                   else if v \<noteq> [] then Some (v, None) else None)
              | None \<Rightarrow> (if v \<noteq> [] then Some (v, None) else None)))"

definition authorities_match :: "string \<Rightarrow> string \<Rightarrow> bool" where
  "authorities_match host_header uri_authority =
     (case split_host_port host_header of
        None \<Rightarrow> False
      | Some (host_a, port_a) \<Rightarrow>
          (case split_host_port uri_authority of
             None \<Rightarrow> False
           | Some (host_b, port_b) \<Rightarrow>
               eq_ignore_ascii_case host_a host_b \<and>
               (case (port_a, port_b) of (Some left, Some right) \<Rightarrow> left = right | _ \<Rightarrow> True)))"

definition check_host_authority :: "string option \<Rightarrow> string option \<Rightarrow> shield_verdict" where
  "check_host_authority host_header uri_authority =
     (case (opt_filter (\<lambda>v. v \<noteq> []) (map_option trim host_header),
            opt_filter (\<lambda>v. v \<noteq> []) (map_option trim uri_authority)) of
        (Some host, Some authority) \<Rightarrow> (if authorities_match host authority then ShieldAllow else BlockHost)
      | _ \<Rightarrow> ShieldAllow)"

section \<open>User agents\<close>

definition BAD_BOT_SIGNATURES :: "string list" where
  "BAD_BOT_SIGNATURES =
     [''nikto'', ''sqlmap'', ''nessus'', ''openvas'', ''nmap'', ''dirbuster'', ''gobuster'', ''wfuzz'', ''ffuf'',
      ''hydra'', ''metasploit'', ''masscan'', ''zmeu'', ''w3af'', ''nuclei'', ''whatweb'', ''skipfish'', ''arachni'']"

definition ua_is_weak :: "string \<Rightarrow> bool" where
  "ua_is_weak ua = (let ua_lower = to_ascii_lowercase ua in list_ex (str_contains ua_lower) BAD_BOT_SIGNATURES)"

primrec signature_loop :: "string \<Rightarrow> string list \<Rightarrow> shield_verdict" where
  "signature_loop ua_lower [] = ShieldAllow"
| "signature_loop ua_lower (sig # sigs) =
     (if str_contains ua_lower sig then BlockBadBot else signature_loop ua_lower sigs)"

definition check_user_agent :: "env \<Rightarrow> string \<Rightarrow> shield_verdict" where
  "check_user_agent env ua =
     (if \<not> BAD_BOT_ENABLED env then ShieldAllow
      else signature_loop (to_ascii_lowercase ua) BAD_BOT_SIGNATURES)"

section \<open>Framing\<close>

definition check_smuggling :: "bool \<Rightarrow> nat \<Rightarrow> nat \<Rightarrow> string option \<Rightarrow> shield_verdict" where
  "check_smuggling has_content_length content_length_count transfer_encoding_count transfer_encoding =
     (if content_length_count > 1 then BlockSmuggling
      else if transfer_encoding_count > 1 then BlockSmuggling
      else if has_content_length \<and> transfer_encoding_count > 0 then BlockSmuggling
      else case transfer_encoding of
          Some te \<Rightarrow>
            (if has_content_length then BlockSmuggling
             else let te_lower = to_ascii_lowercase (trim te)
                  in if te_lower \<noteq> ''chunked'' \<and> te_lower \<noteq> ''identity'' then BlockSmuggling else ShieldAllow)
        | None \<Rightarrow> ShieldAllow)"

text \<open>The lines of the raw header block behind the request line, up to the empty line.\<close>

primrec framing_lines :: "string list \<Rightarrow> nat \<Rightarrow> nat \<Rightarrow> nat \<times> nat" where
  "framing_lines [] cl te = (cl, te)"
| "framing_lines (l # ls) cl te =
     (let line = chop_cr l
      in if line = [] then (cl, te)
         else case find_char CHR '':'' line of
             None \<Rightarrow> framing_lines ls cl te
           | Some colon \<Rightarrow>
               (let name = take colon line
                in if eq_ignore_ascii_case name ''content-length'' then framing_lines ls (cl + 1) te
                   else if eq_ignore_ascii_case name ''transfer-encoding'' then framing_lines ls cl (te + 1)
                   else framing_lines ls cl te))"

definition raw_framing_header_counts :: "string \<Rightarrow> nat \<times> nat" where
  "raw_framing_header_counts raw_headers = framing_lines (drop 1 (split_on (CHR 0x0A) raw_headers)) 0 0"

section \<open>The raw header block\<close>

text \<open>A request head as it goes over the wire, with what follows it on the connection.\<close>

definition render_head :: "string \<Rightarrow> headers \<Rightarrow> string \<Rightarrow> string" where
  "render_head request_line hs rest =
     (let crlf = [CHR 0x0D, CHR 0x0A]
      in request_line @ crlf @ concat (map (\<lambda>(n, v). n @ CHR '':'' # v @ crlf) hs) @ crlf @ rest)"

definition renderable :: "string \<times> string \<Rightarrow> bool" where
  "renderable h \<longleftrightarrow> CHR 0x0A \<notin> set (fst h) \<and> CHR 0x0A \<notin> set (snd h) \<and> CHR '':'' \<notin> set (fst h)"

lemma chop_cr_append [simp]: "chop_cr (s @ [CHR 0x0D]) = s"
proof -
  have "strip_suffix (s @ [CHR 0x0D]) [CHR 0x0D] = Some s" by (simp only: strip_suffix_eq_Some)
  then show ?thesis by (simp only: chop_cr_def option.case)
qed

lemma find_char_append: "c \<notin> set n \<Longrightarrow> find_char c (n @ c # v) = Some (length n)"
  by (induction n) auto

lemma framing_lines_header:
  assumes "CHR '':'' \<notin> set n"
  shows "framing_lines ((n @ CHR '':'' # v @ [CHR 0x0D]) # ls) cl te =
    framing_lines ls (if eq_ignore_ascii_case n ''content-length'' then cl + 1 else cl)
      (if eq_ignore_ascii_case n ''content-length'' then te
       else if eq_ignore_ascii_case n ''transfer-encoding'' then te + 1 else te)"
proof -
  have "chop_cr (n @ CHR '':'' # v @ [CHR 0x0D]) = n @ CHR '':'' # v"
    using chop_cr_append [of "n @ CHR '':'' # v"] by simp
  moreover have "find_char CHR '':'' (n @ CHR '':'' # v) = Some (length n)"
    using assms by (simp add: find_char_append)
  ultimately show ?thesis by (simp add: Let_def)
qed

lemma different_framing_names: "\<not> eq_ignore_ascii_case ''content-length'' ''transfer-encoding''"
  by (simp add: eq_ignore_ascii_case_def to_ascii_lowercase_def ascii_lower_def)

lemma split_head_lines:
  assumes "\<forall>h \<in> set hs. renderable h"
  shows "split_on (CHR 0x0A) (concat (map (\<lambda>(n, v). n @ CHR '':'' # v @ [CHR 0x0D, CHR 0x0A]) hs) @ tail) =
    map (\<lambda>(n, v). n @ CHR '':'' # v @ [CHR 0x0D]) hs @ split_on (CHR 0x0A) tail"
  using assms
proof (induction hs)
  case (Cons h hs)
  obtain n v where h: "h = (n, v)" by force
  from Cons.prems h have "CHR 0x0A \<notin> set (n @ CHR '':'' # v @ [CHR 0x0D])"
    by (simp add: renderable_def)
  then have "split_on (CHR 0x0A) ((n @ CHR '':'' # v @ [CHR 0x0D]) @ CHR 0x0A # r) =
      (n @ CHR '':'' # v @ [CHR 0x0D]) # split_on (CHR 0x0A) r" for r
    by (subst split_on_append) (simp add: split_on_no_sep)
  with Cons h show ?case by simp
qed simp

lemma framing_lines_counts:
  assumes "\<forall>h \<in> set hs. renderable h"
  shows "framing_lines (map (\<lambda>(n, v). n @ CHR '':'' # v @ [CHR 0x0D]) hs @ [CHR 0x0D] # ls) cl te =
    (cl + length (hm_get_all hs ''content-length''), te + length (hm_get_all hs ''transfer-encoding''))"
  using assms
proof (induction hs arbitrary: cl te)
  case Nil
  have "chop_cr [CHR 0x0D] = []" using chop_cr_append [of "[]"] by simp
  then show ?case by (simp add: hm_get_all_def)
next
  case (Cons h hs)
  obtain n v where h: "h = (n, v)" by force
  have "\<not> (eq_ignore_ascii_case n ''content-length'' \<and> eq_ignore_ascii_case n ''transfer-encoding'')"
    using different_framing_names by (auto simp: eq_ignore_ascii_case_def)
  with Cons h show ?case
    by (auto simp del: framing_lines.simps simp: framing_lines_header renderable_def hm_get_all_def)
qed

lemma raw_counts_exact:
  assumes "CHR 0x0A \<notin> set request_line" and "\<forall>h \<in> set hs. renderable h"
  shows "raw_framing_header_counts (render_head request_line hs rest) =
    (length (hm_get_all hs ''content-length''), length (hm_get_all hs ''transfer-encoding''))"
proof -
  let ?lines = "map (\<lambda>(n, v). n @ CHR '':'' # v @ [CHR 0x0D]) hs"
  let ?body = "concat (map (\<lambda>(n, v). n @ CHR '':'' # v @ [CHR 0x0D, CHR 0x0A]) hs) @ [CHR 0x0D, CHR 0x0A] @ rest"
  have "split_on (CHR 0x0A) ((request_line @ [CHR 0x0D]) @ CHR 0x0A # ?body) =
      (request_line @ [CHR 0x0D]) # split_on (CHR 0x0A) ?body"
    using assms(1) by (subst split_on_append) (simp add: split_on_no_sep)
  moreover have "split_on (CHR 0x0A) ?body = ?lines @ [CHR 0x0D] # split_on (CHR 0x0A) rest"
    using split_on_append [of "CHR 0x0A" "[CHR 0x0D]" rest]
    by (subst split_head_lines [OF assms(2)]) (simp add: split_on_no_sep)
  ultimately show ?thesis
    using framing_lines_counts [OF assms(2)]
    by (simp add: raw_framing_header_counts_def render_head_def Let_def)
qed

text \<open>C11. On every well-formed request head, whatever follows it on the connection, a request
  passes the framing check exactly when the head carries at most one framing header in any
  spelling of its name, and a transfer coding the proxy sees is \<open>chunked\<close> or \<open>identity\<close> with no
  length beside it.\<close>

theorem framing_unambiguous:
  assumes "CHR 0x0A \<notin> set request_line" and "\<forall>h \<in> set hs. renderable h"
    and "raw_framing_header_counts (render_head request_line hs rest) = (cl, te)"
  shows "check_smuggling (cl > 0) cl te coding = ShieldAllow \<longleftrightarrow>
    length (hm_get_all hs ''content-length'') + length (hm_get_all hs ''transfer-encoding'') \<le> 1 \<and>
    (case coding of None \<Rightarrow> True
     | Some t \<Rightarrow> hm_get_all hs ''content-length'' = [] \<and>
         to_ascii_lowercase (trim t) \<in> {''chunked'', ''identity''})"
proof -
  have n: "length (hm_get_all hs ''content-length'') = cl" "length (hm_get_all hs ''transfer-encoding'') = te"
    using assms raw_counts_exact [OF assms(1,2)] by simp_all
  then have "hm_get_all hs ''content-length'' = [] \<longleftrightarrow> cl = 0" by auto
  with n show ?thesis
    by (cases coding) (auto simp: check_smuggling_def Let_def)
qed

theorem framing_unambiguous_witness:
  "check_smuggling True 1 1 None \<noteq> ShieldAllow \<and>
   raw_framing_header_counts (render_head ''POST / HTTP/1.1''
     [(''Content-Length'', '' 4''), (''TRANSFER-encoding'', ''x'')] ''Content-Length: 9'') = (1, 1)"
proof -
  let ?hs = "[(''Content-Length'', '' 4''), (''TRANSFER-encoding'', ''x'')]"
  have lf: "CHR 0x0A \<notin> set ''POST / HTTP/1.1''" and hs: "\<forall>h \<in> set ?hs. renderable h"
    by (simp_all add: renderable_def)
  have n: "hm_get_all ?hs ''content-length'' = ['' 4'']" "hm_get_all ?hs ''transfer-encoding'' = [''x'']"
    by code_simp+
  then have raw: "raw_framing_header_counts (render_head ''POST / HTTP/1.1'' ?hs ''Content-Length: 9'') = (1, 1)"
    using raw_counts_exact [OF lf hs] by simp
  with framing_unambiguous [OF lf hs raw, of None] n show ?thesis by simp
qed

section \<open>Host checks\<close>

definition ascii_case_maps :: case_maps where
  "ascii_case_maps = \<lparr>lower_str = to_ascii_lowercase, upper_str = map ascii_upper\<rparr>"

lemma ascii_case_maps_ok: "case_maps_ok ascii_case_maps"
  by (simp add: case_maps_ok_def ascii_case_maps_def)

lemma authorities_match_sym: "authorities_match a b \<longleftrightarrow> authorities_match b a"
  by (auto simp: authorities_match_def eq_ignore_ascii_case_def split: option.splits)

text \<open>
  The two host checks read a value with user information differently: the allowlist looks at what
  stands in front of the first colon, the comparison at what follows the last \<open>@\<close>. A request for
  \<open>evil\<close> can carry a \<open>Host\<close> that the allowlist takes for \<open>good\<close>.
\<close>

lemma host_checks_disagree:
  fixes env :: env
  assumes "env ''ALLOWED_HOSTS'' = Some ''good''"
  shows "check_host ascii_case_maps env ''good:1@evil'' = ShieldAllow \<and>
    check_host ascii_case_maps env ''evil'' = BlockHost \<and>
    check_host_authority (Some ''good:1@evil'') (Some ''evil'') = ShieldAllow"
proof -
  have "comma_list to_ascii_lowercase ''good'' = [''good'']"
    and "to_ascii_lowercase (first_piece CHR '':'' ''good:1@evil'') = ''good''"
    and "to_ascii_lowercase (first_piece CHR '':'' ''evil'') = ''evil''"
    and "check_host_authority (Some ''good:1@evil'') (Some ''evil'') = ShieldAllow"
    by code_simp+
  with assms show ?thesis
    by (simp add: check_host_def ALLOWED_HOSTS_def ascii_case_maps_def)
qed

text \<open>The allowlist knows no bracketed address: a literal IPv6 host is cut at its first colon.\<close>

lemma ipv6_host_cut: "first_piece CHR '':'' ''[2001:db8::1]'' = ''[2001''"
  by code_simp

lemma signature_loop_Allow:
  "signature_loop ua sigs = ShieldAllow \<longleftrightarrow> \<not> list_ex (str_contains ua) sigs"
  by (induction sigs) auto

lemma check_user_agent_Allow:
  "check_user_agent env ua = ShieldAllow \<longleftrightarrow> \<not> (BAD_BOT_ENABLED env \<and> ua_is_weak ua)"
  by (simp add: check_user_agent_def ua_is_weak_def signature_loop_Allow Let_def)

lemma max_body_replayable: "max_body_size env \<le> MAX_REPLAYABLE_BODY"
  by (simp add: max_body_size_def MAX_BODY_SIZE_def)

end
