(* ===== verification/Upstream_Headers.thy ===== *)
theory Upstream_Headers
  imports Shield
begin

text \<open>
  The headers the proxy sends to the origin, \<open>src/src/proxy.rs\<close>: the origin secret and its
  configuration, the removal of hop-by-hop and forwarding headers, and the stamp of the upstream
  request. \<open>None\<close> is the panic of an \<open>unwrap\<close> on a header the library refuses.
\<close>

section \<open>The origin secret\<close>

record origin_secret_config =
  secret_header :: string
  secret_value :: "string option"

datatype secret_error = InvalidSecret | InvalidSecretHeader

definition is_reserved_upstream_header :: "string \<Rightarrow> bool" where
  "is_reserved_upstream_header name =
     list_ex (eq_ignore_ascii_case name)
       [''host'', ''connection'', ''keep-alive'', ''proxy-connection'', ''transfer-encoding'', ''te'', ''trailer'',
        ''upgrade'', ''x-real-ip'', ''x-forwarded-for'', ''x-forwarded-proto'']"

definition is_secret_token :: "string \<Rightarrow> bool" where
  "is_secret_token name \<longleftrightarrow> name \<noteq> [] \<and> length name \<le> 256 \<and> list_all token_char name"

definition is_safe_header_value :: "string \<Rightarrow> bool" where
  "is_safe_header_value v \<longleftrightarrow> v \<noteq> [] \<and> length v \<le> 4096 \<and>
     list_all (\<lambda>b. byte_of b = 9 \<or> 0x20 \<le> byte_of b \<and> byte_of b \<le> 0x7e) v"

definition nonempty_trim :: "string option \<Rightarrow> string option" where
  "nonempty_trim s = opt_filter (\<lambda>v. v \<noteq> []) (map_option trim s)"

definition parse_origin_secret ::
    "string option \<Rightarrow> string option \<Rightarrow> (secret_error, origin_secret_config) result" where
  "parse_origin_secret header secret =
     (let v = nonempty_trim secret
      in if (case v of Some raw \<Rightarrow> \<not> is_safe_header_value raw | None \<Rightarrow> False) then Err InvalidSecret
         else case nonempty_trim header of
             None \<Rightarrow> Ok \<lparr>secret_header = ''X-Ferroada-Origin'', secret_value = v\<rparr>
           | Some name \<Rightarrow>
               (if \<not> is_secret_token name \<or> is_reserved_upstream_header name then Err InvalidSecretHeader
                else Ok \<lparr>secret_header = name, secret_value = v\<rparr>))"

definition origin_secret_from_env :: "env \<Rightarrow> origin_secret_config option" where
  "origin_secret_from_env env =
     (case parse_origin_secret (env ''ORIGIN_SECRET_HEADER'') (env ''ORIGIN_SECRET'') of
        Ok cfg \<Rightarrow> Some cfg | Err e \<Rightarrow> None)"



section \<open>Removing headers\<close>

definition remove_all_headers :: "headers \<Rightarrow> string list \<Rightarrow> headers" where
  "remove_all_headers = foldl remove_header"

definition connection_names :: "headers \<Rightarrow> string list" where
  "connection_names request =
     connection_hop_by_hop_names (List.map_filter value_to_str (hm_get_all request ''Connection''))"

definition strip_hop_by_hop_headers :: "headers \<Rightarrow> headers" where
  "strip_hop_by_hop_headers request =
     remove_header (remove_all_headers request (connection_names request)) ''Connection''"



section \<open>The stamp\<close>





section \<open>What the parts do to the values of a name\<close>

definition among :: "string \<Rightarrow> string list \<Rightarrow> bool" where
  "among n names = list_ex (eq_ignore_ascii_case n) names"

lemma among_simps [simp]:
  "among n [] = False"
  "among n (m # ms) \<longleftrightarrow> eq_ignore_ascii_case n m \<or> among n ms"
  by (simp_all add: among_def)

lemma get_remove_all [simp]:
  "hm_get_all (remove_all_headers hs ms) n = (if among n ms then [] else hm_get_all hs n)"
proof (induction ms arbitrary: hs)
  case (Cons m ms)
  then show ?case
    by (auto simp: remove_all_headers_def eq_ignore_ascii_case_sym)
qed (simp add: remove_all_headers_def)





section \<open>The stamped request\<close>







lemma among_append [simp]: "among n (xs @ ys) \<longleftrightarrow> among n xs \<or> among n ys"
  by (simp add: among_def)

lemma among_cong: "eq_ignore_ascii_case n m \<Longrightarrow> among n xs \<longleftrightarrow> among m xs"
  by (induction xs) (auto simp: eq_ignore_ascii_case_def)









text \<open>
  \<open>Connection\<close> may name any header, the framing ones included: the request to the origin then goes
  out without the length its body was checked against.
\<close>

lemma connection_removes_framing:
  "hm_get_all (strip_hop_by_hop_headers [(''Connection'', ''Content-Length''), (''Content-Length'', ''5'')])
     ''Content-Length'' = []"
  by code_simp

end
