(* ===== verification/Waf_L1.thy ===== *)
theory Waf_L1
  imports Route_Path Json_Value
begin

text \<open>
  The policy of the rule engine, \<open>src/src/waf_l1.rs\<close>: settings and their overlay, exclusions, the
  resolution of the policy of one request, and the removal of excluded parameters. \<open>None\<close> is a
  panic. The JSON library is a parameter.
\<close>

section \<open>Settings\<close>

definition DEFAULT_ANOMALY_THRESHOLD :: nat where
  "DEFAULT_ANOMALY_THRESHOLD = 5"

definition MIN_PARANOIA :: nat where
  "MIN_PARANOIA = 1"

definition MAX_PARANOIA :: nat where
  "MAX_PARANOIA = 4"

record l1_settings =
  blocking_paranoia :: nat
  executing_paranoia :: nat
  shadow :: bool
  anomaly_score_threshold :: nat
  exclude :: bool

record l1_exclusion_file =
  excl_file_prefix :: "string option"
  excl_file_parameters :: "string list"
  excl_file_content_types :: "string list"

record l1_file =
  l1_blocking :: "nat option"
  l1_executing :: "nat option"
  l1_shadow :: "bool option"
  l1_threshold :: "nat option"
  l1_exclude :: "bool option"
  l1_exclusions :: "l1_exclusion_file list"

definition l1_file_default :: l1_file where
  "l1_file_default = \<lparr>l1_blocking = None, l1_executing = None, l1_shadow = None, l1_threshold = None, l1_exclude = None,
     l1_exclusions = []\<rparr>"

definition default_crs :: l1_settings where
  "default_crs = \<lparr>blocking_paranoia = 1, executing_paranoia = 1, shadow = False,
     anomaly_score_threshold = DEFAULT_ANOMALY_THRESHOLD, exclude = False\<rparr>"

definition l1_overlay :: "l1_settings \<Rightarrow> l1_file \<Rightarrow> l1_settings" where
  "l1_overlay s patch =
     (let blocking = unwrap_or (l1_blocking patch) (blocking_paranoia s);
          executing = unwrap_or (l1_executing patch) (max (executing_paranoia s) blocking)
      in \<lparr>blocking_paranoia = blocking, executing_paranoia = executing,
          shadow = unwrap_or (l1_shadow patch) (shadow s),
          anomaly_score_threshold = unwrap_or (l1_threshold patch) (anomaly_score_threshold s),
          exclude = unwrap_or (l1_exclude patch) (exclude s)\<rparr>)"

definition validate_paranoia :: "nat \<Rightarrow> bool" where
  "validate_paranoia v \<longleftrightarrow> MIN_PARANOIA \<le> v \<and> v \<le> MAX_PARANOIA"

definition l1_validated :: "l1_settings \<Rightarrow> l1_settings option" where
  "l1_validated s =
     (if \<not> validate_paranoia (blocking_paranoia s) then None
      else if \<not> validate_paranoia (executing_paranoia s) then None
      else if executing_paranoia s < blocking_paranoia s then None
      else if anomaly_score_threshold s = 0 \<or> anomaly_score_threshold s > 10000 then None
      else Some s)"

section \<open>Exclusions\<close>

record l1_exclusion =
  excl_prefix :: "string option"
  excl_parameters :: "string list"
  excl_content_types :: "string list"

definition normalize_media_type :: "string \<Rightarrow> string" where
  "normalize_media_type raw = to_ascii_lowercase (trim (first_piece CHR '';'' raw))"

definition exclusion_from_file :: "l1_exclusion_file \<Rightarrow> string option \<Rightarrow> l1_exclusion option" where
  "exclusion_from_file file prefix =
     (let parameters = filter (\<lambda>n. n \<noteq> []) (map trim (excl_file_parameters file));
          content_types = filter (\<lambda>v. v \<noteq> []) (map normalize_media_type (excl_file_content_types file))
      in if prefix = None \<and> parameters = [] \<and> content_types = [] then None
         else Some \<lparr>excl_prefix = prefix, excl_parameters = parameters, excl_content_types = content_types\<rparr>)"

definition skips_engine :: "l1_exclusion \<Rightarrow> bool" where
  "skips_engine e \<longleftrightarrow> excl_parameters e = [] \<and> (excl_prefix e \<noteq> None \<or> excl_content_types e \<noteq> [])"

definition prefix_matches :: "string \<Rightarrow> string \<Rightarrow> bool" where
  "prefix_matches path prefix \<longleftrightarrow>
     path = prefix \<or> prefix = ''/'' \<or>
     (ends_with prefix ''/'' \<and> starts_with path prefix) \<or>
     (case strip_prefix path prefix of Some suffix \<Rightarrow> starts_with suffix ''/'' | None \<Rightarrow> False)"

definition exclusion_matches :: "l1_exclusion \<Rightarrow> string option \<Rightarrow> string option \<Rightarrow> bool" where
  "exclusion_matches e path media \<longleftrightarrow>
     (case excl_prefix e of
        None \<Rightarrow> True
      | Some prefix \<Rightarrow> (case path of None \<Rightarrow> False | Some p \<Rightarrow> prefix_matches p prefix)) \<and>
     (excl_content_types e = [] \<or> (case media of None \<Rightarrow> False | Some m \<Rightarrow> m \<in> set (excl_content_types e)))"

section \<open>The policy of a request\<close>

record l1_request_policy =
  l1_skip :: bool
  l1_settings_of :: l1_settings
  exclude_parameters :: "string list"

primrec overlay_matching :: "l1_settings \<Rightarrow> (string \<times> l1_file) list \<Rightarrow> l1_settings option" where
  "overlay_matching s [] = Some s"
| "overlay_matching s (p # ps) = Option.bind (l1_validated (l1_overlay s (snd p))) (\<lambda>s'. overlay_matching s' ps)"

definition push_parameter :: "string list \<Rightarrow> string \<Rightarrow> string list" where
  "push_parameter acc p = (if list_ex (\<lambda>e. eq_ignore_ascii_case e p) acc then acc else acc @ [p])"

primrec exclusion_loop ::
    "string option \<Rightarrow> string option \<Rightarrow> l1_exclusion list \<Rightarrow> bool \<Rightarrow> string list \<Rightarrow> bool \<times> string list" where
  "exclusion_loop path media [] skip params = (skip, params)"
| "exclusion_loop path media (e # es) skip params =
     (if \<not> exclusion_matches e path media then exclusion_loop path media es skip params
      else exclusion_loop path media es (skips_engine e \<or> skip) (foldl push_parameter params (excl_parameters e)))"

definition l1_resolve ::
    "l1_settings \<Rightarrow> (string \<times> l1_file) list \<Rightarrow> l1_exclusion list \<Rightarrow> string option \<Rightarrow> string option \<Rightarrow>
     l1_request_policy option" where
  "l1_resolve settings route_patches exclusions path content_type =
     Option.bind
       (case path of
          Some p \<Rightarrow> overlay_matching settings
                     (sort_key (length \<circ> fst) (filter (\<lambda>r. prefix_matches p (fst r)) route_patches))
        | None \<Rightarrow> Some settings) (\<lambda>s.
     let media = opt_filter (\<lambda>v. v \<noteq> []) (map_option normalize_media_type content_type);
         (skip, params) = exclusion_loop path media exclusions (exclude s) []
     in Some \<lparr>l1_skip = skip, l1_settings_of = s, exclude_parameters = params\<rparr>)"

section \<open>Removing parameters\<close>

definition param_excluded :: "string \<Rightarrow> string list \<Rightarrow> bool" where
  "param_excluded key names = list_ex (\<lambda>n. eq_ignore_ascii_case n key) names"

definition pair_key :: "string \<Rightarrow> string" where
  "pair_key pair = (case split_once CHR ''='' pair of Some (key, _) \<Rightarrow> key | None \<Rightarrow> pair)"

definition kept_pairs :: "string list \<Rightarrow> string \<Rightarrow> string list" where
  "kept_pairs names query = filter (\<lambda>pair. pair \<noteq> [] \<and> \<not> param_excluded (pair_key pair) names) (split_on CHR ''&'' query)"

definition strip_query_params :: "string \<Rightarrow> string list \<Rightarrow> string" where
  "strip_query_params uri names =
     (if names = [] then uri
      else case split_once CHR ''?'' uri of
          None \<Rightarrow> uri
        | Some (path, query) \<Rightarrow>
            (let kept = kept_pairs names query
             in if kept = [] then path else path @ ''?'' @ join_with CHR ''&'' kept))"

definition strip_form_body :: "string \<Rightarrow> string list \<Rightarrow> string" where
  "strip_form_body body names =
     (if \<not> utf8_valid body then body else join_with CHR ''&'' (kept_pairs names body))"

definition strip_json_object_keys ::
    "(string \<Rightarrow> json_value option) \<Rightarrow> (json_value \<Rightarrow> string option) \<Rightarrow> string \<Rightarrow> string list \<Rightarrow> string" where
  "strip_json_object_keys from_slice to_vec body names =
     (case from_slice body of
        Some (Object ms) \<Rightarrow> unwrap_or (to_vec (Object (filter (\<lambda>m. \<not> param_excluded (fst m) names) ms))) body
      | _ \<Rightarrow> body)"

definition strip_excluded_body ::
    "(string \<Rightarrow> json_value option) \<Rightarrow> (json_value \<Rightarrow> string option) \<Rightarrow> string \<Rightarrow> string option \<Rightarrow> string list \<Rightarrow> string" where
  "strip_excluded_body from_slice to_vec body content_type names =
     (if names = [] \<or> body = [] then body
      else let media = normalize_media_type (unwrap_or content_type [])
           in if media = ''application/x-www-form-urlencoded'' then strip_form_body body names
              else if media = ''application/json'' \<or> ends_with media ''+json''
                then strip_json_object_keys from_slice to_vec body names
              else body)"

section \<open>Laws\<close>

lemma prefix_matches_eq: "prefix_matches = path_matches_prefix"
  by (simp add: fun_eq_iff prefix_matches_def path_matches_prefix_def)

definition l1_valid :: "l1_settings \<Rightarrow> bool" where
  "l1_valid s \<longleftrightarrow> 1 \<le> blocking_paranoia s \<and> blocking_paranoia s \<le> executing_paranoia s \<and> executing_paranoia s \<le> 4 \<and>
     1 \<le> anomaly_score_threshold s \<and> anomaly_score_threshold s \<le> 10000"

lemma l1_validated_Some: "l1_validated s = Some t \<longleftrightarrow> t = s \<and> l1_valid s"
  by (auto simp: l1_validated_def l1_valid_def validate_paranoia_def MIN_PARANOIA_def MAX_PARANOIA_def)

lemma default_crs_valid: "l1_valid default_crs"
  by (simp add: default_crs_def l1_valid_def DEFAULT_ANOMALY_THRESHOLD_def)

lemma overlay_matching_valid:
  "overlay_matching s ps = Some t \<Longrightarrow> l1_valid s \<Longrightarrow> l1_valid t"
  by (induction ps arbitrary: s) (auto simp: l1_validated_Some split: Option.bind_splits)

lemma l1_resolve_valid:
  "l1_resolve s ps es path ct = Some p \<Longrightarrow> l1_valid s \<Longrightarrow> l1_valid (l1_settings_of p)"
  by (auto simp: l1_resolve_def Let_def overlay_matching_valid split: Option.bind_splits option.splits prod.splits)

text \<open>
  A patch that leaves the paranoia levels and the threshold alone, or only raises the blocking
  level within its range, can be laid over any valid settings.
\<close>

definition harmless :: "l1_file \<Rightarrow> bool" where
  "harmless f \<longleftrightarrow> l1_executing f = None \<and>
     (case l1_blocking f of None \<Rightarrow> True | Some b \<Rightarrow> 1 \<le> b \<and> b \<le> 4) \<and>
     (case l1_threshold f of None \<Rightarrow> True | Some t \<Rightarrow> 1 \<le> t \<and> t \<le> 10000)"

lemma harmless_overlay: "l1_valid s \<Longrightarrow> harmless f \<Longrightarrow> l1_valid (l1_overlay s f)"
  by (auto simp: l1_valid_def harmless_def l1_overlay_def Let_def split: option.splits)

lemma harmless_never_panics:
  "l1_valid s \<Longrightarrow> \<forall>p \<in> set ps. harmless (snd p) \<Longrightarrow> \<exists>t. overlay_matching s ps = Some t"
proof (induction ps arbitrary: s)
  case (Cons p ps)
  from Cons.prems have "l1_validated (l1_overlay s (snd p)) = Some (l1_overlay s (snd p))"
    by (simp add: l1_validated_Some harmless_overlay)
  with Cons show ?case by (simp add: harmless_overlay)
qed simp

lemma kept_pairs_no_sep: "\<forall>p \<in> set (kept_pairs names q). CHR ''&'' \<notin> set p"
  by (auto simp: kept_pairs_def dest: split_on_pieces)

lemma kept_pairs_join:
  "kept_pairs names (join_with CHR ''&'' (kept_pairs names q)) = kept_pairs names q"
proof (cases "kept_pairs names q = []")
  case True
  then show ?thesis by (simp add: kept_pairs_def)
next
  case False
  then have "split_on CHR ''&'' (join_with CHR ''&'' (kept_pairs names q)) = kept_pairs names q"
    using kept_pairs_no_sep by (intro split_on_join_with)
  then show ?thesis by (simp add: kept_pairs_def)
qed

text \<open>What is left of a query holds exactly the other parameters, in order, and removing the same
  names again changes nothing.\<close>

lemma strip_query_params_exact:
  assumes "split_once CHR ''?'' uri = Some (path, query)" and "names \<noteq> []" and "kept_pairs names query \<noteq> []"
  shows "split_once CHR ''?'' (strip_query_params uri names) = Some (path, join_with CHR ''&'' (kept_pairs names query)) \<and>
    strip_query_params (strip_query_params uri names) names = strip_query_params uri names"
proof -
  let ?rest = "join_with CHR ''&'' (kept_pairs names query)"
  have strip: "strip_query_params uri names = path @ CHR ''?'' # ?rest"
    using assms by (simp add: strip_query_params_def Let_def)
  have "CHR ''?'' \<notin> set path" using assms(1) by (simp add: split_once_Some)
  then have again: "split_once CHR ''?'' (path @ CHR ''?'' # ?rest) = Some (path, ?rest)"
    by (simp add: split_once_Some)
  then have "strip_query_params (path @ CHR ''?'' # ?rest) names = path @ CHR ''?'' # ?rest"
    using assms(2,3) by (simp add: strip_query_params_def kept_pairs_join Let_def)
  with again show ?thesis by (simp only: strip simp_thms)
qed

end
