(* ===== verification/Site_Policy.thy ===== *)
theory Site_Policy
  imports Waf_L1 Authz Graphql_Limits Dlp Waf_Inspection
begin

text \<open>
  The policy of a site by path, \<open>src/src/config.rs\<close>: inspection patches and their overlay, the
  merge of route entries, the checks made while loading, and the lookup of the inspection policy,
  the rule engine policy, the DLP fields and the GraphQL limits of a request. \<open>None\<close> is a panic.
\<close>

section \<open>Inspection policy\<close>

datatype inspection_action = DenyIncomplete | MonitorIncomplete

definition inspection_action_parse :: "string \<Rightarrow> inspection_action option" where
  "inspection_action_parse raw =
     (if trim raw = ''deny'' then Some DenyIncomplete
      else if trim raw = ''monitor'' then Some MonitorIncomplete else None)"

datatype inspection_disposition = DispositionAllow | DispositionMonitor | DispositionDeny

record inspection_rules =
  rules_complete :: bool
  rules_truncated :: inspection_action
  rules_parse_error :: inspection_action
  rules_max_body :: "nat option"

definition fail_closed :: inspection_rules where
  "fail_closed = \<lparr>rules_complete = True, rules_truncated = DenyIncomplete, rules_parse_error = DenyIncomplete,
     rules_max_body = None\<rparr>"

definition open_rules :: inspection_rules where
  "open_rules = \<lparr>rules_complete = False, rules_truncated = MonitorIncomplete, rules_parse_error = MonitorIncomplete,
     rules_max_body = None\<rparr>"


fun disposition_of_action :: "inspection_action \<Rightarrow> inspection_disposition" where
  "disposition_of_action DenyIncomplete = DispositionDeny"
| "disposition_of_action MonitorIncomplete = DispositionMonitor"

fun disposition :: "inspection_rules \<Rightarrow> inspection_outcome \<Rightarrow> inspection_disposition" where
  "disposition p Complete = DispositionAllow"
| "disposition p (Truncated _ _) = disposition_of_action (rules_truncated p)"
| "disposition p inspection_outcome.ParseError = disposition_of_action (rules_parse_error p)"
| "disposition p UnsupportedEncoding = (if rules_complete p then DispositionDeny else DispositionMonitor)"
| "disposition p UnsupportedContentType = (if rules_complete p then DispositionDeny else DispositionMonitor)"
| "disposition p BudgetExceeded = DispositionDeny"
| "disposition p TimedOut = (if rules_complete p then DispositionDeny else DispositionMonitor)"

section \<open>Patches\<close>

record inspection_patch =
  patch_complete :: "bool option"
  patch_truncated :: "string option"
  patch_parse_error :: "string option"
  patch_max_body :: "string option"

definition fail_closed_patch :: inspection_patch where
  "fail_closed_patch = \<lparr>patch_complete = Some True, patch_truncated = Some ''deny'', patch_parse_error = Some ''deny'',
     patch_max_body = None\<rparr>"

definition merge_patches :: "inspection_patch \<Rightarrow> inspection_patch \<Rightarrow> inspection_patch" where
  "merge_patches base overlay =
     \<lparr>patch_complete = opt_or (patch_complete overlay) (patch_complete base),
      patch_truncated = opt_or (patch_truncated overlay) (patch_truncated base),
      patch_parse_error = opt_or (patch_parse_error overlay) (patch_parse_error base),
      patch_max_body = opt_or (patch_max_body overlay) (patch_max_body base)\<rparr>"

definition patch_denies_incomplete :: "inspection_patch \<Rightarrow> bool" where
  "patch_denies_incomplete p \<longleftrightarrow>
     patch_complete p = Some True \<or>
     (case patch_truncated p of Some v \<Rightarrow> trim v = ''deny'' | None \<Rightarrow> False) \<or>
     (case patch_parse_error p of Some v \<Rightarrow> trim v = ''deny'' | None \<Rightarrow> False)"

definition patched_action :: "string option \<Rightarrow> inspection_action \<Rightarrow> inspection_action option" where
  "patched_action raw d = (case raw of Some r \<Rightarrow> inspection_action_parse r | None \<Rightarrow> Some d)"

definition patched_body :: "string option \<Rightarrow> nat option \<Rightarrow> nat option option" where
  "patched_body raw base =
     (case raw of
        Some r \<Rightarrow> (case parse_byte_size r of Ok n \<Rightarrow> Some (Some n) | Err e \<Rightarrow> None)
      | None \<Rightarrow> Some base)"

definition overlay_inspection_policy :: "inspection_rules \<Rightarrow> inspection_patch \<Rightarrow> inspection_rules option" where
  "overlay_inspection_policy base patch =
     (let complete = unwrap_or (patch_complete patch) (rules_complete base);
          derived = (if complete then DenyIncomplete else MonitorIncomplete)
      in Option.bind (patched_action (patch_truncated patch)
           (if patch_complete patch \<noteq> None then derived else rules_truncated base)) (\<lambda>t.
         Option.bind (patched_action (patch_parse_error patch)
           (if patch_complete patch \<noteq> None then derived else rules_parse_error base)) (\<lambda>e.
         Option.bind (patched_body (patch_max_body patch) (rules_max_body base)) (\<lambda>b.
         Some \<lparr>rules_complete = complete, rules_truncated = t, rules_parse_error = e, rules_max_body = b\<rparr>))))"

primrec overlay_patches :: "inspection_rules \<Rightarrow> inspection_patch list \<Rightarrow> inspection_rules option" where
  "overlay_patches p [] = Some p"
| "overlay_patches p (q # qs) = Option.bind (overlay_inspection_policy p q) (\<lambda>p'. overlay_patches p' qs)"

section \<open>Routes\<close>

record route = authz_route +
  route_patch :: inspection_patch
  route_l1 :: l1_file
  route_graphql :: "graphql_policy option"
  route_dlp :: "dlp_field list"

definition matching_routes :: "(route \<Rightarrow> bool) \<Rightarrow> route list \<Rightarrow> string \<Rightarrow> route list" where
  "matching_routes relevant routes path =
     sort_key (length \<circ> route_prefix) (filter (\<lambda>r. relevant r \<and> path_matches_prefix path (route_prefix r)) routes)"

definition request_path :: "string \<Rightarrow> string option" where
  "request_path uri = canonical_route_path (first_piece CHR ''?'' uri)"

definition inspection_policy :: "route list \<Rightarrow> string \<Rightarrow> inspection_rules option" where
  "inspection_policy routes uri =
     (case request_path uri of
        None \<Rightarrow> Some (if list_ex (\<lambda>r. patch_denies_incomplete (route_patch r)) routes then fail_closed else open_rules)
      | Some path \<Rightarrow> overlay_patches open_rules (map route_patch (matching_routes (\<lambda>_. True) routes path)))"

definition requires_complete_waf_inspection :: "route list \<Rightarrow> string \<Rightarrow> bool option" where
  "requires_complete_waf_inspection routes uri = map_option rules_complete (inspection_policy routes uri)"

record site_l1 =
  l1_site_settings :: l1_settings
  l1_site_exclusions :: "l1_exclusion list"

definition l1_for :: "site_l1 \<Rightarrow> route list \<Rightarrow> string \<Rightarrow> string option \<Rightarrow> l1_request_policy option" where
  "l1_for s routes uri ct =
     l1_resolve (l1_site_settings s) (map (\<lambda>r. (route_prefix r, route_l1 r)) routes) (l1_site_exclusions s)
       (request_path uri) ct"

definition dlp_fields_for :: "dlp_field list \<Rightarrow> route list \<Rightarrow> string \<Rightarrow> dlp_field list" where
  "dlp_fields_for site_fields routes uri =
     (case request_path uri of
        None \<Rightarrow> site_fields
      | Some path \<Rightarrow> site_fields @ concat (map route_dlp (matching_routes (\<lambda>r. route_dlp r \<noteq> []) routes path)))"

fun overlay_graphql :: "graphql_policy option \<Rightarrow> graphql_policy option \<Rightarrow> graphql_policy option" where
  "overlay_graphql pol None = pol"
| "overlay_graphql (Some base) (Some over) = Some (graphql_overlay base over)"
| "overlay_graphql None (Some over) = Some over"

definition graphql_for :: "graphql_policy option \<Rightarrow> route list \<Rightarrow> string \<Rightarrow> graphql_policy option" where
  "graphql_for site_policy routes uri =
     (case request_path uri of
        None \<Rightarrow> site_policy
      | Some path \<Rightarrow>
          foldl overlay_graphql site_policy
            (map route_graphql (matching_routes (\<lambda>r. route_graphql r \<noteq> None) routes path)))"

section \<open>Loading routes\<close>

record authorization_file =
  az_socket :: string
  az_action :: string
  az_resource :: string
  az_fail_mode :: string
  az_timeout_ms :: "nat option"

record route_entry =
  entry_prefix :: string
  entry_patch :: inspection_patch
  entry_l1 :: l1_file
  entry_graphql :: "(graphql_file \<times> string list) option"
  entry_dlp :: "(string \<times> string) list"
  entry_authorization :: "authorization_file option"

definition ok_or_panic :: "('e, 'a) result \<Rightarrow> 'a option" where
  "ok_or_panic r = (case r of Ok a \<Rightarrow> Some a | Err e \<Rightarrow> None)"

definition parse_dlp_fields :: "(string \<times> string) list \<Rightarrow> dlp_field list option" where
  "parse_dlp_fields files =
     (if length files > MAX_FIELDS then None
      else ok_or_panic (collect_results (\<lambda>(path, det). dlp_field_parse path det) files))"

definition load_graphql ::
    "(string \<Rightarrow> string option) \<Rightarrow> graphql_file \<times> string list \<Rightarrow> string option \<Rightarrow> graphql_policy option" where
  "load_graphql env file route_prefix_opt =
     Option.bind (ok_or_panic (parse_path_prefixes (snd file))) (\<lambda>paths.
       graphql_from_file env (fst file)
         (if paths = [] then (case route_prefix_opt of Some p \<Rightarrow> [p] | None \<Rightarrow> []) else paths))"

definition load_authz :: "authorization_file \<Rightarrow> bool \<Rightarrow> authz_policy option" where
  "load_authz file has_jwt =
     Option.bind (ok_or_panic (authz_parse (az_socket file) (az_action file) (az_resource file) (az_fail_mode file)
         (az_timeout_ms file)))
       (\<lambda>pol. if \<not> has_jwt then None else Some pol)"

text \<open>A section that is absent loads as absent.\<close>

definition load_section :: "('a \<Rightarrow> 'b option) \<Rightarrow> 'a option \<Rightarrow> 'b option option" where
  "load_section f x = (case x of None \<Rightarrow> Some None | Some a \<Rightarrow> map_option Some (f a))"

definition merge_l1_files :: "l1_file \<Rightarrow> l1_file \<Rightarrow> l1_file" where
  "merge_l1_files base overlay =
     \<lparr>l1_blocking = opt_or (l1_blocking overlay) (l1_blocking base),
      l1_executing = opt_or (l1_executing overlay) (l1_executing base),
      l1_shadow = opt_or (l1_shadow overlay) (l1_shadow base),
      l1_threshold = opt_or (l1_threshold overlay) (l1_threshold base),
      l1_exclude = opt_or (l1_exclude overlay) (l1_exclude base),
      l1_exclusions = (if l1_exclusions overlay = [] then l1_exclusions base else l1_exclusions overlay)\<rparr>"

definition complete_route :: "string \<Rightarrow> route" where
  "complete_route prefix = \<lparr>route_prefix = prefix, route_authz = None, route_patch = fail_closed_patch,
     route_l1 = l1_file_default, route_graphql = None, route_dlp = []\<rparr>"

text \<open>An entry laid over the route of the same prefix; a second authorization block is refused.\<close>

definition merge_route :: "route \<Rightarrow> route \<Rightarrow> route option" where
  "merge_route existing new =
     (if route_authz new \<noteq> None \<and> route_authz existing \<noteq> None then None
      else Some (existing\<lparr>route_patch := merge_patches (route_patch existing) (route_patch new),
        route_l1 := merge_l1_files (route_l1 existing) (route_l1 new),
        route_dlp := route_dlp existing @ route_dlp new,
        route_graphql := overlay_graphql (route_graphql existing) (route_graphql new),
        route_authz := opt_or (route_authz new) (route_authz existing)\<rparr>))"

primrec merge_into :: "route list \<Rightarrow> route \<Rightarrow> route list option" where
  "merge_into [] new = Some [new]"
| "merge_into (r # rs) new =
     (if route_prefix r = route_prefix new then map_option (\<lambda>m. m # rs) (merge_route r new)
      else map_option (\<lambda>ms. r # ms) (merge_into rs new))"

definition entry_route :: "(string \<Rightarrow> string option) \<Rightarrow> bool \<Rightarrow> route_entry \<Rightarrow> route option" where
  "entry_route env has_jwt e =
     Option.bind (ok_or_panic (parse_path_prefixes [entry_prefix e])) (\<lambda>ps.
     case ps of [] \<Rightarrow> None | prefix # _ \<Rightarrow>
       Option.bind (parse_dlp_fields (entry_dlp e)) (\<lambda>fields.
       Option.bind (load_section (\<lambda>f. load_graphql env f (Some prefix)) (entry_graphql e)) (\<lambda>gql.
       Option.bind (load_section (\<lambda>f. load_authz f has_jwt) (entry_authorization e)) (\<lambda>az.
       Some \<lparr>route_prefix = prefix, route_authz = az, route_patch = entry_patch e, route_l1 = entry_l1 e,
         route_graphql = gql, route_dlp = fields\<rparr>))))"

primrec merge_entries ::
    "(string \<Rightarrow> string option) \<Rightarrow> bool \<Rightarrow> route list \<Rightarrow> route_entry list \<Rightarrow> route list option" where
  "merge_entries env has_jwt routes [] = Some routes"
| "merge_entries env has_jwt routes (e # es) =
     Option.bind (entry_route env has_jwt e) (\<lambda>r.
       Option.bind (merge_into routes r) (\<lambda>routes'. merge_entries env has_jwt routes' es))"

definition merge_inspection_routes ::
    "(string \<Rightarrow> string option) \<Rightarrow> string list \<Rightarrow> route_entry list \<Rightarrow> bool \<Rightarrow> route list option" where
  "merge_inspection_routes env complete_prefixes route_entries has_jwt =
     merge_entries env has_jwt (map complete_route complete_prefixes) route_entries"

definition validate_spool_routes :: "route list \<Rightarrow> bool" where
  "validate_spool_routes routes =
     list_all (\<lambda>r. case inspection_policy routes (route_prefix r) of
         None \<Rightarrow> False
       | Some p \<Rightarrow> \<not> (rules_max_body p \<noteq> None \<and> \<not> rules_complete p)) routes"

definition validate_l1_routes :: "site_l1 \<Rightarrow> route list \<Rightarrow> bool" where
  "validate_l1_routes s routes \<longleftrightarrow>
     l1_validated (l1_site_settings s) \<noteq> None \<and>
     list_all (\<lambda>r. l1_validated (l1_overlay (l1_site_settings s) (route_l1 r)) \<noteq> None \<and> l1_exclusions (route_l1 r) = [])
       routes"

definition parse_l1_exclusions :: "l1_exclusion_file list \<Rightarrow> l1_exclusion list option" where
  "parse_l1_exclusions files =
     ok_or_panic (collect_results (\<lambda>file.
       case load_section (\<lambda>raw. Option.bind (ok_or_panic (parse_path_prefixes [raw]))
           (\<lambda>ps. case ps of [] \<Rightarrow> None | p # _ \<Rightarrow> Some p)) (excl_file_prefix file) of
         None \<Rightarrow> Err ()
       | Some prefix \<Rightarrow> (case exclusion_from_file file prefix of Some e \<Rightarrow> Ok e | None \<Rightarrow> Err ())) files)"

definition merge_l1_exclusions :: "l1_exclusion list \<Rightarrow> l1_exclusion list \<Rightarrow> l1_exclusion list" where
  "merge_l1_exclusions base overlay = base @ overlay"

section \<open>Prefixes in canonical form\<close>







section \<open>Loaded routes\<close>


lemma ok_or_panic_Some [simp]: "ok_or_panic r = Some a \<longleftrightarrow> r = Ok a"
  by (cases r) (auto simp: ok_or_panic_def)









section \<open>What loading guarantees\<close>


definition spool_entry :: route_entry where
  "spool_entry = \<lparr>entry_prefix = ''/up'', entry_patch = \<lparr>patch_complete = None, patch_truncated = None,
     patch_parse_error = Some ''monitor'', patch_max_body = Some ''2''\<rparr>, entry_l1 = l1_file_default, entry_graphql = None,
     entry_dlp = [], entry_authorization = None\<rparr>"




text \<open>
  The check of a route asks for the policy of its own prefix as if the prefix were a request. A
  prefix with an encoded question mark is cut there, so its patch is never looked at: a value the
  parser refuses loads, and the requests of that route panic.
\<close>

definition question_entry :: route_entry where
  "question_entry = spool_entry\<lparr>entry_prefix := ''/a%3Fb'', entry_patch := \<lparr>patch_complete = None,
     patch_truncated = Some ''x'', patch_parse_error = None, patch_max_body = None\<rparr>\<rparr>"

lemma encoded_question_mark_unchecked:
  "\<exists>routes. merge_inspection_routes (\<lambda>_. None) [] [question_entry] False = Some routes \<and>
     validate_spool_routes routes \<and> inspection_policy routes ''/a%3Fb'' = None"
  by (rule exI [of _ "the (merge_inspection_routes (\<lambda>_. None) [] [question_entry] False)"]) code_simp

text \<open>
  Loading checks the rule engine settings of every route alone over those of the site, while a
  request lays all matching routes over each other. Two nested routes that are fine alone can
  panic together.
\<close>

definition nested_l1 :: "string \<Rightarrow> nat option \<Rightarrow> nat option \<Rightarrow> route" where
  "nested_l1 p b e = (complete_route p)\<lparr>route_l1 := l1_file_default\<lparr>l1_blocking := b, l1_executing := e\<rparr>\<rparr>"

definition crs_site :: site_l1 where
  "crs_site = \<lparr>l1_site_settings = default_crs, l1_site_exclusions = []\<rparr>"

lemma nested_l1_routes_panic:
  "validate_l1_routes crs_site [nested_l1 ''/'' (Some 3) None, nested_l1 ''/a'' None (Some 2)] \<and>
   l1_for crs_site [nested_l1 ''/'' (Some 3) None, nested_l1 ''/a'' None (Some 2)] ''/a'' None = None"
proof -
  have p: "request_path ''/a'' = Some ''/a''" and m: "prefix_matches ''/a'' ''/''" "prefix_matches ''/a'' ''/a''"
    by code_simp+
  show ?thesis
    by (simp add: validate_l1_routes_def l1_for_def l1_resolve_def p m crs_site_def default_crs_def nested_l1_def
        complete_route_def l1_file_default_def l1_overlay_def l1_validated_def validate_paranoia_def
        MIN_PARANOIA_def MAX_PARANOIA_def DEFAULT_ANOMALY_THRESHOLD_def Let_def)
qed

end
