(* ===== verification/Behavioral.thy ===== *)
theory Behavioral
  imports Client_Ip Assoc_Maps Complex_Main
begin

text \<open>
  The behavioural score, \<open>src/src/behavioral.rs\<close>: profiles per network and per token identity, their
  decay, the checks of a request, the recording of blocks and responses, and the cleanup. A single
  precision number is the rational it stands for, rounded to nearest even after every operation;
  scores stay far below overflow, since a sum with 20 no longer grows from \<open>2^29\<close> on. Every reading
  of the clock is a program point of \<open>clk\<close>. The hash function is a parameter.
\<close>

section \<open>Single precision numbers\<close>

function int_bits :: "int \<Rightarrow> int" where
  "int_bits n = (if n \<le> 0 then 0 else int_bits (n div 2) + 1)"
  by pat_completeness auto
termination by (relation "measure nat") auto

declare int_bits.simps [simp del]

definition pow2 :: "int \<Rightarrow> rat" where
  "pow2 k = (if 0 \<le> k then 2 ^ nat k else 1 / 2 ^ nat (- k))"

definition exponent_of :: "rat \<Rightarrow> int" where
  "exponent_of x =
     (let (n, d) = quotient_of x; k = int_bits n - int_bits d
      in if pow2 k \<le> x then k else k - 1)"

definition half_even :: "rat \<Rightarrow> int" where
  "half_even x =
     (let f = \<lfloor>x\<rfloor>; r = x - of_int f
      in if r < 1 / 2 then f else if 1 / 2 < r then f + 1 else if even f then f else f + 1)"

definition f32_round :: "rat \<Rightarrow> rat" where
  "f32_round x =
     (if x = 0 then 0
      else let u = pow2 (max (exponent_of \<bar>x\<bar> - 23) (- 149)) in of_int (half_even (x / u)) * u)"

definition f32_add :: "rat \<Rightarrow> rat \<Rightarrow> rat" where
  "f32_add x y = f32_round (x + y)"

definition f32_sub :: "rat \<Rightarrow> rat \<Rightarrow> rat" where
  "f32_sub x y = f32_round (x - y)"

definition f32_mul :: "rat \<Rightarrow> rat \<Rightarrow> rat" where
  "f32_mul x y = f32_round (x * y)"

definition f32_div :: "rat \<Rightarrow> rat \<Rightarrow> rat" where
  "f32_div x y = f32_round (x / y)"

definition as_secs_f32 :: "nat \<Rightarrow> rat" where
  "as_secs_f32 ns =
     f32_add (f32_round (of_nat (ns div 1000000000)))
       (f32_div (f32_round (of_nat (ns mod 1000000000))) (f32_round 1000000000))"

section \<open>Settings\<close>

abbreviation DECAY_RATE :: rat where "DECAY_RATE \<equiv> 5"
abbreviation MAX_HASHES :: nat where "MAX_HASHES \<equiv> 64"
abbreviation PATH_DIVERSITY_THRESHOLD :: nat where "PATH_DIVERSITY_THRESHOLD \<equiv> 30"
abbreviation PATH_DIVERSITY_WINDOW_SECS :: nat where "PATH_DIVERSITY_WINDOW_SECS \<equiv> 60"
abbreviation UA_ROTATION_THRESHOLD :: nat where "UA_ROTATION_THRESHOLD \<equiv> 3"
abbreviation CLEANUP_INTERVAL :: nat where "CLEANUP_INTERVAL \<equiv> 1000"
abbreviation secs :: "nat \<Rightarrow> nat" where "secs n \<equiv> n * 1000000000"

text \<open>A threshold of \<open>None\<close> is infinite.\<close>

record behavioral_config =
  behavioral_enabled :: bool
  threshold_slow :: "rat option"
  threshold_block :: "rat option"
  ban_duration_secs :: nat
  max_tracked_ips :: nat

definition replica_count :: "(string \<Rightarrow> string option) \<Rightarrow> nat" where
  "replica_count env =
     unwrap_or (opt_filter (\<lambda>v. 0 < v) (Option.bind (env ''REPLICA_COUNT'') (parse_uint u64_max))) 1"

definition score_threshold :: "(string \<Rightarrow> string option) \<Rightarrow> rat \<Rightarrow> rat" where
  "score_threshold env configured = max (f32_div configured (f32_round (of_nat (replica_count env)))) 1"

definition reached :: "rat \<Rightarrow> rat option \<Rightarrow> bool" where
  "reached score t = (case t of Some v \<Rightarrow> v \<le> score | None \<Rightarrow> False)"

section \<open>Profiles\<close>

datatype behavior_key = BNetwork site_client_key | BJwtSub string u64 | BJwtTenant string u64

definition behavior_keys :: "risk_identity \<Rightarrow> behavior_key list" where
  "behavior_keys r =
     BNetwork (identity_network_key r) #
     (case jwt_sub_hash r of Some h \<Rightarrow> [BJwtSub (site r) h] | None \<Rightarrow> []) @
     (case jwt_tenant_hash r of Some h \<Rightarrow> [BJwtTenant (site r) h] | None \<Rightarrow> [])"

record ip_profile =
  score :: rat
  last_decay :: nat
  last_seen :: nat
  path_window_started :: nat
  banned_until :: "nat option"
  waf_blocks :: nat
  not_found :: nat
  auth_failures :: nat
  unique_paths :: "u64 list"
  user_agents :: "u64 list"
  path_diversity_flagged :: bool
  ua_rotation_flagged :: bool

definition ip_profile_new :: "nat \<Rightarrow> ip_profile" where
  "ip_profile_new now =
     \<lparr>score = 0, last_decay = now, last_seen = now, path_window_started = now, banned_until = None, waf_blocks = 0,
      not_found = 0, auth_failures = 0, unique_paths = [], user_agents = [], path_diversity_flagged = False,
      ua_rotation_flagged = False\<rparr>"

definition apply_decay :: "nat \<Rightarrow> nat \<Rightarrow> ip_profile \<Rightarrow> ip_profile" where
  "apply_decay seen now p =
     (let elapsed = as_secs_f32 (seen - last_decay p)
      in if f32_round (1 / 10) < elapsed
         then p\<lparr>score := max (f32_sub (score p) (f32_mul elapsed DECAY_RATE)) 0, last_decay := now\<rparr>
         else p)"

definition add_score :: "nat \<Rightarrow> nat \<Rightarrow> rat \<Rightarrow> ip_profile \<Rightarrow> ip_profile" where
  "add_score seen now points p = (let q = apply_decay seen now p in q\<lparr>score := f32_add (score q) points\<rparr>)"

definition is_banned :: "nat \<Rightarrow> ip_profile \<Rightarrow> bool" where
  "is_banned now p = (case banned_until p of Some until \<Rightarrow> now < until | None \<Rightarrow> False)"

definition reset_path_window_if_expired :: "nat \<Rightarrow> nat \<Rightarrow> ip_profile \<Rightarrow> ip_profile" where
  "reset_path_window_if_expired seen now p =
     (if PATH_DIVERSITY_WINDOW_SECS \<le> (seen - path_window_started p) div 1000000000
      then p\<lparr>path_window_started := now, unique_paths := [], path_diversity_flagged := False\<rparr> else p)"

definition is_stale :: "nat \<Rightarrow> nat \<Rightarrow> ip_profile \<Rightarrow> bool" where
  "is_stale now threshold p \<longleftrightarrow> score p < f32_round (1 / 10) \<and> threshold < now - last_seen p"

datatype behavioral_verdict = BehaveAllow | BehaveThrottle | BehaveBlock

definition add_hash :: "u64 list \<Rightarrow> u64 \<Rightarrow> u64 list" where
  "add_hash v h = (if h \<in> set v then v else if length v < MAX_HASHES then v @ [h] else v)"

section \<open>Scoring one key\<close>

definition path_step :: "(nat \<Rightarrow> nat) \<Rightarrow> (string \<Rightarrow> u64) \<Rightarrow> string \<Rightarrow> ip_profile \<Rightarrow> ip_profile" where
  "path_step clk hash uri p0 =
     (let p = reset_path_window_if_expired (clk 5) (clk 6) p0;
          q = p\<lparr>unique_paths := add_hash (unique_paths p) (hash (first_piece CHR ''?'' uri))\<rparr>
      in if \<not> path_diversity_flagged q \<and> PATH_DIVERSITY_THRESHOLD < length (unique_paths q)
         then add_score (clk 7) (clk 8) 20 (q\<lparr>path_diversity_flagged := True\<rparr>) else q)"

definition ua_step :: "(nat \<Rightarrow> nat) \<Rightarrow> (string \<Rightarrow> u64) \<Rightarrow> string option \<Rightarrow> ip_profile \<Rightarrow> ip_profile" where
  "ua_step clk hash ua p =
     (case ua of
        None \<Rightarrow> add_score (clk 9) (clk 10) 8 p
      | Some a \<Rightarrow>
          if a = [] then add_score (clk 9) (clk 10) 8 p
          else let q = p\<lparr>user_agents := add_hash (user_agents p) (hash a)\<rparr>
               in if \<not> ua_rotation_flagged q \<and> UA_ROTATION_THRESHOLD < length (user_agents q)
                  then add_score (clk 9) (clk 10) 15 (q\<lparr>ua_rotation_flagged := True\<rparr>) else q)"

definition judge :: "(nat \<Rightarrow> nat) \<Rightarrow> behavioral_config \<Rightarrow> ip_profile \<Rightarrow> behavioral_verdict \<times> ip_profile" where
  "judge clk cfg p =
     (if reached (score p) (threshold_block cfg)
      then (BehaveBlock, p\<lparr>banned_until := Some (clk 11 + secs (ban_duration_secs cfg))\<rparr>)
      else (if reached (score p) (threshold_slow cfg) then BehaveThrottle else BehaveAllow, p))"

type_synonym profiles = "(behavior_key \<times> ip_profile) list"

definition entry :: "(nat \<Rightarrow> nat) \<Rightarrow> profiles \<Rightarrow> behavior_key \<Rightarrow> ip_profile" where
  "entry clk ps k = (unwrap_or (map_of ps k) (ip_profile_new (clk 0)))\<lparr>last_seen := clk 1\<rparr>"

definition score_profile ::
    "(nat \<Rightarrow> nat) \<Rightarrow> behavioral_config \<Rightarrow> (string \<Rightarrow> u64) \<Rightarrow> string \<Rightarrow> string option \<Rightarrow> ip_profile \<Rightarrow>
     behavioral_verdict \<times> ip_profile" where
  "score_profile clk cfg hash uri ua p =
     (if is_banned (clk 2) p then (BehaveBlock, p)
      else let q = ua_step clk hash ua (path_step clk hash uri (apply_decay (clk 3) (clk 4) p))
           in judge clk cfg (q\<lparr>score := f32_add (score q) (f32_round (1 / 10))\<rparr>))"

definition score_key ::
    "(nat \<Rightarrow> nat) \<Rightarrow> behavioral_config \<Rightarrow> (string \<Rightarrow> u64) \<Rightarrow> string \<Rightarrow> string option \<Rightarrow> behavior_key \<Rightarrow> profiles \<Rightarrow>
     behavioral_verdict \<times> profiles" where
  "score_key clk cfg hash uri ua k ps =
     (let (v, p) = score_profile clk cfg hash uri ua (entry clk ps k) in (v, AList.update k p ps))"

section \<open>The operations\<close>

record behavioral_state =
  profiles :: profiles
  request_counter :: nat

text \<open>\<open>tick\<close> gives the readings taken for one map entry during the sweep.\<close>

definition cleanup_stale :: "(behavior_key \<Rightarrow> nat \<Rightarrow> nat) \<Rightarrow> behavioral_config \<Rightarrow> profiles \<Rightarrow> profiles" where
  "cleanup_stale tick cfg ps =
     (if length ps \<le> max_tracked_ips cfg then ps
      else
        let kept = filter (\<lambda>(k, p). \<not> is_stale (tick k 2) (secs 300) p)
              (map (\<lambda>(k, p). (k, apply_decay (tick k 0) (tick k 1) p)) ps)
        in if max_tracked_ips cfg < length kept
           then fold AList.delete (map fst (take (length kept - max_tracked_ips cfg) (sort_key (score \<circ> snd) kept))) kept
           else kept)"

primrec score_keys ::
    "(behavior_key \<Rightarrow> nat \<Rightarrow> nat) \<Rightarrow> behavioral_config \<Rightarrow> (string \<Rightarrow> u64) \<Rightarrow> string \<Rightarrow> string option \<Rightarrow>
     behavior_key list \<Rightarrow> behavioral_verdict \<Rightarrow> profiles \<Rightarrow> behavioral_verdict \<times> profiles" where
  "score_keys tick cfg hash uri ua [] worst ps = (worst, ps)"
| "score_keys tick cfg hash uri ua (k # ks) worst ps =
     (case score_key (tick k) cfg hash uri ua k ps of
        (BehaveBlock, ps') \<Rightarrow> (BehaveBlock, ps')
      | (BehaveThrottle, ps') \<Rightarrow> score_keys tick cfg hash uri ua ks BehaveThrottle ps'
      | (BehaveAllow, ps') \<Rightarrow> score_keys tick cfg hash uri ua ks worst ps')"

definition check_and_record ::
    "(behavior_key \<Rightarrow> nat \<Rightarrow> nat) \<Rightarrow> (behavior_key \<Rightarrow> nat \<Rightarrow> nat) \<Rightarrow> behavioral_config \<Rightarrow> (string \<Rightarrow> u64) \<Rightarrow>
     risk_identity \<Rightarrow> string \<Rightarrow> string option \<Rightarrow> behavioral_state \<Rightarrow> behavioral_verdict \<times> behavioral_state" where
  "check_and_record sweep tick cfg hash r uri ua st =
     (if \<not> behavioral_enabled cfg then (BehaveAllow, st)
      else
        let count = request_counter st;
            ps = (if count mod CLEANUP_INTERVAL = 0 \<and> 0 < count then cleanup_stale sweep cfg (profiles st) else profiles st);
            (v, ps') = score_keys tick cfg hash uri ua (behavior_keys r) BehaveAllow ps
        in (v, \<lparr>profiles = ps', request_counter = (count + 1) mod 2 ^ 64\<rparr>))"

definition on_keys ::
    "(behavior_key \<Rightarrow> nat \<Rightarrow> nat) \<Rightarrow> behavioral_config \<Rightarrow> ((nat \<Rightarrow> nat) \<Rightarrow> ip_profile \<Rightarrow> ip_profile) \<Rightarrow> risk_identity \<Rightarrow>
     behavioral_state \<Rightarrow> behavioral_state" where
  "on_keys tick cfg f r st =
     (if \<not> behavioral_enabled cfg then st
      else st\<lparr>profiles := foldl (\<lambda>ps k. AList.update k (f (tick k) (entry (tick k) ps k)) ps) (profiles st) (behavior_keys r)\<rparr>)"

definition saturating_inc :: "nat \<Rightarrow> nat" where
  "saturating_inc n = min (n + 1) u16_max"

definition waf_block_step :: "(nat \<Rightarrow> nat) \<Rightarrow> ip_profile \<Rightarrow> ip_profile" where
  "waf_block_step clk p = add_score (clk 2) (clk 3) 20 (p\<lparr>waf_blocks := saturating_inc (waf_blocks p)\<rparr>)"

definition record_waf_block ::
    "(behavior_key \<Rightarrow> nat \<Rightarrow> nat) \<Rightarrow> behavioral_config \<Rightarrow> risk_identity \<Rightarrow> behavioral_state \<Rightarrow> behavioral_state" where
  "record_waf_block tick cfg = on_keys tick cfg waf_block_step"

definition response_step :: "nat \<Rightarrow> (nat \<Rightarrow> nat) \<Rightarrow> ip_profile \<Rightarrow> ip_profile" where
  "response_step status clk p =
     (if status = 404 then add_score (clk 2) (clk 3) 3 (p\<lparr>not_found := saturating_inc (not_found p)\<rparr>)
      else if status = 401 then add_score (clk 2) (clk 3) 5 (p\<lparr>auth_failures := saturating_inc (auth_failures p)\<rparr>)
      else if status = 403 then add_score (clk 2) (clk 3) 3 (p\<lparr>auth_failures := saturating_inc (auth_failures p)\<rparr>)
      else p)"

definition record_response ::
    "(behavior_key \<Rightarrow> nat \<Rightarrow> nat) \<Rightarrow> behavioral_config \<Rightarrow> nat \<Rightarrow> risk_identity \<Rightarrow> behavioral_state \<Rightarrow> behavioral_state" where
  "record_response tick cfg status = on_keys tick cfg (response_step status)"

section \<open>Rounding\<close>

lemma half_even_nonneg: "0 \<le> x \<Longrightarrow> 0 \<le> half_even x"
  by (auto simp: half_even_def Let_def)

lemma pow2_pos: "0 < pow2 k"
  by (simp add: pow2_def)

lemma f32_round_nonneg: "0 \<le> x \<Longrightarrow> 0 \<le> f32_round x"
  using pow2_pos by (simp add: f32_round_def Let_def half_even_nonneg less_imp_le)

section \<open>Profiles stay well-formed\<close>

definition profile_ok :: "ip_profile \<Rightarrow> bool" where
  "profile_ok p \<longleftrightarrow> 0 \<le> score p \<and> length (unique_paths p) \<le> MAX_HASHES \<and> length (user_agents p) \<le> MAX_HASHES \<and>
     waf_blocks p \<le> u16_max \<and> not_found p \<le> u16_max \<and> auth_failures p \<le> u16_max"

lemma length_add_hash: "length v \<le> MAX_HASHES \<Longrightarrow> length (add_hash v h) \<le> MAX_HASHES"
  by (simp add: add_hash_def)

lemma apply_decay_ok: "profile_ok p \<Longrightarrow> profile_ok (apply_decay a b p)"
  by (simp add: apply_decay_def profile_ok_def Let_def)

lemma add_score_ok: "profile_ok p \<Longrightarrow> 0 \<le> pts \<Longrightarrow> profile_ok (add_score a b pts p)"
  using apply_decay_ok [of p a b]
  by (simp add: add_score_def profile_ok_def Let_def f32_add_def f32_round_nonneg)

lemma profile_new_ok: "profile_ok (ip_profile_new now)"
  by (simp add: ip_profile_new_def profile_ok_def)

lemma path_step_ok: "profile_ok p \<Longrightarrow> profile_ok (path_step clk hash uri p)"
proof -
  assume p: "profile_ok p"
  let ?p = "reset_path_window_if_expired (clk 5) (clk 6) p"
  let ?q = "?p\<lparr>unique_paths := add_hash (unique_paths ?p) (hash (first_piece CHR ''?'' uri))\<rparr>"
  have "profile_ok ?p" using p by (simp add: reset_path_window_if_expired_def profile_ok_def)
  then have q: "profile_ok ?q" by (simp add: profile_ok_def length_add_hash)
  then have "profile_ok (?q\<lparr>path_diversity_flagged := True\<rparr>)" by (simp add: profile_ok_def)
  with q show ?thesis by (simp add: path_step_def Let_def add_score_ok)
qed

lemma ua_step_ok: "profile_ok p \<Longrightarrow> profile_ok (ua_step clk hash ua p)"
proof -
  assume p: "profile_ok p"
  have "profile_ok (p\<lparr>user_agents := add_hash (user_agents p) h\<rparr>)"
    "profile_ok (p\<lparr>user_agents := add_hash (user_agents p) h, ua_rotation_flagged := True\<rparr>)" for h
    using p by (simp_all add: profile_ok_def length_add_hash)
  with p show ?thesis by (simp add: ua_step_def Let_def add_score_ok split: option.splits)
qed

lemma score_profile_ok: "profile_ok p \<Longrightarrow> profile_ok (snd (score_profile clk cfg hash uri ua p))"
proof -
  assume p: "profile_ok p"
  let ?q = "ua_step clk hash ua (path_step clk hash uri (apply_decay (clk 3) (clk 4) p))"
  have "profile_ok ?q" using p by (intro ua_step_ok path_step_ok apply_decay_ok)
  then have "profile_ok (?q\<lparr>score := f32_add (score ?q) (f32_round (1 / 10))\<rparr>)"
    by (simp add: profile_ok_def f32_add_def f32_round_nonneg)
  then show ?thesis using p by (simp add: score_profile_def judge_def profile_ok_def Let_def)
qed

section \<open>Bans\<close>

lemma banned_until_steps [simp]:
  "banned_until (apply_decay a b p) = banned_until p"
  "banned_until (add_score a b pts p) = banned_until p"
  "banned_until (reset_path_window_if_expired a b p) = banned_until p"
  by (simp_all add: apply_decay_def add_score_def reset_path_window_if_expired_def Let_def)

lemma banned_until_recording [simp]:
  "banned_until (waf_block_step clk p) = banned_until p"
  "banned_until (response_step status clk p) = banned_until p"
  by (simp_all add: waf_block_step_def response_step_def)

definition banned_in :: "profiles \<Rightarrow> behavior_key \<Rightarrow> nat \<Rightarrow> bool" where
  "banned_in ps k u \<longleftrightarrow> (\<exists>p. map_of ps k = Some p \<and> banned_until p = Some u)"

lemma banned_in_update:
  "banned_in (AList.update j p ps) k u \<longleftrightarrow> (if j = k then banned_until p = Some u else banned_in ps k u)"
  by (auto simp: banned_in_def update_conv)

lemma score_key_banned:
  assumes "banned_in ps k u" and "clk 2 < u"
  shows "fst (score_key clk cfg hash uri ua k ps) = BehaveBlock" and "banned_in (snd (score_key clk cfg hash uri ua k ps)) k u"
  using assms by (auto simp: score_key_def score_profile_def entry_def is_banned_def banned_in_def update_conv)

lemma score_key_keeps:
  assumes "banned_in ps k u" and "tick k 2 < u"
  shows "banned_in (snd (score_key (tick j) cfg hash uri ua j ps)) k u"
proof (cases "j = k")
  case True
  with assms show ?thesis using score_key_banned(2) [of ps k u "tick k"] by simp
next
  case False
  with assms show ?thesis by (simp add: score_key_def banned_in_update split: prod.splits)
qed

lemma score_keys_banned:
  assumes "banned_in ps k u" and "tick k 2 < u"
  shows "banned_in (snd (score_keys tick cfg hash uri ua ks w ps)) k u \<and>
    (k \<in> set ks \<longrightarrow> fst (score_keys tick cfg hash uri ua ks w ps) = BehaveBlock)"
  using assms(1)
proof (induction ks arbitrary: w ps)
  case (Cons j ks)
  obtain v ps' where s: "score_key (tick j) cfg hash uri ua j ps = (v, ps')" by force
  have b: "banned_in ps' k u" using score_key_keeps [of ps k u tick j cfg hash uri ua] Cons.prems assms(2) s by simp
  have "v = BehaveBlock" if "j = k" using score_key_banned(1) [of ps k u "tick k" cfg hash uri ua] Cons.prems assms(2) s that by simp
  with Cons.IH [OF b] s b show ?case by (cases v) auto
qed simp

lemma on_keys_keeps:
  assumes "\<And>clk p. banned_until (f clk p) = banned_until p" and "banned_in (profiles st) k u"
  shows "banned_in (profiles (on_keys tick cfg f r st)) k u"
proof -
  have "banned_in (foldl (\<lambda>ps k. AList.update k (f (tick k) (entry (tick k) ps k)) ps) ps ks) k u"
    if "banned_in ps k u" for ps ks
    using that
  proof (induction ks arbitrary: ps)
    case (Cons j ks)
    have "banned_in (AList.update j (f (tick j) (entry (tick j) ps j)) ps) k u"
      using Cons.prems assms(1) by (auto simp: banned_in_def update_conv entry_def)
    with Cons.IH show ?case by simp
  qed simp
  with assms(2) show ?thesis by (simp add: on_keys_def)
qed

section \<open>Sequences of operations\<close>

datatype behavior_op =
    CheckOp "behavior_key \<Rightarrow> nat \<Rightarrow> nat" "behavior_key \<Rightarrow> nat \<Rightarrow> nat" risk_identity string "string option"
  | WafOp "behavior_key \<Rightarrow> nat \<Rightarrow> nat" risk_identity
  | ResponseOp "behavior_key \<Rightarrow> nat \<Rightarrow> nat" nat risk_identity

primrec run_op :: "behavioral_config \<Rightarrow> (string \<Rightarrow> u64) \<Rightarrow> behavior_op \<Rightarrow> behavioral_state \<Rightarrow> behavioral_state" where
  "run_op cfg hash (CheckOp sweep tick r uri ua) st = snd (check_and_record sweep tick cfg hash r uri ua st)"
| "run_op cfg hash (WafOp tick r) st = record_waf_block tick cfg r st"
| "run_op cfg hash (ResponseOp tick status r) st = record_response tick cfg status r st"

definition run_ops :: "behavioral_config \<Rightarrow> (string \<Rightarrow> u64) \<Rightarrow> behavior_op list \<Rightarrow> behavioral_state \<Rightarrow> behavioral_state" where
  "run_ops cfg hash ops st = foldl (\<lambda>s op. run_op cfg hash op s) st ops"

text \<open>The check of a request reads the clock before the ban on \<open>k\<close> ends.\<close>

primrec op_before :: "behavior_key \<Rightarrow> nat \<Rightarrow> behavior_op \<Rightarrow> bool" where
  "op_before k u (CheckOp sweep tick r uri ua) \<longleftrightarrow> tick k 2 < u"
| "op_before k u (WafOp tick r) \<longleftrightarrow> True"
| "op_before k u (ResponseOp tick status r) \<longleftrightarrow> True"

lemma length_behavior_keys: "length (behavior_keys r) \<le> 3"
  by (simp add: behavior_keys_def split: option.splits)

lemma length_score_keys: "length (snd (score_keys tick cfg hash uri ua ks w ps)) \<le> length ps + length ks"
proof (induction ks arbitrary: w ps)
  case (Cons k ks)
  obtain v ps' where s: "score_key (tick k) cfg hash uri ua k ps = (v, ps')" by force
  then have "length ps' \<le> Suc (length ps)"
    by (auto simp: score_key_def length_alist_update split: prod.splits if_splits)
  with s Cons.IH [of w ps'] Cons.IH [of BehaveThrottle ps'] show ?case by (cases v) simp_all
qed simp

lemma length_foldl_update:
  "length (foldl (\<lambda>ps k. AList.update k (g ps k) ps) ps ks) \<le> length ps + length ks"
proof (induction ks arbitrary: ps)
  case (Cons k ks)
  have "length (AList.update k (g ps k) ps) \<le> Suc (length ps)" by (simp add: length_alist_update)
  then show ?case using Cons.IH [of "AList.update k (g ps k) ps"] by simp
qed simp

lemma length_on_keys: "length (profiles (on_keys tick cfg f r st)) \<le> length (profiles st) + 3"
proof -
  have "length (foldl (\<lambda>ps k. AList.update k (f (tick k) (entry (tick k) ps k)) ps) (profiles st) (behavior_keys r))
      \<le> length (profiles st) + length (behavior_keys r)"
    by (rule length_foldl_update [of "\<lambda>ps k. f (tick k) (entry (tick k) ps k)"])
  with length_behavior_keys [of r] show ?thesis by (simp add: on_keys_def)
qed

lemma check_and_record_banned:
  assumes "behavioral_enabled cfg" and "banned_in (profiles st) k u" and "tick k 2 < u"
    and "length (profiles st) \<le> max_tracked_ips cfg"
  shows "banned_in (profiles (snd (check_and_record sweep tick cfg hash r uri ua st))) k u \<and>
    length (profiles (snd (check_and_record sweep tick cfg hash r uri ua st))) \<le> length (profiles st) + 3 \<and>
    (k \<in> set (behavior_keys r) \<longrightarrow> fst (check_and_record sweep tick cfg hash r uri ua st) = BehaveBlock)"
proof -
  obtain v ps' where s: "score_keys tick cfg hash uri ua (behavior_keys r) BehaveAllow (profiles st) = (v, ps')" by force
  have "cleanup_stale sweep cfg (profiles st) = profiles st"
    using assms(4) by (simp add: cleanup_stale_def)
  then have c: "check_and_record sweep tick cfg hash r uri ua st =
      (v, \<lparr>profiles = ps', request_counter = (request_counter st + 1) mod 2 ^ 64\<rparr>)"
    using assms(1) s by (simp add: check_and_record_def Let_def)
  have "length ps' \<le> length (profiles st) + 3"
    using length_score_keys [of tick cfg hash uri ua "behavior_keys r" BehaveAllow "profiles st"]
      length_behavior_keys [of r] s by simp
  then show ?thesis
    using score_keys_banned [where tick = tick and cfg = cfg and hash = hash and uri = uri and ua = ua
        and ks = "behavior_keys r" and w = BehaveAllow, OF assms(2,3)] s c by simp
qed

lemma run_op_banned:
  assumes "behavioral_enabled cfg" and "banned_in (profiles st) k u" and "op_before k u op"
    and "length (profiles st) \<le> max_tracked_ips cfg"
  shows "banned_in (profiles (run_op cfg hash op st)) k u \<and>
    length (profiles (run_op cfg hash op st)) \<le> length (profiles st) + 3"
proof (cases op)
  case (CheckOp sweep tick r uri ua)
  with assms show ?thesis using check_and_record_banned [of cfg st k u tick] by simp
next
  case (WafOp tick r)
  with assms(2) show ?thesis by (simp add: record_waf_block_def length_on_keys on_keys_keeps)
next
  case (ResponseOp tick status r)
  with assms(2) show ?thesis by (simp add: record_response_def length_on_keys on_keys_keeps)
qed

lemma run_ops_banned:
  assumes "behavioral_enabled cfg" and "banned_in (profiles st) k u" and "\<forall>op \<in> set ops. op_before k u op"
    and "length (profiles st) + 3 * length ops \<le> max_tracked_ips cfg"
  shows "banned_in (profiles (run_ops cfg hash ops st)) k u \<and>
    length (profiles (run_ops cfg hash ops st)) \<le> length (profiles st) + 3 * length ops"
  using assms(2-)
proof (induction ops arbitrary: st)
  case (Cons op ops)
  let ?st = "run_op cfg hash op st"
  have step: "banned_in (profiles ?st) k u" "length (profiles ?st) \<le> length (profiles st) + 3"
    using run_op_banned [OF assms(1) Cons.prems(1)] Cons.prems(2,3) by simp_all
  with Cons.prems(2,3) have "banned_in (profiles (run_ops cfg hash ops ?st)) k u \<and>
      length (profiles (run_ops cfg hash ops ?st)) \<le> length (profiles ?st) + 3 * length ops"
    by (intro Cons.IH) simp_all
  with step show ?case by (simp add: run_ops_def)
qed (simp add: run_ops_def)

lemma new_ban:
  assumes "score_key clk cfg hash uri ua k ps = (BehaveBlock, ps1)" and "\<not> is_banned (clk 2) (entry clk ps k)"
  shows "banned_in ps1 k (clk 11 + secs (ban_duration_secs cfg))"
  using assms
  by (auto simp: score_key_def score_profile_def judge_def banned_in_def update_conv Let_def split: if_splits)

text \<open>C35. A key that reaches the block threshold is banned: whatever requests, blocks and responses
  follow, from whichever clients, every request with that key is blocked until the ban ends, as
  long as the map has room for the profiles those operations can add.\<close>

theorem ban_lasts:
  assumes "behavioral_enabled cfg"
    and "score_key clk cfg hash uri0 ua0 k ps = (BehaveBlock, profiles st)"
    and "\<not> is_banned (clk 2) (entry clk ps k)"
    and "\<forall>op \<in> set ops. op_before k (clk 11 + secs (ban_duration_secs cfg)) op"
    and "length (profiles st) + 3 * length ops \<le> max_tracked_ips cfg"
    and "k \<in> set (behavior_keys r)" and "tick k 2 < clk 11 + secs (ban_duration_secs cfg)"
  shows "fst (check_and_record sweep tick cfg hash r uri ua (run_ops cfg hash ops st)) = BehaveBlock"
proof -
  let ?u = "clk 11 + secs (ban_duration_secs cfg)"
  have "banned_in (profiles (run_ops cfg hash ops st)) k ?u \<and>
      length (profiles (run_ops cfg hash ops st)) \<le> length (profiles st) + 3 * length ops"
    by (rule run_ops_banned [OF assms(1) new_ban [OF assms(2,3)] assms(4,5)])
  then show ?thesis
    using check_and_record_banned [where k = k and u = ?u and tick = tick and cfg = cfg] assms(1,5,6,7) by simp
qed

definition strict_config :: behavioral_config where
  "strict_config = \<lparr>behavioral_enabled = True, threshold_slow = Some 4, threshold_block = Some 8, ban_duration_secs = 600,
     max_tracked_ips = 9\<rparr>"

definition one_client :: risk_identity where
  "one_client = risk_identity_new (\<lambda>_. 7) ''a'' (V4 1) ''/'' None None"

definition one_key :: behavior_key where
  "one_key = hd (behavior_keys one_client)"

lemma no_agent_scores: "8 \<le> f32_add (f32_add 0 8) (f32_round (1 / 10))"
  by code_simp

lemma apply_decay_at_once: "last_decay p = now \<Longrightarrow> apply_decay now later p = p"
  using f32_round_nonneg [of "1 / 10"]
  by (simp add: apply_decay_def as_secs_f32_def f32_add_def f32_div_def f32_round_def Let_def not_less)

lemma one_client_scored:
  "fst (score_key (\<lambda>_. 0) strict_config (\<lambda>_. 7) ''/'' None one_key []) = BehaveBlock"
  using no_agent_scores
  by (simp add: score_key_def score_profile_def entry_def ip_profile_new_def is_banned_def path_step_def ua_step_def
      reset_path_window_if_expired_def add_score_def add_hash_def apply_decay_at_once judge_def reached_def
      strict_config_def Let_def)

theorem ban_lasts_witness:
  "\<exists>st. score_key (\<lambda>_. 0) strict_config (\<lambda>_. 7) ''/'' None one_key [] = (BehaveBlock, profiles st) \<and>
     fst (check_and_record (\<lambda>_ _. 5) (\<lambda>_ _. 5) strict_config (\<lambda>_. 7) one_client ''/x'' (Some ''b'')
       (run_ops strict_config (\<lambda>_. 7) [WafOp (\<lambda>_ _. 4) one_client] st)) = BehaveBlock"
proof -
  define st where "st = \<lparr>profiles = snd (score_key (\<lambda>_. 0) strict_config (\<lambda>_. 7) ''/'' None one_key []), request_counter = 1\<rparr>"
  have scored: "score_key (\<lambda>_. 0) strict_config (\<lambda>_. 7) ''/'' None one_key [] = (BehaveBlock, profiles st)"
    using one_client_scored by (simp add: st_def prod_eq_iff)
  have "length (profiles st) \<le> 1"
    by (auto simp: st_def score_key_def length_alist_update split: prod.splits)
  moreover have "\<not> is_banned 0 (entry (\<lambda>_. 0) [] one_key)"
    by (simp add: entry_def is_banned_def ip_profile_new_def)
  moreover have "one_key \<in> set (behavior_keys one_client)"
    by (simp add: one_key_def behavior_keys_def)
  ultimately have "fst (check_and_record (\<lambda>_ _. 5) (\<lambda>_ _. 5) strict_config (\<lambda>_. 7) one_client ''/x'' (Some ''b'')
      (run_ops strict_config (\<lambda>_. 7) [WafOp (\<lambda>_ _. 4) one_client] st)) = BehaveBlock"
    by (intro ban_lasts [OF _ scored]) (simp_all add: strict_config_def)
  with scored show ?thesis by blast
qed

text \<open>
  The cleanup looks at score and idle time, not at the ban: a banned client that stays away for five
  minutes is forgotten when the map is over its limit, before a ban of ten minutes ends.
\<close>

lemma half_even_nonpos: "x \<le> 0 \<Longrightarrow> half_even x \<le> 0"
  by (auto simp: half_even_def Let_def floor_le_zero)

lemma f32_round_nonpos: "x \<le> 0 \<Longrightarrow> f32_round x \<le> 0"
  using pow2_pos by (simp add: f32_round_def Let_def half_even_nonpos mult_nonpos_nonneg divide_nonpos_pos less_imp_le)

lemma as_secs_nonneg: "0 \<le> as_secs_f32 n"
  by (simp add: as_secs_f32_def f32_add_def f32_div_def f32_round_nonneg)

lemma cleanup_forgets_ban:
  fixes p :: ip_profile
  assumes "score p = 0" and "max_tracked_ips cfg = 0" and "secs 300 < now - last_seen p"
  shows "cleanup_stale (\<lambda>_ _. now) cfg [(k, p)] = []"
proof -
  have "f32_sub 0 (f32_mul (as_secs_f32 n) DECAY_RATE) \<le> 0" for n
    by (simp add: f32_sub_def f32_mul_def f32_round_nonpos f32_round_nonneg as_secs_nonneg)
  then have "score (apply_decay now now p) = 0" "last_seen (apply_decay now now p) = last_seen p"
    using assms(1) by (simp_all add: apply_decay_def Let_def)
  moreover have "0 < f32_round (1 / 10)" by code_simp
  ultimately have "is_stale now (secs 300) (apply_decay now now p)" using assms(3) by (simp add: is_stale_def)
  with assms(2) show ?thesis by (simp add: cleanup_stale_def)
qed

end
