(* ===== verification/Abuse.thy ===== *)
theory Abuse
  imports Client_Ip Sliding_Window Assoc_Maps Shield
begin

text \<open>
  The abuse engine, \<open>src/src/abuse.rs\<close>: policy, quotas per fingerprint, session, token subject and
  network, rotation of networks, and the verdict on a request. The maps are association lists. Each
  reading of the clock is a program point of \<open>clk\<close>. The file system and the address database are
  parameters; the challenge pages are left out.
\<close>

declare map_of_eq_Some_iff [simp del]

section \<open>Policy\<close>

abbreviation DEFAULT_STUFFING :: nat where "DEFAULT_STUFFING \<equiv> 10"
abbreviation DEFAULT_ENUMERATION :: nat where "DEFAULT_ENUMERATION \<equiv> 20"
abbreviation DEFAULT_SIGNUP :: nat where "DEFAULT_SIGNUP \<equiv> 5"
abbreviation DEFAULT_RECOVER :: nat where "DEFAULT_RECOVER \<equiv> 5"
abbreviation DEFAULT_WINDOW_SECS :: nat where "DEFAULT_WINDOW_SECS \<equiv> 600"
abbreviation DEFAULT_CHALLENGE_SCORE :: nat where "DEFAULT_CHALLENGE_SCORE \<equiv> 40"
abbreviation ABUSE_MAX_KEYS :: nat where "ABUSE_MAX_KEYS \<equiv> 50000"
abbreviation ABUSE_SWEEP_EVERY :: nat where "ABUSE_SWEEP_EVERY \<equiv> 256"
abbreviation MMDB_MAX_BYTES :: nat where "MMDB_MAX_BYTES \<equiv> 64 * 1024 * 1024"

datatype abuse_reason = StuffingReason | EnumerationReason | SignupReason | RecoverReason | UaWeak | IpRotate

fun reason_as_str :: "abuse_reason \<Rightarrow> string" where
  "reason_as_str StuffingReason = ''stuffing''"
| "reason_as_str EnumerationReason = ''enumeration''"
| "reason_as_str SignupReason = ''signup''"
| "reason_as_str RecoverReason = ''recover''"
| "reason_as_str UaWeak = ''ua_weak''"
| "reason_as_str IpRotate = ''ip_rotate''"


definition format_reasons :: "abuse_reason list \<Rightarrow> string" where
  "format_reasons rs = join_with CHR '','' (map reason_as_str rs)"

datatype challenge_kind = NoChallenge | Pow | External

datatype abuse_error = BadChallenge | ExternalWithoutUrl | MmdbUnreadable | MmdbTooLarge | MmdbInvalid

definition challenge_kind_parse :: "string \<Rightarrow> (abuse_error, challenge_kind) result" where
  "challenge_kind_parse raw =
     (let v = trim raw
      in if v = ''none'' then Ok NoChallenge else if v = ''pow'' then Ok Pow
         else if v = ''external'' then Ok External else Err BadChallenge)"

text \<open>\<open>read\<close> is \<open>None\<close> for what is not a file, and an unreadable file is \<open>Some None\<close>.\<close>

definition asn_load ::
    "(string \<Rightarrow> string option option) \<Rightarrow> (string \<Rightarrow> 'db option) \<Rightarrow> string \<Rightarrow> (abuse_error, 'db option) result" where
  "asn_load read from_source path =
     (case read path of
        None \<Rightarrow> Ok None
      | Some None \<Rightarrow> Err MmdbUnreadable
      | Some (Some bs) \<Rightarrow>
          (if length bs > MMDB_MAX_BYTES then Err MmdbTooLarge
           else case from_source bs of Some db \<Rightarrow> Ok (Some db) | None \<Rightarrow> Err MmdbInvalid))"

record 'db abuse_policy =
  stuffing_max :: nat
  enumeration_max :: nat
  signup_max :: nat
  recover_max :: nat
  abuse_window :: nat
  challenge :: challenge_kind
  challenge_url :: "string option"
  challenge_score :: nat
  mmdb :: "'db option"

record abuse_file =
  file_mmdb :: "string option"
  file_stuffing :: "nat option"
  file_enumeration :: "nat option"
  file_signup :: "nat option"
  file_recover :: "nat option"
  file_window :: "nat option"
  file_challenge :: "string option"
  file_challenge_url :: "string option"
  file_challenge_score :: "nat option"

definition path_join :: "string \<Rightarrow> string \<Rightarrow> string" where
  "path_join base raw =
     (if starts_with raw ''/'' then raw else if base = [] \<or> ends_with base ''/'' then base @ raw else base @ ''/'' @ raw)"

definition mmdb_path :: "string \<Rightarrow> abuse_file \<Rightarrow> string option" where
  "mmdb_path base file = map_option (path_join base) (opt_filter (\<lambda>p. p \<noteq> []) (map_option trim (file_mmdb file)))"

definition into_policy ::
    "(string \<Rightarrow> string option option) \<Rightarrow> (string \<Rightarrow> 'db option) \<Rightarrow> string \<Rightarrow> abuse_file \<Rightarrow>
     (abuse_error, 'db abuse_policy) result" where
  "into_policy read from_source base file =
     result_bind (case file_challenge file of Some raw \<Rightarrow> challenge_kind_parse raw | None \<Rightarrow> Ok NoChallenge) (\<lambda>kind.
       if kind = External \<and> opt_filter (\<lambda>u. u \<noteq> []) (map_option trim (file_challenge_url file)) = None
       then Err ExternalWithoutUrl
       else result_bind (case mmdb_path base file of Some p \<Rightarrow> asn_load read from_source p | None \<Rightarrow> Ok None) (\<lambda>db.
         Ok \<lparr>stuffing_max = max (unwrap_or (file_stuffing file) DEFAULT_STUFFING) 1,
            enumeration_max = max (unwrap_or (file_enumeration file) DEFAULT_ENUMERATION) 1,
            signup_max = max (unwrap_or (file_signup file) DEFAULT_SIGNUP) 1,
            recover_max = max (unwrap_or (file_recover file) DEFAULT_RECOVER) 1,
            abuse_window = max (unwrap_or (file_window file) DEFAULT_WINDOW_SECS) 1 * 1000000000,
            challenge = kind, challenge_url = file_challenge_url file,
            challenge_score = unwrap_or (file_challenge_score file) DEFAULT_CHALLENGE_SCORE, mmdb = db\<rparr>))"

section \<open>Paths and challenges\<close>

definition is_stuffing_path :: "string \<Rightarrow> string \<Rightarrow> bool" where
  "is_stuffing_path mth path \<longleftrightarrow> eq_ignore_ascii_case mth ''POST'' \<and>
     (path \<in> {''/login'', ''/auth/token'', ''/auth/login'', ''/session''} \<or> starts_with path ''/login/'')"







section \<open>The engine\<close>

datatype quota_kind = Stuffing | Enumeration | Signup | Recover

datatype quota_dim = DFingerprint u64 | DSession u64 | DJwtSub u64 | DNetwork ip_addr

type_synonym quota_key = "string \<times> quota_kind \<times> quota_dim"
type_synonym counters = "(quota_key \<times> nat list) list"

record abuse_engine =
  counters :: counters
  rotations :: "((string \<times> u64) \<times> ip_addr list) list"
  engine_hits :: nat










definition retain_counters :: "nat \<Rightarrow> nat \<Rightarrow> counters \<Rightarrow> counters" where
  "retain_counters w now cs = filter (\<lambda>(k, ts). ts \<noteq> []) (map (\<lambda>(k, ts). (k, retain_live w now ts)) cs)"

definition abuse_sweep :: "nat \<Rightarrow> nat \<Rightarrow> abuse_engine \<Rightarrow> abuse_engine" where
  "abuse_sweep now w st =
     (let st' = st\<lparr>engine_hits := (engine_hits st + 1) mod 2 ^ 64\<rparr>
      in if engine_hits st mod ABUSE_SWEEP_EVERY \<noteq> 0 then st'
         else let cs = retain_counters w now (counters st)
              in st'\<lparr>counters := (if ABUSE_MAX_KEYS < length cs then [] else cs),
                     rotations := (if ABUSE_MAX_KEYS < length (rotations st) then [] else rotations st)\<rparr>)"







section \<open>Buckets\<close>

definition bucket_of :: "counters \<Rightarrow> quota_key \<Rightarrow> nat list" where
  "bucket_of cs k = unwrap_or (map_of cs k) []"

lemma bucket_update [simp]: "bucket_of (AList.update j ts cs) k = (if j = k then ts else bucket_of cs k)"
  by (simp add: bucket_of_def update_conv)




section \<open>Quotas of the engine\<close>


type_synonym hit_log = "(quota_key \<times> nat) list"

definition hits_of :: "hit_log \<Rightarrow> quota_key \<Rightarrow> nat list" where
  "hits_of log k = map snd (filter (\<lambda>h. fst h = k) log)"

lemma hits_of_append [simp]: "hits_of (a @ b) k = hits_of a k @ hits_of b k"
  by (simp add: hits_of_def)




















section \<open>Runs\<close>














text \<open>
  The engine is shared by all sites, and the sweep drops instants by the window of the site whose
  request triggers it: a site with a short window empties the quotas of the others.
\<close>

lemma sweep_uses_callers_window:
  assumes "engine_hits st mod ABUSE_SWEEP_EVERY = 0" and "counters st = [(k, [t])]" and "w \<le> now - t"
  shows "counters (abuse_sweep now w st) = []"
  using assms by (simp add: abuse_sweep_def retain_counters_def retain_live_def Let_def)

text \<open>The paths are compared as written, not in the canonical form the routes use.\<close>

lemma spelled_login_not_counted:
  "is_stuffing_path ''POST'' ''/login'' \<and> \<not> is_stuffing_path ''POST'' ''//login'' \<and>
   \<not> is_stuffing_path ''POST'' ''/%6Cogin''"
  by code_simp

end
