(* ===== verification/Openapi_Schema.thy ===== *)
theory Openapi_Schema
  imports Json_Value Rust_Text "HOL-Library.AList"
begin

text \<open>
  The schema checker of \<open>openapi.rs\<close>: \<open>schema_ok\<close> and the functions below it. A schema and an
  instance are JSON values, a failure is the JSON pointer of the place in the instance and a fixed
  word. The recursion of the source counts \<open>depth\<close> down, so the model recurses on it;
  \<open>schema_step\<close> is the body of \<open>schema_ok\<close> at a positive depth, with the recursive call as its
  argument.

  The equality of two JSON numbers belongs to \<open>serde_json\<close> and is the parameter \<open>num_eq\<close>.

  The lemmas say which members an accepted object can have, and that a failure names members and
  required names only, never a value of the instance.
\<close>

section \<open>JSON values\<close>

fun as_object :: "json_value \<Rightarrow> (string \<times> json_value) list option" where
  "as_object (Object ms) = Some ms"
| "as_object _ = None"

fun as_array :: "json_value \<Rightarrow> json_value list option" where
  "as_array (Array vs) = Some vs"
| "as_array _ = None"

fun as_bool :: "json_value \<Rightarrow> bool option" where
  "as_bool (Bool b) = Some b"
| "as_bool _ = None"

definition get_str :: "string \<Rightarrow> json_value \<Rightarrow> string option" where
  "get_str k v = Option.bind (json_get k v) as_str"

definition get_array :: "string \<Rightarrow> json_value \<Rightarrow> json_value list option" where
  "get_array k v = Option.bind (json_get k v) as_array"

definition get_object :: "string \<Rightarrow> json_value \<Rightarrow> (string \<times> json_value) list option" where
  "get_object k v = Option.bind (json_get k v) as_object"

definition get_bool :: "string \<Rightarrow> json_value \<Rightarrow> bool option" where
  "get_bool k v = Option.bind (json_get k v) as_bool"

text \<open>\<open>PartialEq\<close> of two values: structural, numbers by \<open>num_eq\<close>. The members of an object come
  sorted by name.\<close>

fun json_eq :: "(string \<Rightarrow> string \<Rightarrow> bool) \<Rightarrow> json_value \<Rightarrow> json_value \<Rightarrow> bool" where
  "json_eq num_eq Null w = (w = Null)"
| "json_eq num_eq (Bool a) w = (w = Bool a)"
| "json_eq num_eq (Number a) w = (case w of Number b \<Rightarrow> num_eq a b | _ \<Rightarrow> False)"
| "json_eq num_eq (String a) w = (w = String a)"
| "json_eq num_eq (Array vs) w = (case w of Array ws \<Rightarrow> list_all2 (json_eq num_eq) vs ws | _ \<Rightarrow> False)"
| "json_eq num_eq (Object ms) w =
     (case w of
        Object ns \<Rightarrow> list_all2 (\<lambda>m n. fst m = fst n \<and> json_eq num_eq (snd m) (snd n)) ms ns
      | _ \<Rightarrow> False)"

text \<open>\<open>str::replace\<close>.\<close>

definition replace_str :: "string \<Rightarrow> string \<Rightarrow> string \<Rightarrow> string" where
  "replace_str pat new s = (case split_str pat s of [] \<Rightarrow> [] | p # ps \<Rightarrow> p @ concat (map (\<lambda>q. new @ q) ps))"

section \<open>Pointers\<close>

definition json_pointer_escape :: "string \<Rightarrow> string" where
  "json_pointer_escape key = replace_str ''/'' ''~1'' (replace_str ''~'' ''~0'' key)"

definition child_pointer :: "string \<Rightarrow> string \<Rightarrow> string" where
  "child_pointer parent key = parent @ ''/'' @ json_pointer_escape key"

definition pointer_key :: "string \<Rightarrow> string" where
  "pointer_key raw = replace_str ''~0'' ''~'' (replace_str ''~1'' ''/'' raw)"

fun pointer_walk :: "json_value \<Rightarrow> string list \<Rightarrow> json_value option" where
  "pointer_walk cur [] = Some cur"
| "pointer_walk cur (raw # rest) =
     (let key = pointer_key raw
      in Option.bind
           (case cur of
              Object ms \<Rightarrow> map_of ms key
            | Array vs \<Rightarrow>
                (case parse_uint usize_max key of
                   Some i \<Rightarrow> if i < length vs then Some (vs ! i) else None
                 | None \<Rightarrow> None)
            | _ \<Rightarrow> None)
           (\<lambda>v. pointer_walk v rest))"

definition json_pointer :: "json_value \<Rightarrow> string \<Rightarrow> json_value option" where
  "json_pointer doc rel =
     (case strip_prefix rel ''#'' of
        None \<Rightarrow> None
      | Some r \<Rightarrow>
          if r = [] then Some doc
          else if \<not> starts_with r ''/'' then None
          else pointer_walk doc (drop 1 (split_on (CHR ''/'') r)))"

section \<open>Schemas\<close>

abbreviation MAX_REF_DEPTH :: nat where "MAX_REF_DEPTH \<equiv> 32"
abbreviation MAX_SCHEMA_DEPTH :: nat where "MAX_SCHEMA_DEPTH \<equiv> 32"

record fail =
  pointer :: string
  reason :: string

abbreviation fail_at :: "string \<Rightarrow> string \<Rightarrow> (fail, 'a) result" where
  "fail_at p r \<equiv> Err \<lparr>pointer = p, reason = r\<rparr>"

definition type_names :: "json_value \<Rightarrow> string list" where
  "type_names schema =
     (case json_get ''type'' schema of
        Some (String t) \<Rightarrow> [t]
      | Some (Array items) \<Rightarrow> List.map_filter as_str items
      | _ \<Rightarrow> [])"

definition has_siblings :: "json_value \<Rightarrow> bool" where
  "has_siblings schema = (case as_object schema of Some ms \<Rightarrow> 1 < length ms | None \<Rightarrow> False)"

fun deref :: "json_value \<Rightarrow> json_value \<Rightarrow> nat \<Rightarrow> (fail, json_value) result" where
  "deref doc node depth =
     (case get_str ''$ref'' node of
        None \<Rightarrow> Ok node
      | Some rel \<Rightarrow>
          if depth = 0 then fail_at [] ''depth''
          else (case json_pointer doc rel of
                  None \<Rightarrow> fail_at [] ''ref''
                | Some target \<Rightarrow> deref doc target (depth - 1)))"

declare deref.simps [simp del]

primrec composition_allows_additional :: "json_value \<Rightarrow> nat \<Rightarrow> json_value \<Rightarrow> bool" where
  "composition_allows_additional doc 0 = (\<lambda>schema. False)"
| "composition_allows_additional doc (Suc d) =
     (\<lambda>schema.
        (case get_str ''$ref'' schema of
           Some rel \<Rightarrow>
             (case json_pointer doc rel of
                Some target \<Rightarrow> composition_allows_additional doc d target
              | None \<Rightarrow> False)
         | None \<Rightarrow> False)
        \<or> json_get ''additionalProperties'' schema = Some (Bool True)
        \<or> (case get_array ''allOf'' schema of
             Some subs \<Rightarrow> list_ex (composition_allows_additional doc d) subs
           | None \<Rightarrow> False))"

text \<open>The set the source fills in its \<open>out\<close> argument, as the list of its elements.\<close>

primrec collect_property_names :: "json_value \<Rightarrow> nat \<Rightarrow> json_value \<Rightarrow> string list" where
  "collect_property_names doc 0 = (\<lambda>schema. [])"
| "collect_property_names doc (Suc d) =
     (\<lambda>schema.
        (case get_str ''$ref'' schema of
           Some rel \<Rightarrow>
             (case json_pointer doc rel of
                Some target \<Rightarrow> collect_property_names doc d target
              | None \<Rightarrow> [])
         | None \<Rightarrow> [])
        @ (case get_object ''properties'' schema of Some props \<Rightarrow> map fst props | None \<Rightarrow> [])
        @ (case get_array ''allOf'' schema of
             Some subs \<Rightarrow> concat (map (collect_property_names doc d) subs)
           | None \<Rightarrow> []))"

section \<open>The checker\<close>

text \<open>The recursive call: schema, inst, pointer, strict.\<close>

type_synonym checker = "json_value \<Rightarrow> json_value \<Rightarrow> string \<Rightarrow> bool \<Rightarrow> (fail, unit) result"

text \<open>A \<open>for\<close> loop whose body may return an error.\<close>

primrec each_ok :: "('a \<Rightarrow> (fail, unit) result) \<Rightarrow> 'a list \<Rightarrow> (fail, unit) result" where
  "each_ok f [] = Ok ()"
| "each_ok f (x # xs) = result_bind (f x) (\<lambda>_. each_ok f xs)"

fun is_json_integer :: "json_value \<Rightarrow> bool" where
  "is_json_integer (Number n) = (as_i64 n \<noteq> None \<or> as_u64 n \<noteq> None)"
| "is_json_integer _ = False"

definition is_ok :: "('e, 'a) result \<Rightarrow> bool" where
  "is_ok r = (case r of Inr _ \<Rightarrow> True | Inl _ \<Rightarrow> False)"

definition check_array :: "checker \<Rightarrow> json_value \<Rightarrow> json_value \<Rightarrow> string \<Rightarrow> (fail, unit) result" where
  "check_array ok schema inst ptr =
     (case as_array inst of
        None \<Rightarrow> fail_at ptr ''type''
      | Some items \<Rightarrow>
          (case json_get ''items'' schema of
             None \<Rightarrow> Ok ()
           | Some item_schema \<Rightarrow>
               each_ok (\<lambda>(index, item). ok item_schema item (ptr @ ''/'' @ nat_to_string index) True)
                 (enumerate 0 items)))"

definition check_member ::
    "checker \<Rightarrow> json_value \<Rightarrow> string \<Rightarrow> bool \<Rightarrow> string \<times> json_value \<Rightarrow> (fail, unit) result" where
  "check_member ok schema ptr strict = (\<lambda>(key, val).
     let child = child_pointer ptr key
     in case Option.bind (get_object ''properties'' schema) (\<lambda>props. map_of props key) of
          Some sub \<Rightarrow> ok sub val child True
        | None \<Rightarrow>
            (case json_get ''additionalProperties'' schema of
               Some (Bool b) \<Rightarrow> if b then Ok () else fail_at child ''additionalProperties''
             | Some subschema \<Rightarrow> ok subschema val child True
             | None \<Rightarrow> if strict then fail_at child ''additionalProperties'' else Ok ()))"

definition check_object ::
    "checker \<Rightarrow> json_value \<Rightarrow> json_value \<Rightarrow> string \<Rightarrow> bool \<Rightarrow> (fail, unit) result" where
  "check_object ok schema inst ptr strict =
     (case as_object inst of
        None \<Rightarrow> fail_at ptr ''type''
      | Some ms \<Rightarrow>
          result_bind
            (case get_array ''required'' schema of
               None \<Rightarrow> Ok ()
             | Some names \<Rightarrow>
                 each_ok (\<lambda>name. if map_of ms name \<noteq> None then Ok ()
                                 else fail_at (child_pointer ptr name) ''required'')
                   (List.map_filter as_str names))
            (\<lambda>_. each_ok (check_member ok schema ptr strict) ms))"

definition check_type ::
    "checker \<Rightarrow> json_value \<Rightarrow> string \<Rightarrow> json_value \<Rightarrow> string \<Rightarrow> bool \<Rightarrow> (fail, unit) result" where
  "check_type ok schema type_name inst ptr strict =
     (if type_name = ''null'' then
        (if inst = Null then Ok () else fail_at ptr ''type'')
      else if type_name = ''boolean'' then
        (case inst of Bool _ \<Rightarrow> Ok () | _ \<Rightarrow> fail_at ptr ''type'')
      else if type_name = ''string'' then
        (case inst of String _ \<Rightarrow> Ok () | _ \<Rightarrow> fail_at ptr ''type'')
      else if type_name = ''integer'' then
        (if is_json_integer inst then Ok () else fail_at ptr ''type'')
      else if type_name = ''number'' then
        (case inst of Number _ \<Rightarrow> Ok () | _ \<Rightarrow> fail_at ptr ''type'')
      else if type_name = ''array'' then check_array ok schema inst ptr
      else if type_name = ''object'' then check_object ok schema inst ptr strict
      else Ok ())"

definition deny_undeclared ::
    "checker \<Rightarrow> json_value \<Rightarrow> nat \<Rightarrow> json_value \<Rightarrow> (string \<times> json_value) list \<Rightarrow> string \<Rightarrow> bool
     \<Rightarrow> (fail, unit) result" where
  "deny_undeclared ok doc depth schema ms ptr strict =
     (if composition_allows_additional doc depth schema then Ok ()
      else if \<not> strict \<and> json_get ''additionalProperties'' schema \<noteq> Some (Bool False) then Ok ()
      else
        let allowed = collect_property_names doc depth schema
        in each_ok (\<lambda>(key, val).
             if key \<in> set allowed then Ok ()
             else
               let child = child_pointer ptr key
               in case json_get ''additionalProperties'' schema of
                    Some (Bool b) \<Rightarrow> if b then Ok () else fail_at child ''additionalProperties''
                  | Some subschema \<Rightarrow> ok subschema val child True
                  | None \<Rightarrow> fail_at child ''additionalProperties'') ms)"

definition check_ref ::
    "checker \<Rightarrow> json_value \<Rightarrow> nat \<Rightarrow> json_value \<Rightarrow> string \<Rightarrow> json_value \<Rightarrow> string \<Rightarrow> bool
     \<Rightarrow> (fail, unit) result" where
  "check_ref ok doc depth schema rel inst ptr strict =
     (case json_pointer doc rel of
        None \<Rightarrow> fail_at ptr ''ref''
      | Some target \<Rightarrow>
          if has_siblings schema then
            result_bind (ok target inst ptr False) (\<lambda>_.
            result_bind
              (ok (case schema of Object ms \<Rightarrow> Object (AList.delete ''$ref'' ms) | _ \<Rightarrow> schema) inst ptr False)
              (\<lambda>_. case inst of
                     Object ms \<Rightarrow> deny_undeclared ok doc depth schema ms ptr strict
                   | _ \<Rightarrow> Ok ()))
          else ok target inst ptr strict)"

definition check_values ::
    "(string \<Rightarrow> string \<Rightarrow> bool) \<Rightarrow> json_value \<Rightarrow> json_value \<Rightarrow> string \<Rightarrow> (fail, unit) result" where
  "check_values num_eq schema inst ptr =
     result_bind
       (case json_get ''const'' schema of
          Some cst \<Rightarrow> if json_eq num_eq inst cst then Ok () else fail_at ptr ''enum''
        | None \<Rightarrow> Ok ())
       (\<lambda>_. case get_array ''enum'' schema of
              Some en \<Rightarrow> if list_ex (\<lambda>v. json_eq num_eq v inst) en then Ok () else fail_at ptr ''enum''
            | None \<Rightarrow> Ok ())"

text \<open>The branch for a null instance: \<open>Some\<close> is the value the source returns there.\<close>

definition check_null :: "json_value \<Rightarrow> string \<Rightarrow> (fail, unit) result option" where
  "check_null schema ptr =
     (if get_bool ''nullable'' schema = Some True then Some (Ok ())
      else let types = type_names schema
           in if ''null'' \<in> set types then Some (Ok ())
              else if types = [] \<and> json_get ''enum'' schema = None \<and> json_get ''const'' schema = None
                      \<and> json_get ''properties'' schema = None then Some (Ok ())
              else if types \<noteq> [] then Some (fail_at ptr ''type'')
              else None)"

definition check_all_of ::
    "checker \<Rightarrow> json_value \<Rightarrow> nat \<Rightarrow> json_value \<Rightarrow> json_value \<Rightarrow> string \<Rightarrow> bool \<Rightarrow> (fail, unit) result" where
  "check_all_of ok doc depth schema inst ptr strict =
     (case get_array ''allOf'' schema of
        None \<Rightarrow> Ok ()
      | Some subs \<Rightarrow>
          result_bind (each_ok (\<lambda>sub. ok sub inst ptr False) subs)
            (\<lambda>_. case inst of
                   Object ms \<Rightarrow> deny_undeclared ok doc depth schema ms ptr strict
                 | _ \<Rightarrow> Ok ()))"

definition check_any_of :: "checker \<Rightarrow> json_value \<Rightarrow> json_value \<Rightarrow> string \<Rightarrow> (fail, unit) result" where
  "check_any_of ok schema inst ptr =
     (case get_array ''anyOf'' schema of
        None \<Rightarrow> Ok ()
      | Some subs \<Rightarrow>
          if subs \<noteq> [] \<and> list_all (\<lambda>sub. \<not> is_ok (ok sub inst ptr False)) subs
          then fail_at ptr ''anyOf'' else Ok ())"

definition check_one_of :: "checker \<Rightarrow> json_value \<Rightarrow> json_value \<Rightarrow> string \<Rightarrow> (fail, unit) result" where
  "check_one_of ok schema inst ptr =
     (case get_array ''oneOf'' schema of
        None \<Rightarrow> Ok ()
      | Some subs \<Rightarrow>
          if subs \<noteq> [] \<and> length (filter (\<lambda>sub. is_ok (ok sub inst ptr False)) subs) \<noteq> 1
          then fail_at ptr ''oneOf'' else Ok ())"

definition check_types :: "checker \<Rightarrow> json_value \<Rightarrow> json_value \<Rightarrow> string \<Rightarrow> bool \<Rightarrow> (fail, unit) result" where
  "check_types ok schema inst ptr object_strict =
     (case json_get ''type'' schema of
        Some (String t) \<Rightarrow> check_type ok schema t inst ptr object_strict
      | Some (Array types) \<Rightarrow>
          if list_ex (\<lambda>t. is_ok (check_type ok schema t inst ptr object_strict)) (List.map_filter as_str types)
          then Ok () else fail_at ptr ''type''
      | None \<Rightarrow>
          if json_get ''properties'' schema \<noteq> None \<or> json_get ''additionalProperties'' schema \<noteq> None
             \<or> json_get ''required'' schema \<noteq> None
          then check_type ok schema ''object'' inst ptr object_strict
          else if json_get ''items'' schema \<noteq> None
          then check_type ok schema ''array'' inst ptr object_strict
          else Ok ()
      | _ \<Rightarrow> Ok ())"

definition check_plain ::
    "checker \<Rightarrow> json_value \<Rightarrow> nat \<Rightarrow> json_value \<Rightarrow> json_value \<Rightarrow> string \<Rightarrow> bool \<Rightarrow> (fail, unit) result" where
  "check_plain ok doc depth schema inst ptr strict =
     result_bind (check_all_of ok doc depth schema inst ptr strict) (\<lambda>_.
     result_bind (check_any_of ok schema inst ptr) (\<lambda>_.
     result_bind (check_one_of ok schema inst ptr) (\<lambda>_.
     check_types ok schema inst ptr (strict \<and> json_get ''allOf'' schema = None))))"

definition schema_step ::
    "(string \<Rightarrow> string \<Rightarrow> bool) \<Rightarrow> checker \<Rightarrow> json_value \<Rightarrow> nat \<Rightarrow> json_value \<Rightarrow> json_value \<Rightarrow> string \<Rightarrow> bool
     \<Rightarrow> (fail, unit) result" where
  "schema_step num_eq ok doc depth schema inst ptr strict =
     (case get_str ''$ref'' schema of
        Some rel \<Rightarrow> check_ref ok doc depth schema rel inst ptr strict
      | None \<Rightarrow>
          result_bind (check_values num_eq schema inst ptr) (\<lambda>_.
          case (if inst = Null then check_null schema ptr else None) of
            Some r \<Rightarrow> r
          | None \<Rightarrow> check_plain ok doc depth schema inst ptr strict))"

primrec schema_ok ::
    "(string \<Rightarrow> string \<Rightarrow> bool) \<Rightarrow> json_value \<Rightarrow> nat \<Rightarrow> checker" where
  "schema_ok num_eq doc 0 = (\<lambda>schema inst ptr strict. fail_at ptr ''depth'')"
| "schema_ok num_eq doc (Suc d) = schema_step num_eq (schema_ok num_eq doc d) doc (Suc d)"

section \<open>What an accepted object holds\<close>

lemma each_ok_Ok [simp]: "each_ok f xs = Ok u \<longleftrightarrow> (\<forall>x \<in> set xs. f x = Ok ())"
  by (induction xs) auto

lemma each_ok_Err: "each_ok f xs = Err e \<Longrightarrow> \<exists>x \<in> set xs. f x = Err e"
  by (induction xs) (auto simp: result_bind_def split: sum.splits)

lemma is_ok_iff: "is_ok (r :: ('e, unit) result) \<longleftrightarrow> r = Ok ()"
  by (cases r) (auto simp: is_ok_def)

text \<open>No member beyond the collected names is welcome: \<open>additionalProperties\<close> is absent or false
  here and not true in any schema that \<open>allOf\<close> or \<open>$ref\<close> brings in.\<close>

definition no_additional :: "json_value \<Rightarrow> nat \<Rightarrow> json_value \<Rightarrow> bool" where
  "no_additional doc d schema \<longleftrightarrow>
     \<not> composition_allows_additional doc d schema
     \<and> (json_get ''additionalProperties'' schema = None
        \<or> json_get ''additionalProperties'' schema = Some (Bool False))"

text \<open>An object can pass the \<open>type\<close> part of the schema only through \<open>check_object\<close>.\<close>

definition object_checked :: "json_value \<Rightarrow> bool" where
  "object_checked schema =
     (case json_get ''type'' schema of
        Some (String t) \<Rightarrow> t = ''object''
      | Some (Array types) \<Rightarrow>
          list_all (\<lambda>t. t \<in> set [''null'', ''boolean'', ''string'', ''integer'', ''number'', ''array'', ''object''])
            (List.map_filter as_str types)
      | None \<Rightarrow> json_get ''properties'' schema \<noteq> None \<or> json_get ''required'' schema \<noteq> None
      | _ \<Rightarrow> False)"

primrec closed_schema :: "json_value \<Rightarrow> nat \<Rightarrow> json_value \<Rightarrow> bool" where
  "closed_schema doc 0 = (\<lambda>schema. True)"
| "closed_schema doc (Suc d) =
     (\<lambda>schema. case get_str ''$ref'' schema of
        Some rel \<Rightarrow>
          if has_siblings schema then no_additional doc (Suc d) schema
          else (case json_pointer doc rel of Some target \<Rightarrow> closed_schema doc d target | None \<Rightarrow> True)
      | None \<Rightarrow>
          no_additional doc (Suc d) schema
          \<and> (get_array ''allOf'' schema \<noteq> None
             \<or> json_get ''allOf'' schema = None \<and> object_checked schema))"

lemma deny_undeclared_keys:
  assumes "deny_undeclared ok doc d schema ms ptr True = Ok ()" and "no_additional doc d schema"
    and "(k, v) \<in> set ms"
  shows "k \<in> set (collect_property_names doc d schema)"
  using assms
  by (auto simp: deny_undeclared_def no_additional_def Let_def split: if_splits option.splits)

lemma check_object_keys:
  assumes "check_object ok schema (Object ms) ptr True = Ok ()"
    and "json_get ''additionalProperties'' schema \<in> {None, Some (Bool False)}" and "(k, v) \<in> set ms"
  obtains sub where "Option.bind (get_object ''properties'' schema) (\<lambda>props. map_of props k) = Some sub"
    and "ok sub v (child_pointer ptr k) True = Ok ()"
proof -
  have "check_member ok schema ptr True (k, v) = Ok ()"
    using assms(1,3) by (auto simp: check_object_def)
  with assms(2) show ?thesis
    by (auto simp: check_member_def Let_def intro: that split: option.splits if_splits)
qed

lemma declared_collected:
  assumes "Option.bind (get_object ''properties'' schema) (\<lambda>props. map_of props k) = Some sub"
  shows "k \<in> set (collect_property_names doc (Suc d) schema)"
proof -
  from assms obtain props where props: "get_object ''properties'' schema = Some props" "map_of props k = Some sub"
    by (auto simp: bind_eq_Some_conv)
  then have "k \<in> fst ` set props" by (force dest: map_of_SomeD)
  with props(1) show ?thesis by simp
qed

lemma object_checked_types:
  assumes "check_types ok schema (Object ms) ptr st = Ok ()" and "object_checked schema"
  shows "check_object ok schema (Object ms) ptr st = Ok ()"
proof -
  have known: "check_object ok schema (Object ms) ptr st = Ok ()"
    if "check_type ok schema t (Object ms) ptr st = Ok ()"
      and "t \<in> set [''null'', ''boolean'', ''string'', ''integer'', ''number'', ''array'', ''object'']" for t
    using that by (simp add: check_type_def check_array_def split: if_splits)
  have obj: "check_type ok schema ''object'' (Object ms) ptr st = check_object ok schema (Object ms) ptr st"
    by (simp add: check_type_def)
  show ?thesis
  proof (cases "json_get ''type'' schema")
    case None
    with assms obj show ?thesis by (auto simp: check_types_def object_checked_def)
  next
    case (Some ty)
    show ?thesis
    proof (cases ty)
      case (String t)
      with Some assms obj show ?thesis by (simp add: check_types_def object_checked_def)
    next
      case (Array types)
      with Some assms obtain t where "t \<in> set (List.map_filter as_str types)"
        "check_type ok schema t (Object ms) ptr st = Ok ()"
        by (auto simp: check_types_def is_ok_iff list_ex_iff split: if_splits)
      moreover have "t \<in> set [''null'', ''boolean'', ''string'', ''integer'', ''number'', ''array'', ''object'']"
        using Some Array assms(2) calculation(1) unfolding object_checked_def list_all_iff by fastforce
      ultimately show ?thesis by (intro known)
    qed (use Some assms in \<open>simp_all add: object_checked_def\<close>)
  qed
qed

lemma plain_keys:
  assumes "check_plain ok doc (Suc d) schema (Object ms) ptr True = Ok ()"
    and "no_additional doc (Suc d) schema" and "(k, v) \<in> set ms"
    and "get_array ''allOf'' schema \<noteq> None \<or> json_get ''allOf'' schema = None \<and> object_checked schema"
  shows "k \<in> set (collect_property_names doc (Suc d) schema)"
proof (cases "get_array ''allOf'' schema")
  case (Some subs)
  with assms(1) have "deny_undeclared ok doc (Suc d) schema ms ptr True = Ok ()"
    by (simp add: check_plain_def check_all_of_def)
  with assms(2,3) show ?thesis by (rule deny_undeclared_keys [rotated])
next
  case None
  with assms(1,4) have "check_object ok schema (Object ms) ptr True = Ok ()"
    by (auto simp: check_plain_def intro: object_checked_types)
  moreover have "json_get ''additionalProperties'' schema \<in> {None, Some (Bool False)}"
    using assms(2) by (auto simp: no_additional_def)
  ultimately show ?thesis
    using assms(3) by (rule check_object_keys) (rule declared_collected)
qed

lemma strict_keys_declared:
  assumes "schema_ok num_eq doc d schema (Object ms) ptr True = Ok ()" and "closed_schema doc d schema"
    and "(k, v) \<in> set ms"
  shows "k \<in> set (collect_property_names doc d schema)"
  using assms
proof (induction d arbitrary: schema)
  case (Suc d)
  show ?case
  proof (cases "get_str ''$ref'' schema")
    case None
    with Suc.prems have "check_plain (schema_ok num_eq doc d) doc (Suc d) schema (Object ms) ptr True = Ok ()"
      by (simp add: schema_step_def)
    with None Suc.prems show ?thesis
      by (intro plain_keys [of "schema_ok num_eq doc d"]) auto
  next
    case (Some rel)
    show ?thesis
    proof (cases "has_siblings schema")
      case True
      with Some Suc.prems have "deny_undeclared (schema_ok num_eq doc d) doc (Suc d) schema ms ptr True = Ok ()"
        by (auto simp: schema_step_def check_ref_def split: option.splits)
      moreover have "no_additional doc (Suc d) schema" using True Some Suc.prems(2) by simp
      ultimately show ?thesis using Suc.prems(3) by (rule deny_undeclared_keys)
    next
      case False
      with Some Suc.prems obtain target where t: "json_pointer doc rel = Some target"
        "schema_ok num_eq doc d target (Object ms) ptr True = Ok ()"
        by (auto simp: schema_step_def check_ref_def split: option.splits)
      with False Some Suc.prems(2) have "closed_schema doc d target" by simp
      with t Suc.prems(3) have "k \<in> set (collect_property_names doc d target)" by (intro Suc.IH)
      with Some t(1) show ?thesis by simp
    qed
  qed
qed simp

section \<open>What a failure names\<close>

text \<open>The JSON pointers of the places of a value, relative to it.\<close>

inductive value_path :: "json_value \<Rightarrow> string \<Rightarrow> bool" where
  here: "value_path v []"
| member: "(k, v) \<in> set ms \<Longrightarrow> value_path v q \<Longrightarrow> value_path (Object ms) (''/'' @ json_pointer_escape k @ q)"
| item: "i < length vs \<Longrightarrow> value_path (vs ! i) q \<Longrightarrow> value_path (Array vs) (''/'' @ nat_to_string i @ q)"

fun strings_in :: "json_value \<Rightarrow> string set" where
  "strings_in (String s) = {s}"
| "strings_in (Array vs) = (\<Union>v \<in> set vs. strings_in v)"
| "strings_in (Object ms) = (\<Union>m \<in> set ms. strings_in (snd m))"
| "strings_in _ = {}"

definition fail_reasons :: "string set" where
  "fail_reasons = {''depth'', ''ref'', ''enum'', ''type'', ''anyOf'', ''oneOf'', ''additionalProperties'', ''required''}"

text \<open>A failure names a place of the instance, or below one a required name that is a string of
  the given set.\<close>

definition names_place :: "string set \<Rightarrow> json_value \<Rightarrow> string \<Rightarrow> fail \<Rightarrow> bool" where
  "names_place W v ptr f \<longleftrightarrow>
     reason f \<in> fail_reasons
     \<and> (\<exists>q. value_path v q
            \<and> (pointer f = ptr @ q
               \<or> (\<exists>name \<in> W. pointer f = ptr @ q @ ''/'' @ json_pointer_escape name)))"

lemma names_here: "r \<in> fail_reasons \<Longrightarrow> names_place W v ptr \<lparr>pointer = ptr, reason = r\<rparr>"
  unfolding names_place_def using value_path.here by fastforce

lemma names_mono: "names_place W v ptr f \<Longrightarrow> W \<subseteq> W' \<Longrightarrow> names_place W' v ptr f"
  unfolding names_place_def by blast

lemma names_member:
  assumes "names_place W v (child_pointer ptr k) f" and "(k, v) \<in> set ms"
  shows "names_place W (Object ms) ptr f"
  using assms unfolding names_place_def child_pointer_def
  by (metis append.assoc value_path.member)

lemma names_item:
  assumes "names_place W (vs ! i) (ptr @ ''/'' @ nat_to_string i) f" and "i < length vs"
  shows "names_place W (Array vs) ptr f"
  using assms unfolding names_place_def
  by (metis append.assoc value_path.item)

lemma names_required:
  "name \<in> W \<Longrightarrow> names_place W v ptr \<lparr>pointer = child_pointer ptr name, reason = ''required''\<rparr>"
  unfolding names_place_def child_pointer_def fail_reasons_def using value_path.here by fastforce

lemma strings_get: "json_get k v = Some w \<Longrightarrow> strings_in w \<subseteq> strings_in v"
  by (cases v) (force dest: map_of_SomeD)+

lemma strings_array: "as_array v = Some ws \<Longrightarrow> w \<in> set ws \<Longrightarrow> strings_in w \<subseteq> strings_in v"
  by (cases v) auto

lemma strings_get_array: "get_array k v = Some ws \<Longrightarrow> w \<in> set ws \<Longrightarrow> strings_in w \<subseteq> strings_in v"
  unfolding get_array_def bind_eq_Some_conv using strings_get strings_array by blast

lemma strings_get_object: "get_object k v = Some ms \<Longrightarrow> map_of ms j = Some w \<Longrightarrow> strings_in w \<subseteq> strings_in v"
proof -
  assume "get_object k v = Some ms" and w: "map_of ms j = Some w"
  then have "json_get k v = Some (Object ms)"
    by (auto simp: get_object_def bind_eq_Some_conv elim!: as_object.elims)
  moreover have "json_get j (Object ms) = Some w" using w by simp
  ultimately show ?thesis using strings_get by (metis subset_trans)
qed

lemma strings_walk: "pointer_walk v ps = Some w \<Longrightarrow> strings_in w \<subseteq> strings_in v"
proof (induction ps arbitrary: v)
  case (Cons raw rest)
  then obtain u where u: "pointer_walk u rest = Some w" and
    "(\<exists>ms. v = Object ms \<and> map_of ms (pointer_key raw) = Some u) \<or> (\<exists>vs i. v = Array vs \<and> i < length vs \<and> u = vs ! i)"
    by (auto simp: bind_eq_Some_conv Let_def split: json_value.splits option.splits if_splits)
  then have "strings_in u \<subseteq> strings_in v"
    by (auto simp: Bex_def intro: nth_mem dest!: map_of_SomeD) (metis snd_conv, metis nth_mem)
  with Cons.IH [OF u] show ?case by blast
qed simp

lemma strings_pointer: "json_pointer doc rel = Some w \<Longrightarrow> strings_in w \<subseteq> strings_in doc"
  by (auto simp: json_pointer_def dest: strings_walk split: option.splits if_splits)

lemma if_either: "(if b then x else y) = z \<Longrightarrow> x = z \<or> y = z"
  by (cases b) simp_all

text \<open>The contract of the recursive call, and what each part of the checker makes of it.\<close>

locale place_checker =
  fixes ok :: checker and doc :: json_value
  assumes ok_place: "ok schema v ptr st = Err f \<Longrightarrow> names_place (strings_in schema \<union> strings_in doc) v ptr f"
begin

lemma ok_place_within:
  assumes "ok sub v ptr st = Err f" and "strings_in sub \<subseteq> strings_in schema \<union> strings_in doc"
  shows "names_place (strings_in schema \<union> strings_in doc) v ptr f"
  by (rule names_mono [OF ok_place [OF assms(1)]]) (use assms(2) in auto)

lemma additional_place:
  assumes "f = \<lparr>pointer = ptr, reason = ''additionalProperties''\<rparr>
     \<or> (\<exists>sub. json_get ''additionalProperties'' schema = Some sub \<and> ok sub v ptr True = Err f)"
  shows "names_place (strings_in schema \<union> strings_in doc) v ptr f"
  using assms
proof (elim disjE exE conjE)
  fix sub
  assume s: "json_get ''additionalProperties'' schema = Some sub" and e: "ok sub v ptr True = Err f"
  show ?thesis by (rule ok_place_within [OF e]) (use strings_get [OF s] in blast)
qed (simp add: names_here fail_reasons_def)

lemma array_place:
  assumes "check_array ok schema v ptr = Err f"
  shows "names_place (strings_in schema \<union> strings_in doc) v ptr f"
proof (cases "as_array v")
  case None
  with assms show ?thesis by (auto simp: check_array_def fail_reasons_def intro: names_here)
next
  case (Some items)
  then have v: "v = Array items" by (auto elim!: as_array.elims)
  from Some assms obtain s i where s: "json_get ''items'' schema = Some s" and i: "i < length items"
    and "ok s (items ! i) (ptr @ ''/'' @ nat_to_string i) True = Err f"
    by (auto simp: check_array_def in_set_enumerate_eq split: option.splits dest!: each_ok_Err)
  then have "names_place (strings_in schema \<union> strings_in doc) (items ! i) (ptr @ ''/'' @ nat_to_string i) f"
    using strings_get [OF s] by (intro ok_place_within) auto
  with i show ?thesis unfolding v by (rule names_item [rotated])
qed

lemma member_place:
  assumes "check_member ok schema ptr st (k, w) = Err f" and "(k, w) \<in> set ms"
  shows "names_place (strings_in schema \<union> strings_in doc) (Object ms) ptr f"
proof -
  have "names_place (strings_in schema \<union> strings_in doc) w (child_pointer ptr k) f"
  proof (cases "Option.bind (get_object ''properties'' schema) (\<lambda>props. map_of props k)")
    case (Some sub)
    with assms(1) have "ok sub w (child_pointer ptr k) True = Err f" by (simp add: check_member_def Let_def)
    moreover have "strings_in sub \<subseteq> strings_in schema"
      using Some unfolding bind_eq_Some_conv by (blast dest: strings_get_object)
    ultimately show ?thesis by (intro ok_place_within) auto
  next
    case None
    with assms(1) show ?thesis
      by (intro additional_place)
         (cases "json_get ''additionalProperties'' schema";
          auto simp: check_member_def Let_def split: json_value.splits if_splits)
  qed
  then show ?thesis using assms(2) by (rule names_member)
qed

lemma object_place:
  assumes "check_object ok schema v ptr st = Err f"
  shows "names_place (strings_in schema \<union> strings_in doc) v ptr f"
proof (cases "as_object v")
  case None
  with assms show ?thesis by (auto simp: check_object_def fail_reasons_def intro: names_here)
next
  case (Some ms)
  then have v: "v = Object ms" by (auto elim!: as_object.elims)
  from Some assms consider
      names name where "get_array ''required'' schema = Some names" "String name \<in> set names"
        "f = \<lparr>pointer = child_pointer ptr name, reason = ''required''\<rparr>"
    | k w where "check_member ok schema ptr st (k, w) = Err f" "(k, w) \<in> set ms"
    by (auto simp: check_object_def result_bind_def map_filter_def split: option.splits sum.splits if_splits
        elim!: as_str.elims dest!: each_ok_Err)
  then show ?thesis
  proof cases
    case 1
    then have "name \<in> strings_in schema" using strings_get_array [OF 1(1,2)] by simp
    with 1(3) show ?thesis by (simp add: names_required)
  next
    case 2
    then show ?thesis unfolding v by (rule member_place)
  qed
qed

lemma type_place:
  assumes "check_type ok schema t v ptr st = Err f"
  shows "names_place (strings_in schema \<union> strings_in doc) v ptr f"
proof -
  from assms consider "f = \<lparr>pointer = ptr, reason = ''type''\<rparr>" | "check_array ok schema v ptr = Err f"
    | "check_object ok schema v ptr st = Err f"
    unfolding check_type_def by (cases v) (auto dest!: if_either)
  then show ?thesis
    by cases (auto simp: fail_reasons_def intro: names_here array_place object_place)
qed

lemma undeclared_place:
  assumes "deny_undeclared ok doc d schema ms ptr st = Err f"
  shows "names_place (strings_in schema \<union> strings_in doc) (Object ms) ptr f"
proof -
  from assms obtain k w where kw: "(k, w) \<in> set ms" and
    "f = \<lparr>pointer = child_pointer ptr k, reason = ''additionalProperties''\<rparr>
     \<or> (\<exists>sub. json_get ''additionalProperties'' schema = Some sub \<and> ok sub w (child_pointer ptr k) True = Err f)"
    by (auto simp: deny_undeclared_def Let_def split: if_splits option.splits json_value.splits dest!: each_ok_Err)
  then have "names_place (strings_in schema \<union> strings_in doc) w (child_pointer ptr k) f"
    by (intro additional_place)
  then show ?thesis using kw by (rule names_member)
qed

lemma ref_place:
  assumes "check_ref ok doc d schema rel v ptr st = Err f"
  shows "names_place (strings_in schema \<union> strings_in doc) v ptr f"
proof (cases "json_pointer doc rel")
  case None
  with assms show ?thesis by (auto simp: check_ref_def fail_reasons_def intro: names_here)
next
  case (Some target)
  define rest where "rest = (case schema of Object ms \<Rightarrow> Object (AList.delete ''$ref'' ms) | _ \<Rightarrow> schema)"
  have rest: "strings_in rest \<subseteq> strings_in schema"
    by (auto simp: rest_def AList.delete_eq split: json_value.splits)
  from Some assms consider st' where "ok target v ptr st' = Err f" | "ok rest v ptr False = Err f"
    | ms where "v = Object ms" "deny_undeclared ok doc d schema ms ptr st = Err f"
    by (auto simp: check_ref_def rest_def result_bind_def split: if_splits sum.splits json_value.splits)
  then show ?thesis
    using strings_pointer [OF Some] rest by cases (auto intro: ok_place_within undeclared_place)
qed

lemma all_of_place:
  assumes "check_all_of ok doc d schema v ptr st = Err f"
  shows "names_place (strings_in schema \<union> strings_in doc) v ptr f"
proof -
  from assms consider subs sub where "get_array ''allOf'' schema = Some subs" "sub \<in> set subs" "ok sub v ptr False = Err f"
    | ms where "v = Object ms" "deny_undeclared ok doc d schema ms ptr st = Err f"
    by (auto simp: check_all_of_def result_bind_def split: option.splits sum.splits json_value.splits
        dest!: each_ok_Err)
  then show ?thesis
    by cases (auto intro: ok_place_within undeclared_place dest: strings_get_array)
qed

lemma types_place:
  assumes "check_types ok schema v ptr st = Err f"
  shows "names_place (strings_in schema \<union> strings_in doc) v ptr f"
proof -
  have "(\<exists>t. check_type ok schema t v ptr st = Err f) \<or> f = \<lparr>pointer = ptr, reason = ''type''\<rparr>"
  proof (cases "json_get ''type'' schema")
    case None
    with assms show ?thesis by (auto simp: check_types_def dest!: if_either)
  next
    case (Some ty)
    with assms show ?thesis by (cases ty) (auto simp: check_types_def dest!: if_either)
  qed
  then show ?thesis
    by (auto simp: fail_reasons_def intro: type_place names_here)
qed

lemma plain_place:
  assumes "check_plain ok doc d schema v ptr st = Err f"
  shows "names_place (strings_in schema \<union> strings_in doc) v ptr f"
proof -
  from assms consider "check_all_of ok doc d schema v ptr st = Err f" | "check_any_of ok schema v ptr = Err f"
    | "check_one_of ok schema v ptr = Err f" | st' where "check_types ok schema v ptr st' = Err f"
    by (auto simp: check_plain_def result_bind_def split: sum.splits)
  then show ?thesis
    by cases (auto simp: check_any_of_def check_one_of_def fail_reasons_def
        intro: all_of_place types_place names_here split: option.splits if_splits)
qed

lemma step_place:
  assumes "schema_step num_eq ok doc d schema v ptr st = Err f"
  shows "names_place (strings_in schema \<union> strings_in doc) v ptr f"
proof -
  from assms consider rel where "check_ref ok doc d schema rel v ptr st = Err f"
    | "check_values num_eq schema v ptr = Err f" | "check_null schema ptr = Some (Err f)"
    | "check_plain ok doc d schema v ptr st = Err f"
    by (auto simp: schema_step_def result_bind_def split: option.splits sum.splits if_splits)
  then show ?thesis
    by cases (auto simp: check_values_def check_null_def result_bind_def Let_def fail_reasons_def
        intro: ref_place plain_place names_here split: option.splits sum.splits if_splits)
qed

lemma step_checker: "place_checker (schema_step num_eq ok doc d) doc"
  by unfold_locales (rule step_place)

end

lemma schema_ok_place_checker: "place_checker (schema_ok num_eq doc d) doc"
proof (induction d)
  case 0
  show ?case by unfold_locales (auto simp: fail_reasons_def intro: names_here)
next
  case (Suc d)
  then show ?case by (simp add: place_checker.step_checker)
qed

interpretation schema_places: place_checker "schema_ok num_eq doc d" doc
  by (rule schema_ok_place_checker)

text \<open>The module says that a member no schema declares is refused unless \<open>additionalProperties\<close> is
  true. Under \<open>anyOf\<close> and \<open>oneOf\<close> the sub-schemas are checked without \<open>strict\<close> and nothing collects
  their names, so an undeclared member passes.\<close>

lemma any_of_lets_extra_members_through:
  "schema_ok (=) Null MAX_SCHEMA_DEPTH
     (Object [(''anyOf'', Array [Object [(''properties'', Object [(''name'', Object [(''type'', String ''string'')])]),
                                         (''type'', String ''object'')]])])
     (Object [(''is_admin'', Bool True), (''name'', String ''x'')]) [] True = Ok ()"
  by code_simp

end
