(* ===== verification/Openapi.thy ===== *)
theory Openapi
  imports Openapi_Schema Route_Path Header_Map
begin

text \<open>
  \<open>openapi.rs\<close> above the schema checker: the document is compiled when the configuration is loaded
  (\<open>compile\<close>), a request is matched to a path template and its parameters are checked
  (\<open>validate_envelope\<close>), and its body is checked once it is complete (\<open>validate_body\<close>).

  The JSON and YAML parsers, the equality of JSON numbers and floating-point numbers belong to
  \<open>serde_json\<close> and \<open>serde_yaml\<close>; they are the fields of \<open>openapi_lib\<close>. \<open>freeze\<close> follows
  references without a bound, so compiling is partial: \<open>None\<close> is a compilation that does not return.
\<close>

section \<open>Compiled form\<close>

datatype unknown_endpoint = Observe | Deny

datatype segment = Literal string | Param string

record compiled_param =
  param_name :: string
  param_required :: bool
  param_schema :: json_value

record compiled_media =
  media_pattern :: string
  media_schema :: json_value

record compiled_body =
  body_required :: bool
  body_content :: "compiled_media list"

record compiled_op =
  path_params_of :: "compiled_param list"
  query_params :: "compiled_param list"
  header_params :: "compiled_param list"
  cookie_params :: "compiled_param list"
  op_body :: "compiled_body option"

record compiled_path =
  template :: string
  segments :: "segment list"
  methods :: "(string \<times> compiled_op) list"

record compiled_spec =
  spec_doc :: json_value
  spec_paths :: "compiled_path list"
  spec_prefixes :: "string list"

record openapi_policy =
  spec :: compiled_spec
  on_unknown :: "unknown_endpoint option"

record matched_op =
  matched_template :: string
  matched_method :: string
  matched :: compiled_op
  matched_doc :: json_value

text \<open>\<open>f64_number raw\<close> is \<open>raw.parse::<f64>()\<close> followed by \<open>Number::from_f64\<close>; \<open>f64_is n x\<close> is
  \<open>n.as_f64() == Some(x)\<close>.\<close>

record openapi_lib =
  num_eq :: "string \<Rightarrow> string \<Rightarrow> bool"
  f64_number :: "string \<Rightarrow> string option"
  f64_is :: "string \<Rightarrow> string \<Rightarrow> bool"
  json_from :: "string \<Rightarrow> json_value option"
  yaml_from :: "string \<Rightarrow> json_value option"

datatype spec_error =
    NotUtf8 | InvalidJson | InvalidYaml | SwaggerTwo | UnsupportedVersion json_value | NoOpenapi | NoPaths
  | InvalidRef string | NotAbsolute | InvalidPathParam string | InvalidSegment string
  | NoParamName | NoParamIn | InvalidLocation string
  | InPath string spec_error | InOperation string string spec_error

type_synonym 'a loading = "(spec_error, 'a) result option"

definition load_bind :: "'a loading \<Rightarrow> ('a \<Rightarrow> 'b loading) \<Rightarrow> 'b loading" where
  "load_bind m f = (case m of None \<Rightarrow> None | Some (Inl e) \<Rightarrow> Some (Inl e) | Some (Inr a) \<Rightarrow> f a)"

definition load_context :: "(spec_error \<Rightarrow> spec_error) \<Rightarrow> 'a loading \<Rightarrow> 'a loading" where
  "load_context c m = map_option (map_sum c id) m"

primrec load_each :: "('a \<Rightarrow> 'b loading) \<Rightarrow> 'a list \<Rightarrow> 'b list loading" where
  "load_each f [] = Some (Ok [])"
| "load_each f (x # xs) = load_bind (f x) (\<lambda>y. load_bind (load_each f xs) (\<lambda>ys. Some (Ok (y # ys))))"

section \<open>Compiling\<close>

definition unknown_parse :: "string \<Rightarrow> unknown_endpoint option" where
  "unknown_parse raw =
     (let t = trim raw in if t = ''observe'' then Some Observe else if t = ''deny'' then Some Deny else None)"

definition openapi_parse_document :: "openapi_lib \<Rightarrow> string \<Rightarrow> (spec_error, json_value) result" where
  "openapi_parse_document lib bytes =
     (if \<not> utf8_valid bytes then Err NotUtf8
      else if starts_with (trim_start bytes) ''{'' then
        (case json_from lib bytes of Some v \<Rightarrow> Ok v | None \<Rightarrow> Err InvalidJson)
      else (case yaml_from lib bytes of Some v \<Rightarrow> Ok v | None \<Rightarrow> Err InvalidYaml))"

definition openapi_version :: "openapi_lib \<Rightarrow> json_value \<Rightarrow> (spec_error, unit) result" where
  "openapi_version lib doc =
     (if json_get ''swagger'' doc \<noteq> None \<and> json_get ''openapi'' doc = None then Err SwaggerTwo
      else case json_get ''openapi'' doc of
        None \<Rightarrow> Err NoOpenapi
      | Some v \<Rightarrow>
          if (case v of
                String raw \<Rightarrow> starts_with raw ''3.0'' \<or> starts_with raw ''3.1''
              | Number n \<Rightarrow> f64_is lib n ''3.0'' \<or> f64_is lib n ''3.1''
              | _ \<Rightarrow> False)
          then Ok () else Err (UnsupportedVersion v))"

definition server_path_prefix :: "string \<Rightarrow> string" where
  "server_path_prefix url =
     (let trimmed = trim url;
          rest = unwrap_or (opt_or (strip_prefix trimmed ''https://'') (strip_prefix trimmed ''http://'')) trimmed
      in if starts_with rest ''/''
         then rev (dropWhile (\<lambda>c. c = CHR ''/'') (rev (first_piece (CHR ''?'') rest)))
         else case find_char (CHR ''/'') rest of
                None \<Rightarrow> []
              | Some i \<Rightarrow> rev (dropWhile (\<lambda>c. c = CHR ''/'') (rev (first_piece (CHR ''?'') (drop i rest)))))"

definition add_prefix :: "string list \<Rightarrow> json_value \<Rightarrow> string list" where
  "add_prefix prefixes server =
     (case get_str ''url'' server of
        None \<Rightarrow> prefixes
      | Some url \<Rightarrow>
          (let prefix = server_path_prefix url
           in if prefix \<noteq> [] \<and> prefix \<notin> set prefixes then prefixes @ [prefix] else prefixes))"

definition server_prefixes :: "json_value \<Rightarrow> string list" where
  "server_prefixes doc =
     (case get_array ''servers'' doc of
        None \<Rightarrow> [[]]
      | Some servers \<Rightarrow> sort_key (\<lambda>p. - int (length p)) (foldl add_prefix [[]] servers))"

definition parse_segment :: "string \<Rightarrow> (spec_error, segment) result" where
  "parse_segment raw =
     (case Option.bind (strip_prefix raw ''{'') (\<lambda>s. strip_suffix s ''}'') of
        Some name \<Rightarrow>
          if name = [] \<or> CHR ''{'' \<in> set name \<or> CHR ''}'' \<in> set name \<or> CHR ''/'' \<in> set name
          then Err (InvalidPathParam raw) else Ok (Param name)
      | None \<Rightarrow> if CHR ''{'' \<in> set raw then Err (InvalidSegment raw) else Ok (Literal raw))"

definition parse_template :: "string \<Rightarrow> (spec_error, segment list) result" where
  "parse_template t =
     (if \<not> starts_with t ''/'' then Err NotAbsolute
      else collect_results parse_segment (filter (\<lambda>raw. raw \<noteq> []) (split_on (CHR ''/'') t)))"

fun is_literal :: "segment \<Rightarrow> bool" where
  "is_literal (Literal _) = True"
| "is_literal (Param _) = False"

definition literal_count :: "segment list \<Rightarrow> nat" where
  "literal_count segs = length (filter is_literal segs)"

partial_function (option) freeze :: "json_value \<Rightarrow> json_value \<Rightarrow> json_value loading" where
  [code]: "freeze doc node =
     (case get_str ''$ref'' node of
        None \<Rightarrow> Some (Ok node)
      | Some rel \<Rightarrow>
          (case json_pointer doc rel of
             None \<Rightarrow> Some (Err (InvalidRef rel))
           | Some target \<Rightarrow>
               if has_siblings node then Some (Ok node)
               else if json_get ''$ref'' target \<noteq> None then freeze doc target
               else Some (Ok target)))"

abbreviation string_schema :: json_value where
  "string_schema \<equiv> Object [(''type'', String ''string'')]"

text \<open>A parameter with its location.\<close>

type_synonym param_slot = "string \<times> compiled_param"

definition parse_param :: "json_value \<Rightarrow> json_value \<Rightarrow> param_slot loading" where
  "parse_param doc raw =
     load_bind (freeze doc raw) (\<lambda>item.
     case get_str ''name'' item of
       None \<Rightarrow> Some (Err NoParamName)
     | Some name \<Rightarrow>
         (case get_str ''in'' item of
            None \<Rightarrow> Some (Err NoParamIn)
          | Some location \<Rightarrow>
              load_bind (freeze doc (unwrap_or (json_get ''schema'' item) string_schema)) (\<lambda>schema.
              Some (Ok (location,
                \<lparr>param_name = name,
                 param_required = unwrap_or (get_bool ''required'' item) (location = ''path''),
                 param_schema = schema\<rparr>)))))"

definition parse_params :: "json_value \<Rightarrow> json_value option \<Rightarrow> param_slot list loading" where
  "parse_params doc node =
     (case Option.bind node as_array of
        None \<Rightarrow> Some (Ok [])
      | Some items \<Rightarrow> load_each (parse_param doc) items)"

definition parse_media :: "json_value \<Rightarrow> string \<times> json_value \<Rightarrow> compiled_media loading" where
  "parse_media doc = (\<lambda>(pattern, media).
     load_bind (freeze doc (unwrap_or (json_get ''schema'' media) (Object []))) (\<lambda>schema.
     Some (Ok \<lparr>media_pattern = to_ascii_lowercase pattern, media_schema = schema\<rparr>)))"

definition parse_body :: "json_value \<Rightarrow> json_value option \<Rightarrow> compiled_body option loading" where
  "parse_body doc node =
     (case node of
        None \<Rightarrow> Some (Ok None)
      | Some raw \<Rightarrow>
          load_bind (freeze doc raw) (\<lambda>body.
          let required = unwrap_or (get_bool ''required'' body) False
          in case get_object ''content'' body of
               None \<Rightarrow> Some (Ok (Some \<lparr>body_required = required, body_content = []\<rparr>))
             | Some content \<Rightarrow>
                 load_bind (load_each (parse_media doc) content) (\<lambda>medias.
                 Some (Ok (Some \<lparr>body_required = required, body_content = medias\<rparr>)))))"

fun put_slot :: "param_slot list \<Rightarrow> param_slot \<Rightarrow> param_slot list" where
  "put_slot [] extra = [extra]"
| "put_slot (slot # slots) extra =
     (if fst slot = fst extra \<and> param_name (snd slot) = param_name (snd extra) then extra # slots
      else slot # put_slot slots extra)"

definition slots_in :: "string \<Rightarrow> param_slot list \<Rightarrow> compiled_param list" where
  "slots_in location slots = map snd (filter (\<lambda>slot. fst slot = location) slots)"

fun param_segments :: "segment list \<Rightarrow> string list" where
  "param_segments [] = []"
| "param_segments (Param name # segs) = name # param_segments segs"
| "param_segments (Literal _ # segs) = param_segments segs"

definition add_path_param :: "compiled_param list \<Rightarrow> string \<Rightarrow> compiled_param list" where
  "add_path_param params name =
     (if list_ex (\<lambda>p. param_name p = name) params then params
      else params @ [\<lparr>param_name = name, param_required = True, param_schema = string_schema\<rparr>])"

definition compile_op :: "json_value \<Rightarrow> json_value \<Rightarrow> param_slot list \<Rightarrow> segment list \<Rightarrow> compiled_op loading" where
  "compile_op doc op shared segs =
     load_bind (parse_params doc (json_get ''parameters'' op)) (\<lambda>extras.
     let slots = foldl put_slot shared extras
     in case find (\<lambda>slot. fst slot \<notin> set [''path'', ''query'', ''header'', ''cookie'']) slots of
          Some slot \<Rightarrow> Some (Err (InvalidLocation (fst slot)))
        | None \<Rightarrow>
            load_bind (parse_body doc (json_get ''requestBody'' op)) (\<lambda>body.
            Some (Ok
              \<lparr>path_params_of =
                 map (\<lambda>p. p\<lparr>param_required := True\<rparr>)
                   (foldl add_path_param (slots_in ''path'' slots) (param_segments segs)),
               query_params = slots_in ''query'' slots,
               header_params = slots_in ''header'' slots,
               cookie_params = slots_in ''cookie'' slots,
               op_body = body\<rparr>)))"

definition http_methods :: "string list" where
  "http_methods = [''get'', ''put'', ''post'', ''delete'', ''options'', ''head'', ''patch'', ''trace'']"

definition compile_method ::
    "json_value \<Rightarrow> string \<Rightarrow> json_value \<Rightarrow> param_slot list \<Rightarrow> segment list \<Rightarrow> string \<Rightarrow> (string \<times> compiled_op) option loading" where
  "compile_method doc t item shared segs method =
     (case json_get method item of
        None \<Rightarrow> Some (Ok None)
      | Some raw \<Rightarrow>
          load_context (InOperation t method)
            (load_bind (freeze doc raw) (\<lambda>op.
             load_bind (compile_op doc op shared segs) (\<lambda>compiled. Some (Ok (Some (method, compiled)))))))"

definition compile_path :: "json_value \<Rightarrow> string \<times> json_value \<Rightarrow> compiled_path option loading" where
  "compile_path doc = (\<lambda>(t, raw).
     if starts_with t ''x-'' then Some (Ok None)
     else
       load_bind (load_context (InPath t) (freeze doc raw)) (\<lambda>item.
       load_bind (load_context (InPath t) (parse_params doc (json_get ''parameters'' item))) (\<lambda>shared.
       load_bind (load_context (InPath t) (Some (parse_template t))) (\<lambda>segs.
       load_bind (load_each (compile_method doc t item shared segs) http_methods) (\<lambda>found.
       let ms = List.map_filter id found
       in Some (Ok (if ms = [] then None else Some \<lparr>template = t, segments = segs, methods = ms\<rparr>)))))))"

text \<open>\<open>sort_by\<close> with two keys: a stable sort by the second, then by the first.\<close>

definition sort_paths :: "compiled_path list \<Rightarrow> compiled_path list" where
  "sort_paths ps =
     sort_key (\<lambda>p. - int (literal_count (segments p))) (sort_key (\<lambda>p. - int (length (segments p))) ps)"

definition compile :: "openapi_lib \<Rightarrow> string \<Rightarrow> compiled_spec loading" where
  "compile lib bytes =
     load_bind (Some (openapi_parse_document lib bytes)) (\<lambda>doc.
     load_bind (Some (openapi_version lib doc)) (\<lambda>_.
     case get_object ''paths'' doc of
       None \<Rightarrow> Some (Err NoPaths)
     | Some paths \<Rightarrow>
         load_bind (load_each (compile_path doc) paths) (\<lambda>compiled.
         Some (Ok \<lparr>spec_doc = doc, spec_paths = sort_paths (List.map_filter id compiled),
                   spec_prefixes = server_prefixes doc\<rparr>))))"

definition from_bytes :: "openapi_lib \<Rightarrow> string \<Rightarrow> unknown_endpoint option \<Rightarrow> openapi_policy loading" where
  "from_bytes lib bytes unknown =
     load_bind (compile lib bytes) (\<lambda>compiled. Some (Ok \<lparr>spec = compiled, on_unknown = unknown\<rparr>))"

section \<open>Matching a request\<close>

definition strip_server_prefix :: "string \<Rightarrow> string \<Rightarrow> string option" where
  "strip_server_prefix path prefix =
     (if prefix = [] then Some path
      else if path = prefix then Some ''/''
      else Option.bind (strip_prefix path prefix) (\<lambda>rest.
             if rest = [] then Some ''/'' else if starts_with rest ''/'' then Some rest else None))"

fun match_parts :: "segment list \<Rightarrow> string list \<Rightarrow> (string \<times> string) list \<Rightarrow> (string \<times> string) list option" where
  "match_parts (Literal l # segs) (part # parts) params = (if l = part then match_parts segs parts params else None)"
| "match_parts (Param name # segs) (part # parts) params = match_parts segs parts (AList.update name part params)"
| "match_parts _ _ params = Some params"

definition match_segments :: "segment list \<Rightarrow> string \<Rightarrow> (string \<times> string) list option" where
  "match_segments segs path =
     (let parts = filter (\<lambda>part. part \<noteq> []) (split_on (CHR ''/'') path)
      in if length parts \<noteq> length segs then None else match_parts segs parts [])"

text \<open>A loop that returns the first value its body yields.\<close>

primrec find_first :: "('a \<Rightarrow> 'b option) \<Rightarrow> 'a list \<Rightarrow> 'b option" where
  "find_first f [] = None"
| "find_first f (x # xs) = opt_or (f x) (find_first f xs)"

definition over_prefixes :: "compiled_spec \<Rightarrow> string \<Rightarrow> (compiled_path \<Rightarrow> string \<Rightarrow> 'b option) \<Rightarrow> 'b option" where
  "over_prefixes sp path f =
     find_first (\<lambda>prefix.
       Option.bind (strip_server_prefix path prefix) (\<lambda>stripped. find_first (\<lambda>p. f p stripped) (spec_paths sp)))
       (spec_prefixes sp)"

definition match_path ::
    "compiled_spec \<Rightarrow> string \<Rightarrow> string \<Rightarrow> (string \<times> (string \<times> string) list \<times> compiled_op) option" where
  "match_path sp path method =
     over_prefixes sp path (\<lambda>p stripped.
       Option.bind (match_segments (segments p) stripped) (\<lambda>params.
       map_option (\<lambda>op. (template p, params, op)) (map_of (methods p) method)))"

definition match_path_any_method :: "compiled_spec \<Rightarrow> string \<Rightarrow> bool" where
  "match_path_any_method sp path = (over_prefixes sp path (\<lambda>p stripped. match_segments (segments p) stripped) \<noteq> None)"

definition normalized_path :: "string \<Rightarrow> string" where
  "normalized_path path =
     (let p = first_piece (CHR ''?'') path in unwrap_or (canonical_route_path p) p)"

definition openapi_path_params :: "openapi_policy \<Rightarrow> string \<Rightarrow> (string \<times> string) list" where
  "openapi_path_params pol path =
     unwrap_or (over_prefixes (spec pol) (normalized_path path) (\<lambda>p stripped. match_segments (segments p) stripped)) []"

section \<open>Reading parameters\<close>

text \<open>\<open>String::from_utf8_lossy\<close>: each maximal ill-formed part becomes U+FFFD.\<close>

definition replacement :: string where
  "replacement = [CHR 0xEF, CHR 0xBF, CHR 0xBD]"

definition broken_length :: "string \<Rightarrow> nat" where
  "broken_length s =
     (case s of
        a # x # y # r \<Rightarrow>
          if 0xE0 \<le> byte_of a \<and> byte_of a < 0xF0 \<and> utf8_second3 a x then 2
          else if 0xF0 \<le> byte_of a \<and> byte_of a < 0xF5 \<and> utf8_second4 a x then (if utf8_cont y then 3 else 2)
          else 1
      | [a, x] \<Rightarrow>
          if 0xE0 \<le> byte_of a \<and> byte_of a < 0xF0 \<and> utf8_second3 a x
             \<or> 0xF0 \<le> byte_of a \<and> byte_of a < 0xF5 \<and> utf8_second4 a x then 2 else 1
      | _ \<Rightarrow> 1)"

lemma broken_length_pos [simp]: "0 < broken_length s"
  by (simp add: broken_length_def split: list.split)

function from_utf8_lossy :: "string \<Rightarrow> string" where
  "from_utf8_lossy s =
     (if s = [] then []
      else case utf8_step s of
             Some r \<Rightarrow> take (length s - length r) s @ from_utf8_lossy r
           | None \<Rightarrow> replacement @ from_utf8_lossy (drop (broken_length s) s))"
  by pat_completeness auto
termination
  by (relation "measure length") (auto dest: utf8_step_shorter)

declare from_utf8_lossy.simps [simp del]

fun decode_plus_bytes :: "string \<Rightarrow> string" where
  "decode_plus_bytes [] = []"
| "decode_plus_bytes (c # r) =
     (case r of
        h # l # rest \<Rightarrow>
          if c = CHR ''%'' then
            (case (hex_value h, hex_value l) of
               (Some a, Some b) \<Rightarrow> char_of (a * 16 + b) # decode_plus_bytes rest
             | _ \<Rightarrow> c # decode_plus_bytes r)
          else c # decode_plus_bytes r
      | _ \<Rightarrow> c # decode_plus_bytes r)"

definition percent_decode_plus :: "string \<Rightarrow> string" where
  "percent_decode_plus input =
     from_utf8_lossy (decode_plus_bytes (map (\<lambda>c. if c = CHR ''+'' then CHR '' '' else c) input))"

definition query_push :: "(string \<times> string list) list \<Rightarrow> string \<Rightarrow> (string \<times> string list) list" where
  "query_push m part =
     (if part = [] then m
      else let (k, v) = unwrap_or (split_once (CHR ''='') part) (part, []);
               key = percent_decode_plus k
           in AList.update key (unwrap_or (map_of m key) [] @ [percent_decode_plus v]) m)"

definition parse_query :: "string \<Rightarrow> (string \<times> string list) list" where
  "parse_query query = (if query = [] then [] else foldl query_push [] (split_on (CHR ''&'') query))"

definition header_values :: "headers \<Rightarrow> string \<Rightarrow> string list" where
  "header_values hs name = map snd (filter (\<lambda>(header, _). eq_ignore_ascii_case header name) hs)"

definition cookie_push :: "(string \<times> string) list \<Rightarrow> string \<Rightarrow> (string \<times> string) list" where
  "cookie_push m cookie =
     (case split_once (CHR ''='') (trim cookie) of
        None \<Rightarrow> m
      | Some (name, raw) \<Rightarrow> AList.update name raw m)"

definition cookie_map :: "headers \<Rightarrow> (string \<times> string) list" where
  "cookie_map hs = foldl cookie_push [] (concat (map (split_on (CHR '';'')) (header_values hs ''cookie'')))"

definition media_type_key :: "string \<Rightarrow> string" where
  "media_type_key ct = to_ascii_lowercase (trim (first_piece (CHR '';'') ct))"

definition media_matches :: "string \<Rightarrow> string \<Rightarrow> bool" where
  "media_matches pattern key =
     (pattern = ''*/*'' \<or> pattern = key
      \<or> (case strip_suffix pattern ''/*'' of Some prefix \<Rightarrow> starts_with key (prefix @ ''/'') | None \<Rightarrow> False))"

definition matching_media :: "compiled_media list \<Rightarrow> string \<Rightarrow> compiled_media option" where
  "matching_media content ct = find (\<lambda>m. media_matches (media_pattern m) (media_type_key ct)) content"

definition content_allowed :: "compiled_media list \<Rightarrow> string \<Rightarrow> bool" where
  "content_allowed content ct = (matching_media content ct \<noteq> None)"

definition is_json_media :: "string \<Rightarrow> string \<Rightarrow> bool" where
  "is_json_media pattern ct =
     (let key = media_type_key ct
      in key = ''application/json'' \<or> ends_with key ''+json'' \<or> pattern = ''application/json'' \<or> ends_with pattern ''+json'')"

section \<open>Checking a request\<close>

definition i64_text :: "int \<Rightarrow> string" where
  "i64_text n = (if n < 0 then CHR ''-'' # nat_to_string (nat (- n)) else nat_to_string (nat n))"

definition parse_bool :: "string \<Rightarrow> bool option" where
  "parse_bool raw = (if raw = ''true'' then Some True else if raw = ''false'' then Some False else None)"

text \<open>The readings of a text that the types of a schema allow, in the order the source tries them;
  \<open>Some\<close> carries the value of a type that is listed.\<close>

definition read_integer :: "string list \<Rightarrow> string \<Rightarrow> json_value option" where
  "read_integer types raw =
     (if ''integer'' \<in> set types then map_option (\<lambda>n. Number (i64_text n)) (parse_i64 raw) else None)"

definition read_number :: "openapi_lib \<Rightarrow> string list \<Rightarrow> string \<Rightarrow> json_value option" where
  "read_number lib types raw = (if ''number'' \<in> set types then map_option Number (f64_number lib raw) else None)"

definition read_boolean :: "string list \<Rightarrow> string \<Rightarrow> json_value option" where
  "read_boolean types raw = (if ''boolean'' \<in> set types then map_option Bool (parse_bool raw) else None)"

definition validate_stringy :: "openapi_lib \<Rightarrow> json_value \<Rightarrow> json_value \<Rightarrow> string \<Rightarrow> (fail, unit) result" where
  "validate_stringy lib doc node raw =
     result_bind (deref doc node MAX_REF_DEPTH) (\<lambda>schema.
     let types = type_names schema;
         ok = (\<lambda>v. schema_ok (num_eq lib) doc MAX_SCHEMA_DEPTH schema v [] True);
         refused = (\<lambda>t. t \<in> set types \<and> ''string'' \<notin> set types)
     in case read_integer types raw of
          Some v \<Rightarrow> ok v
        | None \<Rightarrow>
            if refused ''integer'' then fail_at [] ''type''
            else case read_number lib types raw of
              Some v \<Rightarrow> ok v
            | None \<Rightarrow>
                if refused ''number'' then fail_at [] ''type''
                else case read_boolean types raw of
                  Some v \<Rightarrow> ok v
                | None \<Rightarrow>
                    if refused ''boolean'' then fail_at [] ''type'' else ok (String raw))"

definition coerce_item :: "openapi_lib \<Rightarrow> json_value \<Rightarrow> json_value \<Rightarrow> string \<Rightarrow> (fail, json_value) result" where
  "coerce_item lib doc node raw =
     result_bind (deref doc node MAX_REF_DEPTH) (\<lambda>schema.
     let types = type_names schema
     in Ok (unwrap_or (opt_or (read_integer types raw) (opt_or (read_number lib types raw) (read_boolean types raw)))
              (String raw)))"

definition validate_query_values ::
    "openapi_lib \<Rightarrow> json_value \<Rightarrow> json_value \<Rightarrow> string list \<Rightarrow> (fail, unit) result" where
  "validate_query_values lib doc node vals =
     result_bind (deref doc node MAX_REF_DEPTH) (\<lambda>schema.
     if ''array'' \<in> set (type_names schema) then
       result_bind
         (collect_results (coerce_item lib doc (unwrap_or (json_get ''items'' schema) string_schema)) vals)
         (\<lambda>arr. schema_ok (num_eq lib) doc MAX_SCHEMA_DEPTH schema (Array arr) [] True)
     else each_ok (validate_stringy lib doc schema) vals)"

datatype envelope_verdict =
    EnvelopeAllow matched_op
  | EnvelopeObserve string
  | EnvelopeDeny string

datatype body_verdict = BodyAllow | BodyDeny string

definition named_pointer :: "string \<Rightarrow> string \<Rightarrow> string" where
  "named_pointer name ptr = (if ptr = [] then ''/'' @ name else if starts_with ptr ''/'' then ptr else ''/'' @ ptr)"

text \<open>The text behind method and template of a refusal, if there is one.\<close>

definition refusal :: "string \<Rightarrow> compiled_param \<Rightarrow> (fail, unit) result \<Rightarrow> string option" where
  "refusal kind param r =
     (case r of
        Inr _ \<Rightarrow> None
      | Inl f \<Rightarrow> Some (kind @ '' '' @ named_pointer (param_name param) (pointer f) @ '' '' @ reason f))"

definition absent :: "string \<Rightarrow> compiled_param \<Rightarrow> string option" where
  "absent kind param = (if param_required param then Some (kind @ '' /'' @ param_name param @ '' required'') else None)"

definition check_path_param ::
    "openapi_lib \<Rightarrow> json_value \<Rightarrow> (string \<times> string) list \<Rightarrow> compiled_param \<Rightarrow> string option" where
  "check_path_param lib doc params param =
     (case map_of params (param_name param) of
        None \<Rightarrow> Some (''path /'' @ param_name param @ '' required'')
      | Some raw \<Rightarrow> refusal ''path'' param (validate_stringy lib doc (param_schema param) raw))"

definition check_query_param ::
    "openapi_lib \<Rightarrow> json_value \<Rightarrow> (string \<times> string list) list \<Rightarrow> compiled_param \<Rightarrow> string option" where
  "check_query_param lib doc query param =
     (case map_of query (param_name param) of
        None \<Rightarrow> absent ''query'' param
      | Some vals \<Rightarrow> refusal ''query'' param (validate_query_values lib doc (param_schema param) vals))"

definition check_header_param :: "openapi_lib \<Rightarrow> json_value \<Rightarrow> headers \<Rightarrow> compiled_param \<Rightarrow> string option" where
  "check_header_param lib doc hs param =
     (let found = header_values hs (param_name param)
      in if found = [] then absent ''header'' param
         else refusal ''header'' param (validate_query_values lib doc (param_schema param) found))"

definition check_cookie_param ::
    "openapi_lib \<Rightarrow> json_value \<Rightarrow> (string \<times> string) list \<Rightarrow> compiled_param \<Rightarrow> string option" where
  "check_cookie_param lib doc cookies param =
     (case map_of cookies (param_name param) of
        None \<Rightarrow> absent ''cookie'' param
      | Some raw \<Rightarrow> refusal ''cookie'' param (validate_stringy lib doc (param_schema param) raw))"

definition unknown_action :: "openapi_policy \<Rightarrow> bool \<Rightarrow> unknown_endpoint" where
  "unknown_action pol require_complete = unwrap_or (on_unknown pol) (if require_complete then Deny else Observe)"

definition check_op ::
    "openapi_lib \<Rightarrow> json_value \<Rightarrow> compiled_op \<Rightarrow> (string \<times> string) list \<Rightarrow> string option \<Rightarrow> headers \<Rightarrow> string option
     \<Rightarrow> string option" where
  "check_op lib doc op params query hs ct =
     opt_or (find_first (check_path_param lib doc params) (path_params_of op))
    (opt_or (find_first (check_query_param lib doc (parse_query (unwrap_or query []))) (query_params op))
    (opt_or (find_first (check_header_param lib doc hs) (header_params op))
    (opt_or (find_first (check_cookie_param lib doc (cookie_map hs)) (cookie_params op))
            (case (op_body op, ct) of
               (Some body, Some c) \<Rightarrow> if content_allowed (body_content body) c then None else Some ''unknown_content_type''
             | _ \<Rightarrow> None))))"

definition validate_envelope ::
    "openapi_lib \<Rightarrow> openapi_policy \<Rightarrow> string \<Rightarrow> string \<Rightarrow> string option \<Rightarrow> headers \<Rightarrow> string option \<Rightarrow> bool
     \<Rightarrow> envelope_verdict" where
  "validate_envelope lib pol method path query hs ct require_complete =
     (let method_lc = to_ascii_lowercase method;
          normalized = normalized_path path
      in case match_path (spec pol) normalized method_lc of
           None \<Rightarrow>
             if match_path_any_method (spec pol) normalized
             then EnvelopeDeny (method @ '' '' @ normalized @ '' unknown_method'')
             else let detail = method @ '' '' @ normalized @ '' unknown_endpoint''
                  in (case unknown_action pol require_complete of
                        Deny \<Rightarrow> EnvelopeDeny detail
                      | Observe \<Rightarrow> EnvelopeObserve detail)
         | Some (t, params, op) \<Rightarrow>
             (case check_op lib (spec_doc (spec pol)) op params query hs ct of
                Some rest \<Rightarrow> EnvelopeDeny (method @ '' '' @ t @ '' '' @ rest)
              | None \<Rightarrow> EnvelopeAllow \<lparr>matched_template = t, matched_method = method_lc, matched = op,
                                      matched_doc = spec_doc (spec pol)\<rparr>))"

definition body_deny :: "matched_op \<Rightarrow> string \<Rightarrow> body_verdict" where
  "body_deny m rest = BodyDeny (to_ascii_uppercase (matched_method m) @ '' '' @ matched_template m @ '' '' @ rest)"

definition validate_body :: "openapi_lib \<Rightarrow> matched_op \<Rightarrow> string option \<Rightarrow> string \<Rightarrow> body_verdict" where
  "validate_body lib m content_type body =
     (case op_body (matched m) of
        None \<Rightarrow> BodyAllow
      | Some spec_body \<Rightarrow>
          if list_all is_ascii_whitespace body then
            (if body_required spec_body then body_deny m ''body required'' else BodyAllow)
          else case content_type of
            None \<Rightarrow> body_deny m ''unknown_content_type''
          | Some ct \<Rightarrow>
              (case matching_media (body_content spec_body) ct of
                 None \<Rightarrow> body_deny m ''unknown_content_type''
               | Some media \<Rightarrow>
                   if \<not> is_json_media (media_pattern media) ct then BodyAllow
                   else case json_from lib body of
                     None \<Rightarrow> body_deny m ''body parse''
                   | Some parsed \<Rightarrow>
                       (case schema_ok (num_eq lib) (matched_doc m) MAX_SCHEMA_DEPTH (media_schema media) parsed [] True of
                          Inl f \<Rightarrow>
                            body_deny m (''body '' @ (if pointer f = [] then ''/'' else pointer f) @ '' '' @ reason f)
                        | Inr _ \<Rightarrow> BodyAllow)))"

section \<open>Loading\<close>

lemma load_bind_simps [simp]:
  "load_bind None f = None"
  "load_bind (Some (Err e)) f = Some (Err e)"
  "load_bind (Some (Ok a)) f = f a"
  by (simp_all add: load_bind_def)

lemma load_bind_Ok: "load_bind m f = Some (Ok b) \<longleftrightarrow> (\<exists>a. m = Some (Ok a) \<and> f a = Some (Ok b))"
  by (auto simp: load_bind_def split: option.splits sum.splits)

text \<open>Two schemas that are nothing but references to each other: following them never ends.\<close>

lemma freeze_cycle_diverges:
  assumes "get_str ''$ref'' a = Some r" and "json_pointer doc r = Some b" and "\<not> has_siblings a"
    and "get_str ''$ref'' b = Some r'" and "json_pointer doc r' = Some a" and "\<not> has_siblings b"
  shows "freeze doc a = None"
proof (rule ccontr)
  have ref: "json_get ''$ref'' a \<noteq> None" "json_get ''$ref'' b \<noteq> None"
    using assms(1,4) by (auto simp: get_str_def bind_eq_Some_conv)
  have "d = doc \<longrightarrow> node \<notin> {a, b}" if "freeze d node = Some y" for d node y
    using that
  proof (rule freeze.raw_induct [of "\<lambda>d node y. d = doc \<longrightarrow> node \<notin> {a, b}", rotated], goal_cases)
    case (1 fr d n z)
    from 1(1) [of doc a z] 1(1) [of doc b z] 1(2) show ?case using ref assms by auto
  qed
  moreover assume "freeze doc a \<noteq> None"
  ultimately show False by blast
qed

section \<open>The matched template\<close>

lemma find_first_Some:
  assumes "find_first f xs = Some y"
  obtains ys x zs where "xs = ys @ x # zs" and "f x = Some y" and "\<forall>z \<in> set ys. f z = None"
proof -
  have "\<exists>ys x zs. xs = ys @ x # zs \<and> f x = Some y \<and> (\<forall>z \<in> set ys. f z = None)"
    using assms
  proof (induction xs)
    case (Cons w ws)
    show ?case
    proof (cases "f w")
      case None
      with Cons obtain ys x zs where "ws = ys @ x # zs" "f x = Some y" "\<forall>z \<in> set ys. f z = None" by auto
      with None show ?thesis by (intro exI [of _ "w # ys"]) auto
    next
      case (Some v)
      with Cons.prems show ?thesis by (intro exI [of _ "[]"]) auto
    qed
  qed simp
  then show ?thesis using that by blast
qed

lemma find_first_None: "find_first f xs = None \<longleftrightarrow> (\<forall>x \<in> set xs. f x = None)"
  by (induction xs) (auto simp: opt_or_def split: option.splits)

lemma sort_key_first_least:
  assumes "sort_key f xs = ys @ x # zs" and "y \<in> set (x # zs)"
  shows "f x \<le> f y"
proof -
  have "sorted (map f (ys @ x # zs))" using assms(1) sorted_sort_key [of f xs] by simp
  with assms(2) show ?thesis by (auto simp: sorted_append)
qed

lemma compile_sorted:
  assumes "compile lib bytes = Some (Ok sp)"
  shows "\<exists>ps. spec_paths sp = sort_paths ps" and "\<exists>qs. spec_prefixes sp = sort_key (\<lambda>p. - int (length p)) qs"
proof -
  from assms obtain doc compiled where sp: "sp = \<lparr>spec_doc = doc, spec_paths = sort_paths (List.map_filter id compiled),
      spec_prefixes = server_prefixes doc\<rparr>"
    by (auto simp: compile_def load_bind_Ok split: option.splits)
  then show "\<exists>ps. spec_paths sp = sort_paths ps" by auto
  have "\<exists>qs. server_prefixes doc = sort_key (\<lambda>p. - int (length p)) qs"
  proof (cases "get_array ''servers'' doc")
    case None
    then have "server_prefixes doc = sort_key (\<lambda>p. - int (length p)) [[]]" by (simp add: server_prefixes_def)
    then show ?thesis by blast
  qed (auto simp: server_prefixes_def)
  with sp show "\<exists>qs. spec_prefixes sp = sort_key (\<lambda>p. - int (length p)) qs" by simp
qed

text \<open>A path that answers the request: behind which prefix and with which parameters.\<close>

definition answers :: "compiled_path \<Rightarrow> string \<Rightarrow> string \<Rightarrow> string \<Rightarrow> (string \<times> string) list \<Rightarrow> compiled_op \<Rightarrow> bool" where
  "answers p prefix path method params op \<longleftrightarrow>
     (\<exists>stripped. strip_server_prefix path prefix = Some stripped
        \<and> match_segments (segments p) stripped = Some params \<and> map_of (methods p) method = Some op)"

definition more_specific :: "string \<Rightarrow> compiled_path \<Rightarrow> string \<Rightarrow> compiled_path \<Rightarrow> bool" where
  "more_specific prefix p prefix' p' \<longleftrightarrow>
     length prefix' \<le> length prefix
     \<and> (prefix' = prefix \<longrightarrow> literal_count (segments p') \<le> literal_count (segments p))"

lemma paths_first_most_literal:
  assumes "sort_paths ps = ys @ p # zs" and "p' \<in> set (p # zs)"
  shows "literal_count (segments p') \<le> literal_count (segments p)"
  using sort_key_first_least [OF assms [unfolded sort_paths_def]] by simp

text \<open>A small document: creating a pet, and reading one or the list of the new ones.\<close>

definition pets_doc :: json_value where
  "pets_doc = Object
     [(''components'', Object [(''Pet'', Object
         [(''properties'', Object [(''name'', string_schema)]), (''required'', Array [String ''name'']),
          (''type'', String ''object'')])]),
      (''openapi'', String ''3.1.0''),
      (''paths'', Object
         [(''/pets'', Object [(''post'', Object [(''requestBody'', Object [(''content'', Object
             [(''application/json'', Object [(''schema'', Object [(''$ref'', String ''#/components/Pet'')])])])])])]),
          (''/pets/new'', Object [(''get'', Object [])]),
          (''/pets/{id}'', Object [(''get'', Object [])])]),
      (''servers'', Array [Object [(''url'', String ''https://a.example/v1/'')]])]"

definition pets_lib :: openapi_lib where
  "pets_lib = \<lparr>num_eq = (=), f64_number = (\<lambda>_. None), f64_is = (\<lambda>_ _. False),
     json_from = (\<lambda>s. if s = ''{spec}'' then Some pets_doc
                       else if s = ''{pet}'' then Some (Object [(''name'', String ''rex'')])
                       else if s = ''{admin}'' then Some (Object [(''admin'', Bool True), (''name'', String ''rex'')])
                       else None),
     yaml_from = (\<lambda>_. None)\<rparr>"

definition pets_spec :: compiled_spec where
  "pets_spec = (case compile pets_lib ''{spec}'' of Some (Inr sp) \<Rightarrow> sp | _ \<Rightarrow> undefined)"

definition pets_media :: compiled_media where
  "pets_media = \<lparr>media_pattern = ''application/json'', media_schema = the (json_pointer pets_doc ''#/components/Pet'')\<rparr>"

definition pets_body :: compiled_body where
  "pets_body = \<lparr>body_required = False, body_content = [pets_media]\<rparr>"

definition pets_post :: matched_op where
  "pets_post = \<lparr>matched_template = ''/pets'', matched_method = ''post'',
     matched = \<lparr>path_params_of = [], query_params = [], header_params = [], cookie_params = [], op_body = Some pets_body\<rparr>,
     matched_doc = pets_doc\<rparr>"

lemma pets_post_allowed:
  "validate_envelope pets_lib \<lparr>spec = pets_spec, on_unknown = None\<rparr> ''POST'' ''/v1/pets'' None [] None True
   = EnvelopeAllow pets_post"
  by code_simp

text \<open>C38. A request is checked against the most specific operation. After compiling, the path that
  \<open>match_path\<close> chooses lies behind the longest server prefix behind which any path answers the
  request, and among the paths that answer behind that prefix it has the most literal segments.
\<close>

theorem template_most_specific:
  assumes "compile lib bytes = Some (Ok sp)" and "match_path sp path method = Some (t, params, op)"
  shows "\<exists>prefix \<in> set (spec_prefixes sp). \<exists>p \<in> set (spec_paths sp).
           template p = t \<and> answers p prefix path method params op
           \<and> (\<forall>prefix' \<in> set (spec_prefixes sp). \<forall>p' \<in> set (spec_paths sp). \<forall>params' op'.
                answers p' prefix' path method params' op' \<longrightarrow> more_specific prefix p prefix' p')"
proof -
  let ?f = "\<lambda>p stripped. Option.bind (match_segments (segments p) stripped) (\<lambda>params.
       map_option (\<lambda>op. (template p, params, op)) (map_of (methods p) method))"
  let ?g = "\<lambda>prefix. Option.bind (strip_server_prefix path prefix) (\<lambda>stripped. find_first (\<lambda>p. ?f p stripped) (spec_paths sp))"
  have ans: "?g prefix' \<noteq> None" if "answers p' prefix' path method params' op'" "p' \<in> set (spec_paths sp)"
    for p' prefix' params' op'
  proof -
    from that(1) obtain stripped where "strip_server_prefix path prefix' = Some stripped" "?f p' stripped \<noteq> None"
      by (auto simp: answers_def)
    moreover from this that(2) have "find_first (\<lambda>p. ?f p stripped) (spec_paths sp) \<noteq> None"
      unfolding find_first_None by (intro notI) (drule bspec [where x = p'], assumption, simp)
    ultimately show ?thesis by simp
  qed
  obtain pre prefix post where pre: "spec_prefixes sp = pre @ prefix # post" "?g prefix = Some (t, params, op)"
    "\<forall>z \<in> set pre. ?g z = None"
    using assms(2) unfolding match_path_def over_prefixes_def by (rule find_first_Some)
  then obtain stripped where st: "strip_server_prefix path prefix = Some stripped"
    "find_first (\<lambda>p. ?f p stripped) (spec_paths sp) = Some (t, params, op)"
    unfolding bind_eq_Some_conv by blast
  from st(2) obtain ys p zs where ps: "spec_paths sp = ys @ p # zs" "?f p stripped = Some (t, params, op)"
    "\<forall>z \<in> set ys. ?f z stripped = None" by (rule find_first_Some)
  have p: "template p = t" "answers p prefix path method params op"
    using ps(2) st(1) by (auto simp: answers_def bind_eq_Some_conv)
  have "more_specific prefix p prefix' p'"
    if "prefix' \<in> set (spec_prefixes sp)" "p' \<in> set (spec_paths sp)" "answers p' prefix' path method params' op'"
    for prefix' p' params' op'
  proof -
    have "prefix' \<in> set (prefix # post)" using that pre ans by fastforce
    then have "length prefix' \<le> length prefix"
      using compile_sorted(2) [OF assms(1)] pre(1) sort_key_first_least by fastforce
    moreover have "literal_count (segments p') \<le> literal_count (segments p)" if "prefix' = prefix"
    proof -
      have "?f p' stripped \<noteq> None" using that \<open>answers p' prefix' path method params' op'\<close> st(1)
        by (auto simp: answers_def)
      with ps \<open>p' \<in> set (spec_paths sp)\<close> have "p' \<in> set (p # zs)" by fastforce
      with compile_sorted(1) [OF assms(1)] ps(1) show ?thesis using paths_first_most_literal by metis
    qed
    ultimately show ?thesis by (simp add: more_specific_def)
  qed
  with pre(1) ps(1) p show ?thesis by (intro bexI [of _ prefix] bexI [of _ p]) auto
qed

theorem template_most_specific_witness:
  "compile pets_lib ''{spec}'' = Some (Ok pets_spec)
   \<and> fst (the (match_path pets_spec ''/v1/pets/new'' ''get'')) = ''/pets/new''
   \<and> (\<exists>prefix \<in> set (spec_prefixes pets_spec). \<exists>p \<in> set (spec_paths pets_spec). template p = ''/pets/new'')"
proof -
  have c: "compile pets_lib ''{spec}'' = Some (Ok pets_spec)" by code_simp
  have "map_option fst (match_path pets_spec ''/v1/pets/new'' ''get'') = Some ''/pets/new''" by code_simp
  then obtain params op where m: "match_path pets_spec ''/v1/pets/new'' ''get'' = Some (''/pets/new'', params, op)"
    by (auto simp: map_option_eq_Some)
  show ?thesis using template_most_specific [OF c m] c m by auto
qed

section \<open>The envelope\<close>

lemma refusal_None [simp]: "refusal kind p r = None \<longleftrightarrow> r = Ok ()"
  by (auto simp: refusal_def split: sum.splits)

lemma absent_None [simp]: "absent kind p = None \<longleftrightarrow> \<not> param_required p"
  by (simp add: absent_def)

lemma check_op_None:
  assumes "check_op lib doc op params query hs ct = None"
  shows "\<forall>p \<in> set (path_params_of op). \<exists>raw. map_of params (param_name p) = Some raw
           \<and> validate_stringy lib doc (param_schema p) raw = Ok ()"
    and "\<forall>p \<in> set (query_params op). case map_of (parse_query (unwrap_or query [])) (param_name p) of
           None \<Rightarrow> \<not> param_required p
         | Some vals \<Rightarrow> validate_query_values lib doc (param_schema p) vals = Ok ()"
    and "\<forall>p \<in> set (header_params op). header_values hs (param_name p) = [] \<and> \<not> param_required p
           \<or> validate_query_values lib doc (param_schema p) (header_values hs (param_name p)) = Ok ()"
    and "\<forall>p \<in> set (cookie_params op). case map_of (cookie_map hs) (param_name p) of
           None \<Rightarrow> \<not> param_required p
         | Some raw \<Rightarrow> validate_stringy lib doc (param_schema p) raw = Ok ()"
    and "op_body op = Some b \<Longrightarrow> ct = Some c \<Longrightarrow> content_allowed (body_content b) c"
proof -
  note parts = assms [unfolded check_op_def opt_or_None find_first_None]
  from parts have path: "\<forall>p \<in> set (path_params_of op). check_path_param lib doc params p = None"
    and query: "\<forall>p \<in> set (query_params op). check_query_param lib doc (parse_query (unwrap_or query [])) p = None"
    and header: "\<forall>p \<in> set (header_params op). check_header_param lib doc hs p = None"
    and cookie: "\<forall>p \<in> set (cookie_params op). check_cookie_param lib doc (cookie_map hs) p = None"
    by blast+
  show "\<forall>p \<in> set (path_params_of op). \<exists>raw. map_of params (param_name p) = Some raw
           \<and> validate_stringy lib doc (param_schema p) raw = Ok ()"
    using path by (auto simp: check_path_param_def split: option.splits)
  show "\<forall>p \<in> set (query_params op). case map_of (parse_query (unwrap_or query [])) (param_name p) of
           None \<Rightarrow> \<not> param_required p
         | Some vals \<Rightarrow> validate_query_values lib doc (param_schema p) vals = Ok ()"
    using query by (auto simp: check_query_param_def split: option.splits)
  show "\<forall>p \<in> set (header_params op). header_values hs (param_name p) = [] \<and> \<not> param_required p
           \<or> validate_query_values lib doc (param_schema p) (header_values hs (param_name p)) = Ok ()"
    using header by (auto simp: check_header_param_def Let_def split: if_splits)
  show "\<forall>p \<in> set (cookie_params op). case map_of (cookie_map hs) (param_name p) of
           None \<Rightarrow> \<not> param_required p
         | Some raw \<Rightarrow> validate_stringy lib doc (param_schema p) raw = Ok ()"
    using cookie by (auto simp: check_cookie_param_def split: option.splits)
  show "content_allowed (body_content b) c" if "op_body op = Some b" "ct = Some c"
    using parts that by (auto split: if_splits)
qed

lemma envelope_allow_checked:
  assumes "validate_envelope lib pol method path query hs ct rc = EnvelopeAllow m"
  shows "\<exists>params. match_path (spec pol) (normalized_path path) (to_ascii_lowercase method)
                 = Some (matched_template m, params, matched m)
           \<and> check_op lib (matched_doc m) (matched m) params query hs ct = None"
  using assms by (auto simp: validate_envelope_def Let_def split: option.splits if_splits unknown_endpoint.splits)

section \<open>Bodies\<close>

text \<open>C9. A body that passes has no member its schema does not declare: behind a media type that is
  validated as JSON, for a schema that is closed (an object type or \<open>allOf\<close>, \<open>additionalProperties\<close>
  nowhere true), an accepted body is JSON, and every member of an accepted object is one of the
  properties collected from the schema, its \<open>allOf\<close> parts and the references it follows.
\<close>

theorem undeclared_members_denied:
  assumes "validate_body lib m (Some ct) body = BodyAllow"
    and "op_body (matched m) = Some sb" and "\<not> list_all is_ascii_whitespace body"
    and "matching_media (body_content sb) ct = Some media" and "is_json_media (media_pattern media) ct"
    and "closed_schema (matched_doc m) MAX_SCHEMA_DEPTH (media_schema media)"
  shows "\<exists>parsed. json_from lib body = Some parsed
           \<and> (\<forall>ms k v. parsed = Object ms \<and> (k, v) \<in> set ms \<longrightarrow>
                k \<in> set (collect_property_names (matched_doc m) MAX_SCHEMA_DEPTH (media_schema media)))"
proof -
  from assms(1-5) obtain parsed where parsed: "json_from lib body = Some parsed"
    and ok: "schema_ok (num_eq lib) (matched_doc m) MAX_SCHEMA_DEPTH (media_schema media) parsed [] True = Ok ()"
    by (auto simp: validate_body_def body_deny_def split: option.splits sum.splits)
  have "k \<in> set (collect_property_names (matched_doc m) MAX_SCHEMA_DEPTH (media_schema media))"
    if "parsed = Object ms" "(k, v) \<in> set ms" for ms k v
    using strict_keys_declared [OF ok [unfolded that(1)] assms(6) that(2)] .
  with parsed show ?thesis by blast
qed

theorem undeclared_members_denied_witness:
  "\<exists>parsed. json_from pets_lib ''{pet}'' = Some parsed
     \<and> (\<forall>ms k v. parsed = Object ms \<and> (k, v) \<in> set ms \<longrightarrow> k \<in> {''name''})"
proof -
  have h: "validate_body pets_lib pets_post (Some ''application/json'') ''{pet}'' = BodyAllow"
    "op_body (matched pets_post) = Some pets_body" "\<not> list_all is_ascii_whitespace ''{pet}''"
    "matching_media (body_content pets_body) ''application/json'' = Some pets_media"
    "is_json_media (media_pattern pets_media) ''application/json''"
    "closed_schema (matched_doc pets_post) MAX_SCHEMA_DEPTH (media_schema pets_media)"
    by code_simp+
  have "collect_property_names (matched_doc pets_post) MAX_SCHEMA_DEPTH (media_schema pets_media) = [''name'']"
    by code_simp
  with undeclared_members_denied [OF h] show ?thesis by simp
qed



end
