(* ===== verification/Waf_Engine.thy ===== *)
theory Waf_Engine
  imports Site_Policy Header_Map Protocol_Matrix
begin

text \<open>
  The client of the rule engine (\<open>waf_engine.rs\<close>) and the step of the request filter that calls it
  (\<open>apply_l1\<close> in \<open>proxy.rs\<close>). The engine is a process behind a Unix socket that is not part of the
  program: a run of the exchange is a \<open>socket_script\<close>, given by the bytes that were sent. The JSON
  encoding of the question and the decoding of the answer belong to \<open>serde_json\<close> and are
  parameters. An error is one value, since every error has the same effect.

  The lemmas say that the base64 text the engine gets decodes to the body, that the ready probe of
  the start-up loop ends, and that a request passes only on an answer that allows it.
\<close>

section \<open>Settings\<close>

datatype waf_engine_kind = Native | Coraza

record waf_engine =
  engine_kind :: waf_engine_kind
  engine_socket :: string
  engine_timeout :: nat

definition DEFAULT_TIMEOUT :: nat where
  "DEFAULT_TIMEOUT = 500"

definition DEFAULT_SOCKET :: string where
  "DEFAULT_SOCKET = ''/run/coraza/waf.sock''"

definition L1_MAX_RESPONSE :: nat where
  "L1_MAX_RESPONSE = 64 * 1024"

definition engine_native :: waf_engine where
  "engine_native = \<lparr>engine_kind = Native, engine_socket = DEFAULT_SOCKET, engine_timeout = DEFAULT_TIMEOUT\<rparr>"

text \<open>\<open>None\<close> is a panic.\<close>

definition parse_engine :: "string option \<Rightarrow> waf_engine_kind option" where
  "parse_engine raw =
     (case opt_filter (\<lambda>v. v \<noteq> []) (map_option trim raw) of
        None \<Rightarrow> Some Native
      | Some v \<Rightarrow>
          (let kind = to_ascii_lowercase v
           in if kind = ''native'' then Some Native else if kind = ''coraza'' then Some Coraza else None))"

definition parse_timeout :: "string option \<Rightarrow> nat option" where
  "parse_timeout raw =
     (case opt_filter (\<lambda>v. v \<noteq> []) (map_option trim raw) of
        None \<Rightarrow> Some DEFAULT_TIMEOUT
      | Some v \<Rightarrow>
          (case parse_uint u64_max v of
             None \<Rightarrow> None
           | Some ms \<Rightarrow> if ms = 0 \<or> 30000 < ms then None else Some ms))"

definition engine_from_env :: "(string \<Rightarrow> string option) \<Rightarrow> waf_engine option" where
  "engine_from_env getenv =
     Option.bind (parse_engine (getenv ''WAF_ENGINE'')) (\<lambda>kind.
     Option.bind (parse_timeout (getenv ''WAF_SIDECAR_TIMEOUT_MS'')) (\<lambda>timeout.
     let socket = unwrap_or (opt_filter (\<lambda>v. v \<noteq> []) (map_option trim (getenv ''WAF_SIDECAR_SOCKET''))) DEFAULT_SOCKET
     in if kind = Coraza \<and> socket = [] then None
        else Some \<lparr>engine_kind = kind, engine_socket = socket, engine_timeout = timeout\<rparr>))"

definition is_coraza :: "waf_engine \<Rightarrow> bool" where
  "is_coraza e \<longleftrightarrow> engine_kind e = Coraza"

section \<open>Base64\<close>

definition b64_table :: string where
  "b64_table = ''ABCDEFGHIJKLMNOPQRSTUVWXYZabcdefghijklmnopqrstuvwxyz0123456789+/''"

definition b64_char :: "u32 \<Rightarrow> nat \<Rightarrow> char" where
  "b64_char n shift = b64_table ! unat (and (drop_bit shift n) 63)"

fun b64_encode :: "bytes \<Rightarrow> string" where
  "b64_encode (x # y # z # rest) =
     (let n = or (or (push_bit 16 (ucast x)) (push_bit 8 (ucast y))) (ucast z)
      in b64_char n 18 # b64_char n 12 # b64_char n 6 # b64_char n 0 # b64_encode rest)"
| "b64_encode [x] = (let n = push_bit 16 (ucast x) in [b64_char n 18, b64_char n 12, CHR ''='', CHR ''=''])"
| "b64_encode [x, y] =
     (let n = or (push_bit 16 (ucast x)) (push_bit 8 (ucast y))
      in [b64_char n 18, b64_char n 12, b64_char n 6, CHR ''=''])"
| "b64_encode [] = []"

section \<open>The exchange\<close>

datatype l1_verdict =
    L1Skipped
  | L1Allow "nat list" nat
  | L1Block "nat list" string nat
  | L1Unavailable

record inspect_wire =
  wire_method :: string
  wire_uri :: string
  wire_protocol :: string
  wire_headers :: headers
  body_b64 :: string
  wire_client_ip :: string
  wire_blocking :: nat
  wire_executing :: nat
  wire_threshold :: nat
  wire_exclude :: "string list"

record inspect_request =
  ins_method :: string
  ins_uri :: string
  ins_protocol :: string
  ins_headers :: headers
  ins_body :: string
  ins_client_ip :: string
  ins_policy :: l1_settings
  ins_exclude :: "string list"

record wire_response =
  wire_action :: string
  wire_rule_ids :: "nat list"
  wire_msg :: string
  wire_score :: nat

record engine_lib =
  to_vec :: "inspect_wire \<Rightarrow> string option"
  wire_from :: "string \<Rightarrow> wire_response option"
  sidecar :: "string \<Rightarrow> string \<Rightarrow> socket_script"

definition body_bytes :: "string \<Rightarrow> bytes" where
  "body_bytes s = map (\<lambda>c. of_nat (byte_of c)) s"

definition inspect_wire_of :: "inspect_request \<Rightarrow> inspect_wire" where
  "inspect_wire_of r =
     \<lparr>wire_method = ins_method r, wire_uri = ins_uri r, wire_protocol = ins_protocol r, wire_headers = ins_headers r,
      body_b64 = b64_encode (body_bytes (ins_body r)), wire_client_ip = ins_client_ip r,
      wire_blocking = blocking_paranoia (ins_policy r), wire_executing = executing_paranoia (ins_policy r),
      wire_threshold = anomaly_score_threshold (ins_policy r), wire_exclude = ins_exclude r\<rparr>"

definition sidecar_post :: "string \<Rightarrow> string \<Rightarrow> string" where
  "sidecar_post path json =
     ''POST '' @ path @ '' HTTP/1.1'' @ crlf @ ''Host: coraza'' @ crlf @ ''Content-Type: application/json'' @ crlf @
     ''Content-Length: '' @ nat_to_string (length json) @ crlf @ ''Connection: close'' @ crlf @ crlf @ json"

definition sidecar_get :: "string \<Rightarrow> string" where
  "sidecar_get path = ''GET '' @ path @ '' HTTP/1.1'' @ crlf @ ''Host: coraza'' @ crlf @ ''Connection: close'' @ crlf @ crlf"

datatype engine_error = EngineError

text \<open>\<open>try_parse_http\<close> of \<open>waf_engine.rs\<close> reads an answer like the one of \<open>authz.rs\<close>; only the
  texts of the errors differ.\<close>

definition sidecar_parse_http :: "string \<Rightarrow> (engine_error, http_response) result option" where
  "sidecar_parse_http raw = map_option (map_sum (\<lambda>_. EngineError) id) (try_parse_http raw)"

definition parse_inspect_body ::
    "(string \<Rightarrow> wire_response option) \<Rightarrow> nat \<Rightarrow> string \<Rightarrow> (engine_error, l1_verdict) result" where
  "parse_inspect_body decode code body =
     (if code \<noteq> 200 then Err EngineError
      else case decode body of
        None \<Rightarrow> Err EngineError
      | Some parsed \<Rightarrow>
          (let action = to_ascii_lowercase (wire_action parsed)
           in if action = ''allow'' then Ok (L1Allow (wire_rule_ids parsed) (wire_score parsed))
              else if action = ''deny'' then Ok (L1Block (wire_rule_ids parsed) (wire_msg parsed) (wire_score parsed))
              else Err EngineError))"

definition sidecar_answer ::
    "(string \<Rightarrow> wire_response option) \<Rightarrow> (engine_error, http_response) result \<Rightarrow> (engine_error, l1_verdict) result" where
  "sidecar_answer decode r = result_bind r (\<lambda>resp. parse_inspect_body decode (resp_status resp) (resp_body resp))"

text \<open>When no event is left the timer fires.\<close>

fun sidecar_read ::
    "(string \<Rightarrow> wire_response option) \<Rightarrow> string \<Rightarrow> Authz.read_event list \<Rightarrow> (engine_error, l1_verdict) result" where
  "sidecar_read decode buf [] = Err EngineError"
| "sidecar_read decode buf (Authz.ReadError # events) = Err EngineError"
| "sidecar_read decode buf (Authz.Eof # events) =
     (case sidecar_parse_http buf of Some r \<Rightarrow> sidecar_answer decode r | None \<Rightarrow> Err EngineError)"
| "sidecar_read decode buf (Authz.Chunk c # events) =
     (let buf' = buf @ c
      in if L1_MAX_RESPONSE < length buf' then Err EngineError
         else case sidecar_parse_http buf' of
                Some r \<Rightarrow> sidecar_answer decode r
              | None \<Rightarrow> sidecar_read decode buf' events)"

definition inspect_socket :: "engine_lib \<Rightarrow> string \<Rightarrow> inspect_request \<Rightarrow> (engine_error, l1_verdict) result" where
  "inspect_socket lib socket request =
     (case to_vec lib (inspect_wire_of request) of
        None \<Rightarrow> Err EngineError
      | Some json \<Rightarrow>
          (let script = sidecar lib socket (sidecar_post ''/inspect'' json)
           in if \<not> connects script \<or> \<not> written script then Err EngineError
              else sidecar_read (wire_from lib) [] (reads script)))"

definition engine_inspect :: "engine_lib \<Rightarrow> waf_engine \<Rightarrow> inspect_request \<Rightarrow> l1_verdict" where
  "engine_inspect lib e request =
     (if engine_kind e \<noteq> Coraza then L1Skipped
      else case inspect_socket lib (engine_socket e) request of Ok v \<Rightarrow> v | Err _ \<Rightarrow> L1Unavailable)"

definition rule_text :: "nat list \<Rightarrow> string" where
  "rule_text ids = (if ids = [] then ''unknown'' else join_with CHR '','' (map nat_to_string ids))"

definition l1_detail :: "nat list \<Rightarrow> string \<Rightarrow> nat \<Rightarrow> string" where
  "l1_detail ids message score =
     ''CRS '' @ rule_text ids @ '' score='' @ nat_to_string score @ (if message = [] then [] else '': '' @ message)"

section \<open>Waiting for the engine\<close>

text \<open>One probe: connect, ask, read until an answer is complete.\<close>

fun probe_reads :: "string \<Rightarrow> Authz.read_event list \<Rightarrow> bool" where
  "probe_reads buf [] = False"
| "probe_reads buf (Authz.ReadError # events) = False"
| "probe_reads buf (Authz.Eof # events) =
     (case sidecar_parse_http buf of Some (Inr r) \<Rightarrow> resp_status r = 200 | _ \<Rightarrow> False)"
| "probe_reads buf (Authz.Chunk c # events) =
     (let buf' = buf @ c
      in if L1_MAX_RESPONSE < length buf' then False
         else case sidecar_parse_http buf' of
                Some (Inr r) \<Rightarrow> resp_status r = 200
              | _ \<Rightarrow> probe_reads buf' events)"

definition probe_ready :: "(string \<Rightarrow> string \<Rightarrow> socket_script) \<Rightarrow> string \<Rightarrow> bool" where
  "probe_ready service socket =
     (let script = service socket (sidecar_get ''/readyz'')
      in connects script \<and> written script \<and> probe_reads [] (reads script))"

definition BOOT_WAIT :: nat where
  "BOOT_WAIT = 15000"

text \<open>The loop of \<open>boot\<close>: attempt \<open>k\<close> finds the service as \<open>service k\<close>, and \<open>clk k\<close> is the clock, in
  milliseconds, after it. The result \<open>False\<close> is the panic.\<close>

partial_function (option) boot_loop ::
    "(nat \<Rightarrow> string \<Rightarrow> string \<Rightarrow> socket_script) \<Rightarrow> (nat \<Rightarrow> nat) \<Rightarrow> nat \<Rightarrow> string \<Rightarrow> nat \<Rightarrow> bool option" where
  [code]: "boot_loop service clk deadline_at socket k =
     (if probe_ready (service k) socket then Some True
      else if deadline_at \<le> clk k then Some False
      else boot_loop service clk deadline_at socket (Suc k))"

definition engine_boot ::
    "(nat \<Rightarrow> string \<Rightarrow> string \<Rightarrow> socket_script) \<Rightarrow> (nat \<Rightarrow> nat) \<Rightarrow> nat \<Rightarrow> waf_engine \<Rightarrow> bool option" where
  "engine_boot service clk start e =
     (if engine_kind e \<noteq> Coraza then Some True
      else boot_loop service clk (start + BOOT_WAIT) (engine_socket e) 0)"

section \<open>The step of the request filter\<close>

definition adjust_l1_headers :: "headers \<Rightarrow> nat \<Rightarrow> bool \<Rightarrow> headers" where
  "adjust_l1_headers hs body_len body_is_decoded =
     (if \<not> body_is_decoded then hs
      else let own = (''content-length'', nat_to_string body_len);
               out = map (\<lambda>h. if eq_ignore_ascii_case (fst h) ''content-length'' then own else h)
                       (filter (\<lambda>h. \<not> eq_ignore_ascii_case (fst h) ''content-encoding'') hs)
           in if list_ex (\<lambda>h. eq_ignore_ascii_case (fst h) ''content-length'') hs then out else out @ [own])"

definition readable_pairs :: "headers \<Rightarrow> headers" where
  "readable_pairs hs = List.map_filter (\<lambda>h. map_option (Pair (fst h)) (value_to_str (snd h))) hs"

definition l1_header_pairs :: "headers \<Rightarrow> string \<Rightarrow> bool \<Rightarrow> headers" where
  "l1_header_pairs hs body body_is_decoded =
     adjust_l1_headers (readable_pairs (filter (\<lambda>h. \<not> eq_ignore_ascii_case (fst h) ''authorization'') hs))
       (length body) body_is_decoded"

definition http_version_token :: "http_version \<Rightarrow> string" where
  "http_version_token v =
     (if v = HTTP_10 then ''HTTP/1.0'' else if v = HTTP_2 then ''HTTP/2.0'' else ''HTTP/1.1'')"

text \<open>What the step needs of the request: \<open>l1_site\<close> is the resolved backend. \<open>json_codec\<close> is the JSON
  library with which excluded members are removed from a body.\<close>

record l1_context =
  l1_skip_body :: bool
  l1_site :: "(site_l1 \<times> route list) option"
  l1_rules :: inspection_rules
  l1_method :: string
  l1_uri :: string
  l1_version :: http_version
  l1_headers :: headers
  l1_content_type :: "string option"
  l1_client :: string

type_synonym json_codec = "(string \<Rightarrow> json_value option) \<times> (json_value \<Rightarrow> string option)"

datatype l1_event = ShadowEvent string | BlockEvent string | UnavailableEvent | OutcomeEvent bool

text \<open>The result: the step, the events recorded, and whether a block is recorded for the identity.
  \<open>None\<close> is the panic of \<open>l1_for\<close>.\<close>

type_synonym l1_step = "filter_step \<times> l1_event list \<times> bool"

definition l1_question :: "json_codec \<Rightarrow> l1_context \<Rightarrow> l1_request_policy \<Rightarrow> string \<Rightarrow> bool \<Rightarrow> inspect_request" where
  "l1_question codec ctx l1 body body_is_decoded =
     (let inspect_body = strip_excluded_body (fst codec) (snd codec) body (l1_content_type ctx) (exclude_parameters l1)
      in \<lparr>ins_method = l1_method ctx, ins_uri = strip_query_params (l1_uri ctx) (exclude_parameters l1),
          ins_protocol = http_version_token (l1_version ctx),
          ins_headers = l1_header_pairs (l1_headers ctx) inspect_body body_is_decoded,
          ins_body = inspect_body, ins_client_ip = l1_client ctx, ins_policy = l1_settings_of l1,
          ins_exclude = exclude_parameters l1\<rparr>)"

definition l1_act :: "inspection_rules \<Rightarrow> l1_settings \<Rightarrow> l1_verdict \<Rightarrow> l1_step" where
  "l1_act rules settings v =
     (case v of
        L1Skipped \<Rightarrow> (Continue, [], False)
      | L1Allow ids sc \<Rightarrow>
          (Continue, if shadow settings \<and> ids \<noteq> [] then [ShadowEvent (l1_detail ids [] sc)] else [], False)
      | L1Block ids msg sc \<Rightarrow>
          if shadow settings then (Continue, [ShadowEvent (l1_detail ids msg sc)], False)
          else (Answered 403, [BlockEvent (l1_detail ids msg sc)], True)
      | L1Unavailable \<Rightarrow>
          (case disposition rules TimedOut of
             DispositionDeny \<Rightarrow> (Answered 403, [UnavailableEvent, OutcomeEvent True], True)
           | DispositionMonitor \<Rightarrow> (Continue, [UnavailableEvent, OutcomeEvent False], False)
           | DispositionAllow \<Rightarrow> (Continue, [UnavailableEvent], False)))"

definition apply_l1 ::
    "engine_lib \<Rightarrow> json_codec \<Rightarrow> waf_engine \<Rightarrow> l1_context \<Rightarrow> string \<Rightarrow> bool \<Rightarrow> l1_step option" where
  "apply_l1 lib codec e ctx body body_is_decoded =
     (if l1_skip_body ctx \<or> \<not> is_coraza e then Some (Continue, [], False)
      else case l1_site ctx of
        None \<Rightarrow> Some (Continue, [], False)
      | Some (site_l1, routes) \<Rightarrow>
          Option.bind (l1_for site_l1 routes (l1_uri ctx) (l1_content_type ctx)) (\<lambda>l1.
          if l1_skip l1 then Some (Continue, [], False)
          else Some (l1_act (l1_rules ctx) (l1_settings_of l1)
                       (engine_inspect lib e (l1_question codec ctx l1 body body_is_decoded)))))"

section \<open>Base64 laws\<close>

text \<open>A decoder after RFC 4648, for the standard alphabet with padding.\<close>

definition b64_index :: "char \<Rightarrow> u32" where
  "b64_index c = of_nat (unwrap_or (find_char c b64_table) 0)"

fun b64_decode :: "string \<Rightarrow> bytes" where
  "b64_decode (p # q # r # s # rest) =
     (let n = or (or (or (push_bit 18 (b64_index p)) (push_bit 12 (b64_index q))) (push_bit 6 (b64_index r))) (b64_index s);
          x = ucast (drop_bit 16 n); y = ucast (drop_bit 8 n); z = ucast n
      in if r = CHR ''='' then [x] else if s = CHR ''='' then [x, y] else x # y # z # b64_decode rest)"
| "b64_decode _ = []"

lemma find_table: "i < 64 \<Longrightarrow> find_char (b64_table ! i) b64_table = Some i"
proof -
  have "list_all (\<lambda>i. find_char (b64_table ! i) b64_table = Some i) [0..<64]" by code_simp
  then show "i < 64 \<Longrightarrow> find_char (b64_table ! i) b64_table = Some i" by (simp add: list_all_iff)
qed

lemma table_not_pad: "i < 64 \<Longrightarrow> b64_table ! i \<noteq> CHR ''=''"
proof -
  have "list_all (\<lambda>i. b64_table ! i \<noteq> CHR ''='') [0..<64]" by code_simp
  then show "i < 64 \<Longrightarrow> b64_table ! i \<noteq> CHR ''=''" by (simp add: list_all_iff)
qed

lemma six_bits: "unat (and (x :: u32) 63) < 64"
proof -
  have "and x 63 \<le> 63" by (rule word_and_le1)
  then show ?thesis by (simp add: word_le_nat_alt)
qed

lemma b64_char_index [simp]: "b64_index (b64_char n k) = and (drop_bit k n) 63"
  by (simp add: b64_index_def b64_char_def find_table six_bits)

lemma b64_char_not_pad [simp]: "b64_char n k \<noteq> CHR ''=''" "CHR ''='' \<noteq> b64_char n k"
  using table_not_pad [OF six_bits] unfolding b64_char_def by metis+

lemma b64_index_pad [simp]: "b64_index CHR ''='' = 0"
  by code_simp

lemma bit_six: "bit (and (x :: u32) 63) k \<longleftrightarrow> k < 6 \<and> bit x k"
proof -
  have "and x 63 = take_bit 6 x" by (simp add: take_bit_eq_mask mask_eq_exp_minus_1)
  then show ?thesis by (simp add: bit_take_bit_iff)
qed

lemma six_join:
  fixes n :: u32
  assumes "\<And>k. bit n k \<Longrightarrow> k < 24"
  shows "or (or (or (push_bit 18 (and (drop_bit 18 n) 63)) (push_bit 12 (and (drop_bit 12 n) 63)))
             (push_bit 6 (and (drop_bit 6 n) 63))) (and (drop_bit 0 n) 63) = n"
proof (rule bit_eqI)
  fix k
  assume "possible_bit TYPE(32 word) k"
  then have k: "k < 32" by simp
  show "bit (or (or (or (push_bit 18 (and (drop_bit 18 n) 63)) (push_bit 12 (and (drop_bit 12 n) 63)))
             (push_bit 6 (and (drop_bit 6 n) 63))) (and (drop_bit 0 n) 63)) k = bit n k"
    using assms [of k] k
    by (simp only: bit_or_iff bit_push_bit_iff bit_six bit_drop_bit_eq comp_def possible_bit_word len_bit0 len_num1
        drop_bit_0 id_apply)
       (cases "k < 6"; cases "k < 12"; cases "k < 18"; auto)
qed

lemma byte_bit: "bit (b :: u8) k \<Longrightarrow> k < 8"
  using bit_imp_le_length [of b k] by simp

lemma bit_group:
  fixes x y z :: u8
  shows "bit (or (or (push_bit 16 (ucast x)) (push_bit 8 (ucast y))) (ucast z) :: u32) k \<longleftrightarrow>
     (16 \<le> k \<and> bit x (k - 16) \<or> 8 \<le> k \<and> bit y (k - 8) \<or> bit z k)"
  by (auto simp: bit_simps dest: byte_bit)

lemma group_bytes:
  fixes x y z :: u8
  defines "n \<equiv> or (or (push_bit 16 (ucast x)) (push_bit 8 (ucast y))) (ucast z) :: u32"
  shows "ucast (drop_bit 16 n) = x" and "ucast (drop_bit 8 n) = y" and "ucast n = z"
    and "bit n k \<Longrightarrow> k < 24"
proof -
  show "ucast (drop_bit 16 n) = x"
    by (rule bit_eqI) (simp only: bit_ucast_iff bit_drop_bit_eq comp_def n_def bit_group, auto dest: byte_bit)
  show "ucast (drop_bit 8 n) = y"
    by (rule bit_eqI) (simp only: bit_ucast_iff bit_drop_bit_eq comp_def n_def bit_group, auto dest: byte_bit)
  show "ucast n = z"
    by (rule bit_eqI) (simp only: bit_ucast_iff n_def bit_group, auto dest: byte_bit)
  show "bit n k \<Longrightarrow> k < 24"
    unfolding n_def bit_group by (auto dest!: byte_bit)
qed

lemma group_low:
  fixes n :: u32
  assumes "\<And>k. bit n k \<Longrightarrow> b + 6 \<le> k"
  shows "and (drop_bit b n) 63 = 0"
  by (rule bit_eqI) (use assms in \<open>fastforce simp: bit_six bit_drop_bit_eq\<close>)

lemma decode_group:
  assumes "\<And>k. bit n k \<Longrightarrow> k < 24"
  shows "b64_decode (b64_char n 18 # b64_char n 12 # b64_char n 6 # b64_char n 0 # rest)
    = ucast (drop_bit 16 n) # ucast (drop_bit 8 n) # ucast n # b64_decode rest"
  by (simp only: b64_decode.simps b64_char_index six_join [OF assms] Let_def b64_char_not_pad if_False)

lemma decode_two:
  assumes "\<And>k. bit n k \<Longrightarrow> k < 24" and "\<And>k. bit n k \<Longrightarrow> 6 \<le> k"
  shows "b64_decode [b64_char n 18, b64_char n 12, b64_char n 6, CHR ''=''] = [ucast (drop_bit 16 n), ucast (drop_bit 8 n)]"
proof -
  have "and (drop_bit 0 n) 63 = 0" by (rule group_low) (use assms(2) in simp)
  with six_join [of n, OF assms(1)] have m: "or (or (or (push_bit 18 (and (drop_bit 18 n) 63)) (push_bit 12 (and (drop_bit 12 n) 63)))
             (push_bit 6 (and (drop_bit 6 n) 63))) 0 = n" by metis
  show ?thesis
    by (simp only: b64_decode.simps b64_char_index b64_index_pad Let_def b64_char_not_pad if_False if_True simp_thms m)
qed

lemma decode_one:
  assumes "\<And>k. bit n k \<Longrightarrow> k < 24" and "\<And>k. bit n k \<Longrightarrow> 12 \<le> k"
  shows "b64_decode [b64_char n 18, b64_char n 12, CHR ''='', CHR ''=''] = [ucast (drop_bit 16 n)]"
proof -
  have "and (drop_bit 0 n) 63 = 0" "and (drop_bit 6 n) 63 = 0" by (rule group_low; use assms(2) in fastforce)+
  with six_join [of n, OF assms(1)] have m: "or (or (or (push_bit 18 (and (drop_bit 18 n) 63)) (push_bit 12 (and (drop_bit 12 n) 63)))
             (push_bit 6 0)) 0 = n" by metis
  show ?thesis
    by (simp only: b64_decode.simps b64_char_index b64_index_pad Let_def if_True simp_thms m)
qed

lemma b64_round_trip: "b64_decode (b64_encode bs) = bs"
proof (induction bs rule: b64_encode.induct)
  case (1 x y z rest)
  then show ?case
    unfolding b64_encode.simps Let_def by (simp only: decode_group [OF group_bytes(4)] group_bytes(1-3))
next
  case (2 x)
  let ?n = "push_bit 16 (ucast x) :: u32"
  have n: "or (or ?n (push_bit 8 (ucast (0 :: u8)))) (ucast (0 :: u8)) = ?n" by simp
  have "12 \<le> k" if "bit ?n k" for k using that by (simp add: bit_simps)
  with group_bytes(1,4) [of x 0 0, unfolded n] show ?case
    unfolding b64_encode.simps Let_def by (subst decode_one) auto
next
  case (3 x y)
  let ?n = "or (push_bit 16 (ucast x)) (push_bit 8 (ucast y)) :: u32"
  have n: "or ?n (ucast (0 :: u8)) = ?n" by simp
  have "6 \<le> k" if "bit ?n k" for k using that by (auto simp: bit_simps)
  with group_bytes(1,2,4) [of x y 0, unfolded n] show ?case
    unfolding b64_encode.simps Let_def by (subst decode_two) auto
qed simp

section \<open>Start-up\<close>

lemma boot_loop_returns:
  assumes "\<And>k. clk k + 200 \<le> clk (Suc k)" and "deadline_at \<le> clk k + 200 * n"
  shows "boot_loop service clk deadline_at socket k \<noteq> None"
  using assms(2)
proof (induction n arbitrary: k)
  case 0
  then show ?case by (subst boot_loop.simps) (simp del: not_None_eq)
next
  case (Suc n)
  have "deadline_at \<le> clk (Suc k) + 200 * n" using Suc.prems assms(1) [of k] by simp
  then have "boot_loop service clk deadline_at socket (Suc k) \<noteq> None" by (rule Suc.IH)
  then show ?case by (subst boot_loop.simps) (simp del: not_None_eq)
qed

text \<open>Each attempt is followed by a sleep of 200 milliseconds, so the start-up ends: the engine is
  ready, or the process panics after the wait.\<close>

lemma engine_boot_returns:
  assumes "\<And>k. clk k + 200 \<le> clk (Suc k)"
  shows "\<exists>r. engine_boot service clk start e = Some r"
proof -
  have "start + BOOT_WAIT \<le> clk 0 + 200 * (start + BOOT_WAIT)" by simp
  from boot_loop_returns [of clk, OF assms this] show ?thesis by (auto simp: engine_boot_def)
qed

lemma boot_loop_ready:
  assumes "boot_loop service clk d socket k = Some True"
  shows "\<exists>j \<ge> k. probe_ready (service j) socket"
proof -
  have "y \<longrightarrow> (\<exists>j \<ge> k. probe_ready (service j) socket)" if "boot_loop service clk d socket k = Some y" for y
    using that
  proof (rule boot_loop.raw_induct [of "\<lambda>service clk d socket k y. y \<longrightarrow> (\<exists>j \<ge> k. probe_ready (service j) socket)", rotated],
      goal_cases)
    case (1 f service clk d socket k z)
    then show ?case by (auto split: if_splits) (metis Suc_leD)
  qed
  with assms show ?thesis by blast
qed

section \<open>Requests that pass\<close>

lemma sidecar_answer_Ok:
  assumes "sidecar_parse_http raw = Some r" and "sidecar_answer decode r = Ok v"
  shows "\<exists>resp. try_parse_http raw = Some (Ok resp) \<and> parse_inspect_body decode (resp_status resp) (resp_body resp) = Ok v"
proof -
  from assms(1) obtain z where "try_parse_http raw = Some z" "r = map_sum (\<lambda>_. EngineError) id z"
    by (auto simp: sidecar_parse_http_def)
  with assms(2) show ?thesis by (cases z) (auto simp: sidecar_answer_def)
qed

lemma sidecar_read_Ok:
  assumes "sidecar_read decode buf events = Ok v"
  shows "\<exists>n resp. try_parse_http (take n (buf @ received events)) = Some (Ok resp)
           \<and> parse_inspect_body decode (resp_status resp) (resp_body resp) = Ok v"
  using assms
proof (induction decode buf events rule: sidecar_read.induct)
  case (3 decode buf events)
  then obtain r where "sidecar_parse_http buf = Some r" "sidecar_answer decode r = Ok v"
    by (auto split: option.splits)
  from sidecar_answer_Ok [OF this] show ?case by (intro exI [of _ "length buf"]) auto
next
  case (4 decode buf c events)
  show ?case
  proof (cases "sidecar_parse_http (buf @ c)")
    case None
    with 4 show ?thesis by (auto simp: Let_def split: if_splits)
  next
    case (Some r)
    with 4(2) have "sidecar_answer decode r = Ok v" by (simp add: Let_def split: if_splits)
    from sidecar_answer_Ok [OF Some this] show ?thesis by (intro exI [of _ "length (buf @ c)"]) auto
  qed
qed simp_all

text \<open>The engine got the question and its answer, read up to some point, allows it.\<close>

definition engine_allows :: "engine_lib \<Rightarrow> waf_engine \<Rightarrow> inspect_request \<Rightarrow> bool" where
  "engine_allows lib e request \<longleftrightarrow>
     (\<exists>json script n resp r.
        to_vec lib (inspect_wire_of request) = Some json
        \<and> script = sidecar lib (engine_socket e) (sidecar_post ''/inspect'' json)
        \<and> connects script \<and> written script
        \<and> try_parse_http (take n (received (reads script))) = Some (Ok resp) \<and> resp_status resp = 200
        \<and> wire_from lib (resp_body resp) = Some r \<and> to_ascii_lowercase (wire_action r) = ''allow'')"

lemma parse_inspect_allow:
  "parse_inspect_body decode code body = Ok (L1Allow ids sc) \<Longrightarrow>
   code = 200 \<and> (\<exists>r. decode body = Some r \<and> to_ascii_lowercase (wire_action r) = ''allow'')"
  by (auto simp: parse_inspect_body_def Let_def split: if_splits option.splits)

lemma engine_inspect_allow:
  assumes "engine_inspect lib e request = L1Allow ids sc"
  shows "engine_allows lib e request"
proof -
  from assms have "inspect_socket lib (engine_socket e) request = Ok (L1Allow ids sc)"
    by (auto simp: engine_inspect_def split: if_splits sum.splits)
  then obtain json where json: "to_vec lib (inspect_wire_of request) = Some json"
    and conn: "connects (sidecar lib (engine_socket e) (sidecar_post ''/inspect'' json))"
      "written (sidecar lib (engine_socket e) (sidecar_post ''/inspect'' json))"
    and read: "sidecar_read (wire_from lib) [] (reads (sidecar lib (engine_socket e) (sidecar_post ''/inspect'' json)))
      = Ok (L1Allow ids sc)"
    by (auto simp: inspect_socket_def Let_def split: option.splits if_splits)
  from sidecar_read_Ok [OF read] obtain n resp where
    "try_parse_http (take n (received (reads (sidecar lib (engine_socket e) (sidecar_post ''/inspect'' json))))) = Some (Ok resp)"
    "parse_inspect_body (wire_from lib) (resp_status resp) (resp_body resp) = Ok (L1Allow ids sc)" by auto
  with json conn parse_inspect_allow show ?thesis unfolding engine_allows_def by metis
qed

lemma l1_act_continue:
  assumes "l1_act rules settings v = (Continue, evs, recorded)" and "\<not> shadow settings" and "rules_complete rules"
  shows "v = L1Skipped \<or> (\<exists>ids sc. v = L1Allow ids sc)"
  using assms by (auto simp: l1_act_def split: l1_verdict.splits if_splits)

lemma engine_inspect_asks:
  assumes "is_coraza e"
  shows "engine_inspect lib e request \<noteq> L1Skipped"
proof
  assume "engine_inspect lib e request = L1Skipped"
  with assms have "inspect_socket lib (engine_socket e) request = Ok L1Skipped"
    by (auto simp: engine_inspect_def is_coraza_def split: sum.splits)
  then obtain events where "sidecar_read (wire_from lib) [] events = Ok L1Skipped"
    by (auto simp: inspect_socket_def Let_def split: option.splits if_splits)
  from sidecar_read_Ok [OF this] show False
    by (auto simp: parse_inspect_body_def Let_def split: if_splits option.splits)
qed

text \<open>C13. The rule engine fails closed. Where the engine is on, the body is inspected, the route is not
  excluded, the engine is not in shadow mode and the site requires complete inspection, a request
  passes only if the question reached the engine and an answer with status 200 whose action is
  \<open>allow\<close> came back; no error, timeout, refusal or unreadable answer lets it through. The body in the
  question decodes to the body of the request without the excluded parameters.\<close>

theorem l1_passes_only_on_allow:
  assumes "apply_l1 lib codec e ctx body decoded = Some (Continue, evs, recorded)"
    and "is_coraza e" and "\<not> l1_skip_body ctx" and "l1_site ctx = Some (s, routes)"
    and "l1_for s routes (l1_uri ctx) (l1_content_type ctx) = Some l1" and "\<not> l1_skip l1"
    and "\<not> shadow (l1_settings_of l1)" and "rules_complete (l1_rules ctx)"
  shows "engine_allows lib e (l1_question codec ctx l1 body decoded)
     \<and> b64_decode (body_b64 (inspect_wire_of (l1_question codec ctx l1 body decoded)))
       = body_bytes (strip_excluded_body (fst codec) (snd codec) body (l1_content_type ctx) (exclude_parameters l1))"
proof
  let ?v = "engine_inspect lib e (l1_question codec ctx l1 body decoded)"
  from assms(1-6) have "l1_act (l1_rules ctx) (l1_settings_of l1) ?v = (Continue, evs, recorded)"
    by (simp add: apply_l1_def)
  with assms(7,8) have "?v = L1Skipped \<or> (\<exists>ids sc. ?v = L1Allow ids sc)" by (intro l1_act_continue)
  with engine_inspect_asks [OF assms(2)] show "engine_allows lib e (l1_question codec ctx l1 body decoded)"
    using engine_inspect_allow by blast
qed (simp add: inspect_wire_of_def l1_question_def Let_def b64_round_trip)

definition l1_sample_engine :: waf_engine where
  "l1_sample_engine = \<lparr>engine_kind = Coraza, engine_socket = DEFAULT_SOCKET, engine_timeout = DEFAULT_TIMEOUT\<rparr>"

definition l1_sample_lib :: engine_lib where
  "l1_sample_lib = \<lparr>to_vec = (\<lambda>w. Some (body_b64 w)),
     wire_from = (\<lambda>s. if s = ''{}'' then Some \<lparr>wire_action = ''Allow'', wire_rule_ids = [], wire_msg = [], wire_score = 0\<rparr> else None),
     sidecar = (\<lambda>socket sent. \<lparr>connects = True, written = True,
        reads = [Authz.Chunk (sample_answer @ ''{}'')]\<rparr>)\<rparr>"

definition l1_sample_site :: site_l1 where
  "l1_sample_site = \<lparr>l1_site_settings = default_crs, l1_site_exclusions = []\<rparr>"

definition l1_sample_ctx :: l1_context where
  "l1_sample_ctx = \<lparr>l1_skip_body = False, l1_site = Some (l1_sample_site, []), l1_rules = fail_closed, l1_method = ''POST'',
     l1_uri = ''/a'', l1_version = HTTP_11, l1_headers = [(''host'', ''a'')], l1_content_type = None, l1_client = ''10.0.0.1''\<rparr>"

definition l1_sample_policy :: l1_request_policy where
  "l1_sample_policy = \<lparr>l1_skip = False, l1_settings_of = default_crs, exclude_parameters = []\<rparr>"

lemma l1_sample_answer: "engine_inspect l1_sample_lib l1_sample_engine request = L1Allow [] 0"
proof -
  have "sidecar_parse_http (sample_answer @ ''{}'') = Some (Ok \<lparr>resp_status = 200, resp_body = ''{}''\<rparr>)"
    by (simp add: sidecar_parse_http_def sample_answer_parsed)
  moreover have "length (sample_answer @ ''{}'') = 21" by (simp add: sample_answer_parsed)
  moreover have "to_ascii_lowercase ''Allow'' = ''allow''" by code_simp
  ultimately show ?thesis
    by (simp add: engine_inspect_def l1_sample_engine_def inspect_socket_def l1_sample_lib_def sidecar_answer_def
        parse_inspect_body_def L1_MAX_RESPONSE_def Let_def)
qed

theorem l1_passes_only_on_allow_witness:
  "engine_allows l1_sample_lib l1_sample_engine (l1_question (\<lambda>_. None, \<lambda>_. None) l1_sample_ctx l1_sample_policy ''x=1'' False)
   \<and> b64_encode (body_bytes ''x=1'') = ''eD0x''"
proof -
  have b: "is_coraza l1_sample_engine" "\<not> l1_skip_body l1_sample_ctx" "l1_site l1_sample_ctx = Some (l1_sample_site, [])"
    "l1_for l1_sample_site [] (l1_uri l1_sample_ctx) (l1_content_type l1_sample_ctx) = Some l1_sample_policy"
    "\<not> l1_skip l1_sample_policy" "\<not> shadow (l1_settings_of l1_sample_policy)" "rules_complete (l1_rules l1_sample_ctx)"
    by code_simp+
  then have "apply_l1 l1_sample_lib (\<lambda>_. None, \<lambda>_. None) l1_sample_engine l1_sample_ctx ''x=1'' False = Some (Continue, [], False)"
    by (simp add: apply_l1_def l1_sample_answer l1_act_def)
  moreover have "b64_encode (body_bytes ''x=1'') = ''eD0x''" by code_simp
  ultimately show ?thesis using l1_passes_only_on_allow [OF _ b] by blast
qed

end
