(* ===== verification/Origin.thy ===== *)
theory Origin
  imports Rust_Net Assoc_Maps
begin

text \<open>
  Origin pools, \<open>src/src/origin.rs\<close>, with the retry decision of \<open>proxy.rs\<close>: circuit breakers, origins
  marked down, the choice of an origin and its bookkeeping. A pool is a state that the operations
  change one after the other. The load balancer of \<open>pingora\<close> only runs the health checks; the
  result of a check is an input. A certificate is an opaque text, times are nanoseconds.

  The lemmas give an invariant of every pool that is used (an open circuit belongs to an origin that
  is down, so no probe is ever under way), and from it that the choice is the first origin in
  rotation that is neither tried nor down.
\<close>

declare map_of_eq_Some_iff [simp del]

section \<open>Addresses\<close>

fun to_canonical :: "ip_addr \<Rightarrow> ip_addr" where
  "to_canonical (V4 a) = V4 a"
| "to_canonical (V6 a) = (if drop_bit 32 a = 0xFFFF then V4 (ucast a) else V6 a)"

fun socket_port :: "socket_addr \<Rightarrow> u16" where
  "socket_port (SocketV4 a p) = p"
| "socket_port (SocketV6 a p f s) = p"

definition canonical_addr :: "socket_addr \<Rightarrow> socket_addr" where
  "canonical_addr addr =
     (case to_canonical (socket_ip addr) of
        V4 a \<Rightarrow> SocketV4 a (socket_port addr)
      | V6 a \<Rightarrow> SocketV6 a (socket_port addr) 0 0)"

section \<open>Circuit breakers\<close>

definition CIRCUIT_OPEN_FOR :: nat where
  "CIRCUIT_OPEN_FOR = 5 * 1000000000"

definition FAILURES_TO_OPEN :: nat where
  "FAILURES_TO_OPEN = 1"

record circuit_breaker =
  consecutive_failures :: u32
  opened_at :: "nat option"
  probing :: bool
  open_for :: nat

definition with_open_for :: "nat \<Rightarrow> circuit_breaker" where
  "with_open_for d = \<lparr>consecutive_failures = 0, opened_at = None, probing = False, open_for = d\<rparr>"

definition circuit_new :: circuit_breaker where
  "circuit_new = with_open_for CIRCUIT_OPEN_FOR"

definition allows_traffic :: "nat \<Rightarrow> circuit_breaker \<Rightarrow> bool" where
  "allows_traffic now c = (case opened_at c of None \<Rightarrow> True | Some at \<Rightarrow> open_for c \<le> now - at)"

definition circuit_can_send :: "nat \<Rightarrow> circuit_breaker \<Rightarrow> bool \<times> circuit_breaker" where
  "circuit_can_send now c =
     (case opened_at c of
        None \<Rightarrow> (True, c)
      | Some at \<Rightarrow>
          if open_for c \<le> now - at then (if probing c then (False, c) else (True, c\<lparr>probing := True\<rparr>))
          else (False, c))"

definition on_success :: "circuit_breaker \<Rightarrow> circuit_breaker" where
  "on_success c = c\<lparr>consecutive_failures := 0, probing := False, opened_at := None\<rparr>"

text \<open>\<open>fetch_add\<close> wraps; the sum behind it is checked against the threshold.\<close>

definition on_failure :: "nat \<Rightarrow> circuit_breaker \<Rightarrow> circuit_breaker" where
  "on_failure now c =
     (let failures = consecutive_failures c + 1;
          c' = c\<lparr>probing := False, consecutive_failures := failures\<rparr>
      in if FAILURES_TO_OPEN \<le> unat failures then c'\<lparr>opened_at := Some now\<rparr> else c')"

section \<open>Pools\<close>

record origin_endpoint =
  ep_addr :: socket_addr
  ep_host :: string
  ep_tls :: bool

record origin_backend =
  bk_scope :: string
  bk_addr :: socket_addr
  bk_host :: string
  bk_tls :: bool
  bk_mtls :: "string option"
  bk_origins :: "origin_endpoint list"

record picked_origin =
  picked_addr :: socket_addr
  picked_host :: string
  picked_tls :: bool
  picked_mtls :: "string option"

record site_pool =
  circuits :: "(socket_addr \<times> circuit_breaker) list"
  down :: "socket_addr list"
  cursor :: u64
  pool_mtls :: "string option"

definition is_balanced :: "origin_backend \<Rightarrow> bool" where
  "is_balanced b \<longleftrightarrow> 1 < length (bk_origins b)"

definition from_backend :: "origin_backend \<Rightarrow> picked_origin" where
  "from_backend b = \<lparr>picked_addr = bk_addr b, picked_host = bk_host b, picked_tls = bk_tls b, picked_mtls = bk_mtls b\<rparr>"

definition from_endpoint :: "origin_endpoint \<Rightarrow> string option \<Rightarrow> picked_origin" where
  "from_endpoint e m = \<lparr>picked_addr = ep_addr e, picked_host = ep_host e, picked_tls = ep_tls e, picked_mtls = m\<rparr>"

definition build_pool :: "origin_backend \<Rightarrow> site_pool" where
  "build_pool b = \<lparr>circuits = [], down = [], cursor = 0, pool_mtls = bk_mtls b\<rparr>"

definition is_down :: "site_pool \<Rightarrow> socket_addr \<Rightarrow> bool" where
  "is_down p addr \<longleftrightarrow> canonical_addr addr \<in> set (down p)"

definition circuit_allows :: "nat \<Rightarrow> site_pool \<Rightarrow> socket_addr \<Rightarrow> bool" where
  "circuit_allows now p addr = unwrap_or (map_option (allows_traffic now) (map_of (circuits p) (canonical_addr addr))) True"

definition circuit_of :: "site_pool \<Rightarrow> socket_addr \<Rightarrow> circuit_breaker" where
  "circuit_of p addr = unwrap_or (map_of (circuits p) (canonical_addr addr)) circuit_new"

definition put_circuit :: "socket_addr \<Rightarrow> circuit_breaker \<Rightarrow> site_pool \<Rightarrow> site_pool" where
  "put_circuit addr c p = p\<lparr>circuits := AList.update (canonical_addr addr) c (circuits p)\<rparr>"

definition pool_can_send :: "nat \<Rightarrow> socket_addr \<Rightarrow> site_pool \<Rightarrow> bool \<times> site_pool" where
  "pool_can_send now addr p =
     (let (ok, c) = circuit_can_send now (circuit_of p addr) in (ok, put_circuit addr c p))"

definition mark_down :: "socket_addr \<Rightarrow> site_pool \<Rightarrow> site_pool" where
  "mark_down addr p = p\<lparr>down := List.insert (canonical_addr addr) (down p)\<rparr>"

definition pool_success :: "socket_addr \<Rightarrow> site_pool \<Rightarrow> site_pool" where
  "pool_success addr p = put_circuit addr (on_success (circuit_of p addr)) p"

definition pool_failure :: "nat \<Rightarrow> socket_addr \<Rightarrow> site_pool \<Rightarrow> site_pool" where
  "pool_failure now addr p = mark_down addr (put_circuit addr (on_failure now (circuit_of p addr)) p)"

text \<open>The health check of one origin, with its result.\<close>

definition health_check :: "socket_addr \<Rightarrow> bool \<Rightarrow> site_pool \<Rightarrow> site_pool" where
  "health_check addr healthy p =
     (if healthy then pool_success addr (p\<lparr>down := removeAll (canonical_addr addr) (down p)\<rparr>)
      else mark_down addr p)"

section \<open>Choosing an origin\<close>

definition was_tried :: "socket_addr list \<Rightarrow> socket_addr \<Rightarrow> bool" where
  "was_tried tried addr = list_ex (\<lambda>t. canonical_addr t = canonical_addr addr) tried"

fun origin_loop :: "nat \<Rightarrow> socket_addr list \<Rightarrow> origin_endpoint list \<Rightarrow> site_pool \<Rightarrow> origin_endpoint option \<times> site_pool" where
  "origin_loop now tried [] p = (None, p)"
| "origin_loop now tried (o' # os) p =
     (if was_tried tried (ep_addr o') then origin_loop now tried os p
      else if is_down p (ep_addr o') then origin_loop now tried os p
      else case pool_can_send now (ep_addr o') p of
             (True, p') \<Rightarrow> (Some o', p')
           | (False, p') \<Rightarrow> origin_loop now tried os p')"

definition visiting_order :: "u64 \<Rightarrow> origin_endpoint list \<Rightarrow> origin_endpoint list" where
  "visiting_order start os = map (\<lambda>offset. os ! (unat (start + of_nat offset) mod length os)) [0..<length os]"

definition pool_pick ::
    "origin_backend \<Rightarrow> socket_addr list \<Rightarrow> nat \<Rightarrow> site_pool \<Rightarrow> picked_origin option \<times> site_pool" where
  "pool_pick b tried now p =
     (if bk_origins b = [] then (None, p)
      else let start = cursor p;
               (found, p') = origin_loop now tried (visiting_order start (bk_origins b)) (p\<lparr>cursor := start + 1\<rparr>)
           in (map_option (\<lambda>e. from_endpoint e (pool_mtls p)) found, p'))"

text \<open>The pools of all sites by scope, and the version of the policy they were built for.\<close>

record origin_pools =
  pools_version :: string
  sites :: "(string \<times> site_pool) list"

definition rebuild :: "origin_backend list \<Rightarrow> origin_pools \<Rightarrow> origin_pools" where
  "rebuild backends ps =
     ps\<lparr>sites := foldl (\<lambda>m b. AList.update (bk_scope b) (build_pool b) m) [] (filter is_balanced backends)\<rparr>"

definition pools_sync :: "string \<Rightarrow> origin_backend list \<Rightarrow> origin_pools \<Rightarrow> origin_pools" where
  "pools_sync next backends ps =
     (if pools_version ps = next then ps else (rebuild backends ps)\<lparr>pools_version := next\<rparr>)"

definition pools_pick ::
    "origin_backend \<Rightarrow> socket_addr list \<Rightarrow> nat \<Rightarrow> origin_pools \<Rightarrow> picked_origin option \<times> origin_pools" where
  "pools_pick b tried now ps =
     (if \<not> is_balanced b then (Some (from_backend b), ps)
      else case map_of (sites ps) (bk_scope b) of
        None \<Rightarrow> (None, ps)
      | Some p \<Rightarrow>
          (let (found, p') = pool_pick b tried now p
           in (found, ps\<lparr>sites := AList.update (bk_scope b) p' (sites ps)\<rparr>)))"

definition has_ready :: "origin_backend \<Rightarrow> nat \<Rightarrow> origin_pools \<Rightarrow> bool" where
  "has_ready b now ps =
     (if \<not> is_balanced b then True
      else case map_of (sites ps) (bk_scope b) of
        None \<Rightarrow> False
      | Some p \<Rightarrow> list_ex (\<lambda>e. \<not> is_down p (ep_addr e) \<and> circuit_allows now p (ep_addr e)) (bk_origins b))"

definition on_site :: "origin_backend \<Rightarrow> (site_pool \<Rightarrow> site_pool) \<Rightarrow> origin_pools \<Rightarrow> origin_pools" where
  "on_site b f ps =
     (case map_of (sites ps) (bk_scope b) of
        None \<Rightarrow> ps
      | Some p \<Rightarrow> ps\<lparr>sites := AList.update (bk_scope b) (f p) (sites ps)\<rparr>)"

definition record_success :: "origin_backend \<Rightarrow> socket_addr \<Rightarrow> origin_pools \<Rightarrow> origin_pools" where
  "record_success b addr = on_site b (pool_success addr)"

definition record_failure :: "origin_backend \<Rightarrow> socket_addr \<Rightarrow> nat \<Rightarrow> origin_pools \<Rightarrow> origin_pools" where
  "record_failure b addr now = on_site b (pool_failure now addr)"

section \<open>Retries\<close>

definition method_is_idempotent :: "string \<Rightarrow> bool" where
  "method_is_idempotent m \<longleftrightarrow> m \<in> {''GET'', ''HEAD'', ''OPTIONS''}"

definition extra_retry_budget :: "nat \<Rightarrow> bool \<Rightarrow> nat" where
  "extra_retry_budget configured balanced =
     (let capped = min configured 3 in if balanced then max capped 1 else capped)"

definition configured_extra_retries :: "(string \<Rightarrow> string option) \<Rightarrow> nat" where
  "configured_extra_retries getenv =
     min (unwrap_or (Option.bind (getenv ''MAX_UPSTREAM_RETRIES'') (parse_uint u32_max)) 0) 3"

text \<open>One request on its way to the origin. \<open>response_started\<close> and \<open>buffer_truncated\<close> are what the
  session reports at a failure.\<close>

record attempt_ctx =
  retries_done :: nat
  tried_origins :: "socket_addr list"
  selected_origin :: "socket_addr option"
  origin_host_of :: "string option"

definition should_retry_upstream ::
    "nat \<Rightarrow> bool \<Rightarrow> string \<Rightarrow> bool \<Rightarrow> bool \<Rightarrow> bool \<Rightarrow> attempt_ctx \<Rightarrow> bool" where
  "should_retry_upstream extra balanced method has_body response_started buffer_truncated ctx =
     (if extra_retry_budget extra balanced \<le> retries_done ctx then False
      else if response_started then False
      else if \<not> method_is_idempotent method then False
      else if has_body \<and> buffer_truncated then False
      else True)"

definition upstream_peer ::
    "origin_backend \<Rightarrow> nat \<Rightarrow> attempt_ctx \<Rightarrow> origin_pools \<Rightarrow> picked_origin option \<times> attempt_ctx \<times> origin_pools" where
  "upstream_peer b now ctx ps =
     (case pools_pick b (tried_origins ctx) now ps of
        (None, ps') \<Rightarrow> (None, ctx, ps')
      | (Some o', ps') \<Rightarrow>
          (Some o',
           ctx\<lparr>selected_origin := Some (picked_addr o'), origin_host_of := Some (picked_host o'),
               tried_origins := (if picked_addr o' \<in> set (tried_origins ctx) then tried_origins ctx
                                 else tried_origins ctx @ [picked_addr o'])\<rparr>,
           ps'))"

definition mark_origin_failure :: "origin_backend \<Rightarrow> nat \<Rightarrow> attempt_ctx \<Rightarrow> origin_pools \<Rightarrow> origin_pools" where
  "mark_origin_failure b now ctx ps =
     (case selected_origin ctx of None \<Rightarrow> ps | Some addr \<Rightarrow> record_failure b addr now ps)"

definition fail_to_connect ::
    "nat \<Rightarrow> string \<Rightarrow> bool \<Rightarrow> bool \<Rightarrow> bool \<Rightarrow> origin_backend \<Rightarrow> nat \<Rightarrow> attempt_ctx \<Rightarrow> origin_pools
     \<Rightarrow> bool \<times> attempt_ctx \<times> origin_pools" where
  "fail_to_connect extra method has_body response_started buffer_truncated b now ctx ps =
     (let ps' = mark_origin_failure b now ctx ps;
          retry = should_retry_upstream extra (is_balanced b) method has_body response_started buffer_truncated ctx
      in (retry, if retry then ctx\<lparr>retries_done := retries_done ctx + 1\<rparr> else ctx, ps'))"

definition mark_origin_outcome :: "origin_backend \<Rightarrow> nat \<Rightarrow> nat \<Rightarrow> attempt_ctx \<Rightarrow> origin_pools \<Rightarrow> origin_pools" where
  "mark_origin_outcome b code now ctx ps =
     (case selected_origin ctx of
        None \<Rightarrow> ps
      | Some addr \<Rightarrow> if 500 \<le> code then record_failure b addr now ps else record_success b addr ps)"

section \<open>The invariant of a pool\<close>

text \<open>No probe is under way, and an open circuit belongs to an origin that is down.\<close>

definition pool_ok :: "site_pool \<Rightarrow> bool" where
  "pool_ok p \<longleftrightarrow>
     (\<forall>a c. map_of (circuits p) a = Some c \<longrightarrow> \<not> probing c \<and> (opened_at c \<noteq> None \<longrightarrow> a \<in> set (down p)))"

lemma build_pool_ok: "pool_ok (build_pool b)"
  by (simp add: pool_ok_def build_pool_def)

lemma circuit_new_closed [simp]: "\<not> probing circuit_new" "opened_at circuit_new = None"
  by (simp_all add: circuit_new_def with_open_for_def)

lemma pool_ok_circuit:
  assumes "pool_ok p"
  shows "\<not> probing (circuit_of p addr)" and "\<not> is_down p addr \<Longrightarrow> opened_at (circuit_of p addr) = None"
  using assms by (cases "map_of (circuits p) (canonical_addr addr)";
      fastforce simp: pool_ok_def circuit_of_def is_down_def)+

lemma put_circuit_ok:
  assumes "pool_ok p" and "\<not> probing c" and "opened_at c \<noteq> None \<longrightarrow> canonical_addr addr \<in> set (down p)"
  shows "pool_ok (put_circuit addr c p)"
  using assms by (auto simp: pool_ok_def put_circuit_def update_conv' split: if_splits)

lemma mark_down_ok: "pool_ok p \<Longrightarrow> pool_ok (mark_down addr p)"
  by (auto simp: pool_ok_def mark_down_def)

lemma pool_success_ok:
  assumes "\<forall>a c. a \<noteq> canonical_addr addr \<and> map_of (circuits p) a = Some c
             \<longrightarrow> \<not> probing c \<and> (opened_at c \<noteq> None \<longrightarrow> a \<in> set (down p))"
  shows "pool_ok (pool_success addr p)"
  using assms by (auto simp: pool_ok_def pool_success_def put_circuit_def on_success_def update_conv' split: if_splits)

lemma pool_failure_ok: "pool_ok p \<Longrightarrow> pool_ok (pool_failure now addr p)"
  by (auto simp: pool_ok_def pool_failure_def put_circuit_def mark_down_def on_failure_def Let_def update_conv'
      split: if_splits)

lemma health_check_ok: "pool_ok p \<Longrightarrow> pool_ok (health_check addr healthy p)"
  by (cases healthy) (auto simp: health_check_def mark_down_ok pool_ok_def [of p] intro!: pool_success_ok)

text \<open>On a pool in order, an origin that is not down can be sent to.\<close>

lemma pool_can_send_up:
  assumes "pool_ok p" and "\<not> is_down p addr"
  shows "pool_can_send now addr p = (True, put_circuit addr (circuit_of p addr) p)"
  using pool_ok_circuit(2) [OF assms] by (simp add: pool_can_send_def circuit_can_send_def)

definition eligible :: "socket_addr list \<Rightarrow> site_pool \<Rightarrow> origin_endpoint \<Rightarrow> bool" where
  "eligible tried p e \<longleftrightarrow> \<not> was_tried tried (ep_addr e) \<and> \<not> is_down p (ep_addr e)"

lemma origin_loop_find:
  assumes "pool_ok p"
  shows "fst (origin_loop now tried os p) = find (eligible tried p) os" and "pool_ok (snd (origin_loop now tried os p))"
    and "down (snd (origin_loop now tried os p)) = down p"
    and "cursor (snd (origin_loop now tried os p)) = cursor p"
proof (induction os)
  case (Cons e os)
  { case 1 show ?case
      using Cons pool_can_send_up [OF assms] by (auto simp: eligible_def) }
  { case 2 show ?case
      using Cons pool_can_send_up [OF assms] pool_ok_circuit [OF assms] assms
      by (auto intro!: put_circuit_ok) }
  { case 3 show ?case
      using Cons pool_can_send_up [OF assms] by (auto simp: put_circuit_def) }
  { case 4 show ?case
      using Cons pool_can_send_up [OF assms] by (auto simp: put_circuit_def) }
qed (use assms in simp_all)

section \<open>Runs\<close>

datatype pool_op =
    PickOp "socket_addr list" nat
  | SuccessOp socket_addr
  | FailureOp socket_addr nat
  | HealthOp socket_addr bool

fun pool_step :: "origin_backend \<Rightarrow> site_pool \<Rightarrow> pool_op \<Rightarrow> site_pool" where
  "pool_step b p (PickOp tried now) = snd (pool_pick b tried now p)"
| "pool_step b p (SuccessOp addr) = pool_success addr p"
| "pool_step b p (FailureOp addr now) = pool_failure now addr p"
| "pool_step b p (HealthOp addr healthy) = health_check addr healthy p"

definition pool_run :: "origin_backend \<Rightarrow> pool_op list \<Rightarrow> site_pool" where
  "pool_run b ops = foldl (pool_step b) (build_pool b) ops"

lemma pool_ok_cursor [simp]: "pool_ok (p\<lparr>cursor := k\<rparr>) = pool_ok p"
  by (simp add: pool_ok_def)

lemma pool_step_ok: "pool_ok p \<Longrightarrow> pool_ok (pool_step b p op)"
proof (cases op)
  case (PickOp tried now)
  assume "pool_ok p"
  then have "pool_ok (snd (origin_loop now tried os (p\<lparr>cursor := k\<rparr>)))" for os k
    by (intro origin_loop_find(2)) simp
  with \<open>pool_ok p\<close> PickOp show ?thesis by (simp add: pool_pick_def Let_def case_prod_beta)
qed (auto intro: pool_failure_ok health_check_ok pool_success_ok simp: pool_ok_def [of p])

lemma pool_run_ok: "pool_ok (pool_run b ops)"
  unfolding pool_run_def
  by (induction ops rule: rev_induct) (auto intro: build_pool_ok pool_step_ok)

fun picks :: "pool_op list \<Rightarrow> nat" where
  "picks [] = 0"
| "picks (PickOp _ _ # ops) = Suc (picks ops)"
| "picks (_ # ops) = picks ops"

lemma pool_pick_parts:
  assumes "pool_ok p" and "bk_origins b \<noteq> []"
  shows "fst (pool_pick b tried now p)
      = map_option (\<lambda>e. from_endpoint e (pool_mtls p)) (find (eligible tried p) (visiting_order (cursor p) (bk_origins b)))"
    and "cursor (snd (pool_pick b tried now p)) = cursor p + 1"
    and "pool_mtls (snd (pool_pick b tried now p)) = pool_mtls p"
proof -
  let ?q = "p\<lparr>cursor := cursor p + 1\<rparr>"
  have q: "pool_ok ?q" using assms(1) by simp
  have e: "eligible tried ?q = eligible tried p" by (auto simp: eligible_def is_down_def)
  note parts = origin_loop_find [OF q, of now tried "visiting_order (cursor p) (bk_origins b)"]
  show "fst (pool_pick b tried now p)
      = map_option (\<lambda>e. from_endpoint e (pool_mtls p)) (find (eligible tried p) (visiting_order (cursor p) (bk_origins b)))"
    using parts(1) assms(2) by (simp add: pool_pick_def Let_def case_prod_beta e)
  show "cursor (snd (pool_pick b tried now p)) = cursor p + 1"
    using parts(4) assms(2) by (simp add: pool_pick_def Let_def case_prod_beta)
  have "pool_mtls (snd (origin_loop now tried os r)) = pool_mtls r" for os r
    by (induction now tried os r rule: origin_loop.induct)
       (auto simp: pool_can_send_def put_circuit_def case_prod_beta split: prod.splits bool.splits)
  then show "pool_mtls (snd (pool_pick b tried now p)) = pool_mtls p"
    using assms(2) by (simp add: pool_pick_def Let_def case_prod_beta)
qed

lemma step_fields:
  "cursor (pool_success addr p) = cursor p" "pool_mtls (pool_success addr p) = pool_mtls p"
  "cursor (pool_failure now addr p) = cursor p" "pool_mtls (pool_failure now addr p) = pool_mtls p"
  "cursor (health_check addr healthy p) = cursor p" "pool_mtls (health_check addr healthy p) = pool_mtls p"
  by (simp_all add: pool_success_def pool_failure_def health_check_def put_circuit_def mark_down_def)

lemma picks_append: "picks (xs @ ys) = picks xs + picks ys"
  by (induction xs rule: picks.induct) simp_all

lemma pool_run_fields:
  assumes "bk_origins b \<noteq> []"
  shows "cursor (pool_run b ops) = of_nat (picks ops) \<and> pool_mtls (pool_run b ops) = bk_mtls b"
proof (induction ops rule: rev_induct)
  case Nil
  then show ?case by (simp add: pool_run_def build_pool_def)
next
  case (snoc op ops)
  have run: "pool_run b (ops @ [op]) = pool_step b (pool_run b ops) op" for op by (simp add: pool_run_def)
  show ?case
    using snoc pool_pick_parts(2,3) [OF pool_run_ok assms]
    by (cases op) (simp_all add: run picks_append step_fields add.commute)
qed

lemma visiting_order_rotate:
  assumes "unat start + length os \<le> 2 ^ 64"
  shows "visiting_order start os = rotate (unat start) os"
proof (rule nth_equalityI)
  fix i
  assume "i < length (visiting_order start os)"
  then have i: "i < length os" by (simp add: visiting_order_def)
  with assms have "unat start + i < 2 ^ 64" by simp
  then have "unat (start + of_nat i) = unat start + i"
    by (simp add: unat_word_ariths(1) unat_of_nat)
  then show "visiting_order start os ! i = rotate (unat start) os ! i"
    using i by (simp add: visiting_order_def nth_rotate)
qed (simp add: visiting_order_def)

section \<open>The choice\<close>

text \<open>C39. Whatever a pool went through before, the choice is the first origin in rotation that this
  request has not tried and that is not down; there is none exactly when every origin was tried or is
  down. The rotation starts one further with every choice. A circuit never holds back an origin that
  is up. The hypothesis on the number of choices keeps the 64-bit cursor from wrapping.\<close>

theorem pick_first_untried_up:
  assumes "picks ops + length (bk_origins b) \<le> 2 ^ 64" and "bk_origins b \<noteq> []"
  shows "fst (pool_pick b tried now (pool_run b ops))
    = map_option (\<lambda>e. from_endpoint e (bk_mtls b))
        (find (\<lambda>e. \<not> was_tried tried (ep_addr e) \<and> \<not> is_down (pool_run b ops) (ep_addr e))
           (rotate (picks ops) (bk_origins b)))"
proof -
  from assms have "picks ops < 2 ^ 64" by (cases "bk_origins b") auto
  then have "unat (of_nat (picks ops) :: u64) = picks ops" by (simp add: unat_of_nat)
  then have "visiting_order (cursor (pool_run b ops)) (bk_origins b) = rotate (picks ops) (bk_origins b)"
    using visiting_order_rotate [of "of_nat (picks ops)" "bk_origins b"] assms pool_run_fields [OF assms(2), of ops] by simp
  with pool_pick_parts(1) [OF pool_run_ok assms(2), of tried now b ops] pool_run_fields [OF assms(2), of ops]
  show ?thesis by (simp add: eligible_def [abs_def])
qed

definition two_origins :: origin_backend where
  "two_origins = \<lparr>bk_scope = ''s'', bk_addr = SocketV4 1 80, bk_host = ''a'', bk_tls = False, bk_mtls = None,
     bk_origins = [\<lparr>ep_addr = SocketV4 1 80, ep_host = ''a'', ep_tls = False\<rparr>,
                   \<lparr>ep_addr = SocketV4 2 80, ep_host = ''b'', ep_tls = False\<rparr>]\<rparr>"

theorem pick_first_untried_up_witness:
  "fst (pool_pick two_origins [] 9 (pool_run two_origins [PickOp [] 0, FailureOp (SocketV4 2 80) 1]))
   = Some \<lparr>picked_addr = SocketV4 1 80, picked_host = ''a'', picked_tls = False, picked_mtls = None\<rparr>"
proof -
  let ?ops = "[PickOp [] 0, FailureOp (SocketV4 2 80) 1]"
  have h: "picks ?ops + length (bk_origins two_origins) \<le> 2 ^ 64" "bk_origins two_origins \<noteq> []"
    by (simp_all add: two_origins_def)
  have "pool_ok ((build_pool two_origins)\<lparr>cursor := 1\<rparr>)" by (simp add: build_pool_ok)
  from origin_loop_find(3) [OF this] have "down (pool_run two_origins [PickOp [] 0]) = []"
    by (simp add: pool_run_def pool_pick_def two_origins_def Let_def case_prod_beta build_pool_def)
  then have d: "down (pool_run two_origins ?ops) = [SocketV4 2 80]"
    by (simp add: pool_run_def pool_failure_def mark_down_def put_circuit_def canonical_addr_def List.insert_def)
  have "map_option (\<lambda>e. from_endpoint e (bk_mtls two_origins))
        (find (\<lambda>e. \<not> was_tried [] (ep_addr e) \<and> \<not> is_down (pool_run two_origins ?ops) (ep_addr e))
           (rotate (picks ?ops) (bk_origins two_origins)))
      = Some \<lparr>picked_addr = SocketV4 1 80, picked_host = ''a'', picked_tls = False, picked_mtls = None\<rparr>"
    unfolding is_down_def d by code_simp
  with pick_first_untried_up [OF h, of "[]" 9] show ?thesis by simp
qed

text \<open>The half-open state of a circuit, in which one request is let through as a probe, is never used:
  a failure also marks the origin down, only a health check that succeeds takes that back, and it
  closes the circuit as well.\<close>

lemma circuit_never_probes:
  "map_of (circuits (pool_run b ops)) a = Some c \<Longrightarrow> \<not> probing c"
  using pool_run_ok [of b ops] by (auto simp: pool_ok_def)

text \<open>Attempts of one request at a balanced site go to different origins.\<close>

lemma pool_pick_untried:
  assumes "fst (pool_pick b tried now p) = Some o'" and "pool_ok p"
  shows "\<not> was_tried tried (picked_addr o')"
proof -
  from assms(1) have "bk_origins b \<noteq> []" by (auto simp: pool_pick_def)
  from assms(1) [unfolded pool_pick_parts(1) [OF assms(2) this]] show ?thesis
    by (auto simp: find_Some_iff eligible_def from_endpoint_def)
qed

text \<open>The number of retries of a request is at most three.\<close>

lemma retries_bounded:
  assumes "retries_done ctx \<le> 3" and "fail_to_connect extra m hb rs bt b now ctx ps = (retry, ctx', ps')"
  shows "retries_done ctx' \<le> 3"
  using assms by (auto simp: fail_to_connect_def should_retry_upstream_def extra_retry_budget_def Let_def split: if_splits)

lemma rebuilt_up:
  assumes "map_of (foldl (\<lambda>m b. AList.update (bk_scope b) (build_pool b) m) m bs) scope = Some q"
    and "\<And>q. map_of m scope = Some q \<Longrightarrow> down q = []"
  shows "down q = []"
  using assms
proof (induction bs arbitrary: m)
  case (Cons a bs)
  show ?case
  proof (rule Cons.IH)
    show "down r = []" if "map_of (AList.update (bk_scope a) (build_pool a) m) scope = Some r" for r
      using that Cons.prems(2) by (auto simp: update_conv' build_pool_def split: if_splits)
  qed (use Cons.prems(1) in simp)
qed auto

text \<open>A new policy version forgets which origins are down: the pools are built anew and nothing waits
  for a check.\<close>

lemma sync_forgets_health:
  assumes "pools_version ps \<noteq> next" and "map_of (sites (pools_sync next backends ps)) scope = Some p"
  shows "down p = []"
proof -
  from assms have "map_of (foldl (\<lambda>m b. AList.update (bk_scope b) (build_pool b) m) [] (filter is_balanced backends)) scope = Some p"
    by (simp add: pools_sync_def rebuild_def)
  then show ?thesis by (rule rebuilt_up) simp
qed

end

