(* ===== verification/Config_Load.thy ===== *)
theory Config_Load
  imports Site_Policy Openapi Origin Abuse Grpc_Gate Protocol_Matrix Shield
begin

text \<open>
  Loading a configuration, \<open>src/src/config.rs\<close>: the sites of a file with their origins and policies,
  the table from host names to sites, and the lookup of the site of a request. \<open>None\<close> is a panic.

  The TOML parser, name resolution, certificates, the file system, Unicode case mapping and the
  libraries of the single policies are the fields of \<open>config_lib\<close>. A missing file is \<open>None\<close> and an
  unreadable one \<open>Some None\<close>.
\<close>

declare map_of_eq_Some_iff [simp del]

section \<open>The file\<close>

record site_entry =
  site_hosts :: "string list"
  site_backends :: "string list"
  site_health_path :: "string option"
  site_client_cert :: "string option"
  site_client_key :: "string option"
  site_complete :: "string list"
  site_profile :: "string option"
  site_entries :: "route_entry list"
  site_l1_file :: l1_file
  site_openapi :: "(string \<times> string option) option"
  site_jwt_spec :: "jwt_spec option"
  site_graphql :: "(graphql_file \<times> string list) option"
  site_grpc :: "grpc_file option"
  site_dlp :: "(string \<times> string) list"
  site_abuse :: "abuse_file option"

record config_file =
  file_default_backend :: "string option"
  file_sites :: "site_entry list"
  file_default_complete :: "string list"
  file_default_profile :: "string option"
  file_protocols :: protocols_section
  file_waf_l1 :: l1_file

record ('db, 'pool, 'msg) config_lib =
  cl_env :: env
  cl_fs :: "string \<Rightarrow> string option option"
  cl_resolve :: "string \<Rightarrow> socket_addr list option"
  cl_case :: case_maps
  cl_toml :: "string \<Rightarrow> config_file option"
  cl_openapi :: openapi_lib
  cl_jwt :: jwt_lib
  cl_net :: "nat \<Rightarrow> parsed_url \<Rightarrow> string option"
  cl_now :: nat
  cl_pool :: "bytes \<Rightarrow> 'pool option"
  cl_services :: "'pool \<Rightarrow> string \<Rightarrow> (string \<times> 'msg) list option"
  cl_mmdb :: "string \<Rightarrow> 'db option"
  cl_cert :: "string \<Rightarrow> string \<Rightarrow> string option"

record ('db, 'pool) backend = origin_backend +
  be_redirect_host :: "string option"
  be_health_path :: string
  be_profile :: waf_profile
  be_routes :: "route list"
  be_l1 :: site_l1
  be_openapi :: "openapi_policy option"
  be_jwt :: "(jwt_policy \<times> jwks_state) option"
  be_graphql :: "graphql_policy option"
  be_grpc :: "'pool grpc_policy option"
  be_dlp :: "dlp_field list"
  be_abuse :: "'db abuse_policy option"

record ('db, 'pool) config =
  route_table :: "(string \<times> nat) list"
  backends :: "('db, 'pool) backend list"
  default_idx :: "nat option"
  config_protocols :: protocol_matrix

definition read_bytes :: "('db, 'pool, 'msg) config_lib \<Rightarrow> string \<Rightarrow> string option" where
  "read_bytes lib p = Option.bind (cl_fs lib p) id"

section \<open>Origins\<close>

definition parse_origin_url :: "('db, 'pool, 'msg) config_lib \<Rightarrow> string \<Rightarrow> origin_endpoint option" where
  "parse_origin_url lib url =
     (let tls = starts_with url ''https://''
      in case opt_or (strip_prefix url ''https://'') (strip_prefix url ''http://'') of
           None \<Rightarrow> None
         | Some rest \<Rightarrow>
             (let authority = first_piece CHR ''/'' rest;
                  dflt = (if tls then 443 else 80);
                  (host, port) = (case rsplit_once CHR '':'' authority of
                      Some (h, p) \<Rightarrow> (h, unwrap_or (parse_uint u16_max p) dflt)
                    | None \<Rightarrow> (authority, dflt))
              in case cl_resolve lib (host @ '':'' @ nat_to_string port) of
                   Some (addr # _) \<Rightarrow> Some \<lparr>ep_addr = addr, ep_host = host, ep_tls = tls\<rparr>
                 | _ \<Rightarrow> None))"

fun resolve_origins ::
    "('db, 'pool, 'msg) config_lib \<Rightarrow> origin_endpoint list \<Rightarrow> string list \<Rightarrow> origin_endpoint list option" where
  "resolve_origins lib acc [] = Some acc"
| "resolve_origins lib acc (url # urls) =
     Option.bind (parse_origin_url lib url) (\<lambda>e.
       if list_ex (\<lambda>x. ep_addr x = ep_addr e) acc then None else resolve_origins lib (acc @ [e]) urls)"

definition DEFAULT_HEALTH_PATH :: string where
  "DEFAULT_HEALTH_PATH = ''/health/ready''"

definition parse_health_path :: "string option \<Rightarrow> string option" where
  "parse_health_path raw =
     (let path = trim (unwrap_or raw DEFAULT_HEALTH_PATH)
      in if path = [] \<or> \<not> starts_with path ''/'' \<or> CHR ''?'' \<in> set path \<or> CHR ''#'' \<in> set path
            \<or> list_ex (\<lambda>e. str_contains path e) white_space
         then None else Some path)"

definition load_origin_mtls ::
    "('db, 'pool, 'msg) config_lib \<Rightarrow> string option \<Rightarrow> string option \<Rightarrow> string \<Rightarrow> string option option" where
  "load_origin_mtls lib cert key base =
     (case (cert, key) of
        (None, None) \<Rightarrow> Some None
      | (Some c, Some k) \<Rightarrow>
          Option.bind (read_bytes lib (Abuse.path_join base c)) (\<lambda>cert_pem.
          Option.bind (read_bytes lib (Abuse.path_join base k)) (\<lambda>key_pem.
          map_option Some (cl_cert lib cert_pem key_pem)))
      | _ \<Rightarrow> None)"

section \<open>Policies of a site\<close>

definition default_profile :: "env \<Rightarrow> waf_profile option" where
  "default_profile getenv = waf_profile_parse (unwrap_or (getenv ''WAF_PROFILE'') ''generic'')"

definition profile_of :: "env \<Rightarrow> string option \<Rightarrow> waf_profile option" where
  "profile_of getenv raw = (case raw of Some v \<Rightarrow> waf_profile_parse v | None \<Rightarrow> default_profile getenv)"

definition load_openapi ::
    "('db, 'pool, 'msg) config_lib \<Rightarrow> string \<Rightarrow> string \<times> string option \<Rightarrow> openapi_policy option" where
  "load_openapi lib base file =
     Option.bind (load_section unknown_parse (snd file)) (\<lambda>unknown.
     Option.bind (read_bytes lib (Abuse.path_join base (fst file))) (\<lambda>bs.
     case Openapi.from_bytes (cl_openapi lib) bs unknown of Some (Inr p) \<Rightarrow> Some p | _ \<Rightarrow> None))"

definition load_jwt ::
    "('db, 'pool, 'msg) config_lib \<Rightarrow> string \<Rightarrow> jwt_spec \<Rightarrow> (jwt_policy \<times> jwks_state) option" where
  "load_jwt lib base file =
     ok_or_panic (jwt_load (cl_jwt lib) (cl_env lib) (read_bytes lib) (cl_net lib) (cl_now lib) file base)"

definition load_grpc :: "('db, 'pool, 'msg) config_lib \<Rightarrow> string \<Rightarrow> grpc_file \<Rightarrow> 'pool grpc_policy option" where
  "load_grpc lib base file =
     Option.bind (read_bytes lib (Abuse.path_join base (file_descriptor file))) (\<lambda>bs.
     ok_or_panic (grpc_from_bytes (cl_pool lib) (cl_services lib) (map (\<lambda>c. of_nat (byte_of c)) bs) file))"

definition resolve_site ::
    "('db, 'pool, 'msg) config_lib \<Rightarrow> string list \<Rightarrow> string list \<Rightarrow> route_entry list \<Rightarrow> waf_profile \<Rightarrow> site_l1 \<Rightarrow>
     openapi_policy option \<Rightarrow> (jwt_policy \<times> jwks_state) option \<Rightarrow> ('db, 'pool) backend option" where
  "resolve_site lib urls complete route_entries profile l1 openapi jwt =
     (if urls = [] then None
      else Option.bind (resolve_origins lib [] urls) (\<lambda>os.
        case os of
          [] \<Rightarrow> None
        | first # _ \<Rightarrow>
            if list_ex (\<lambda>e. ep_tls e \<noteq> ep_tls first) os then None
            else Option.bind (merge_inspection_routes (cl_env lib) complete route_entries (jwt \<noteq> None)) (\<lambda>routes.
              Some \<lparr>bk_scope = to_ascii_lowercase (ep_host first), bk_addr = ep_addr first, bk_host = ep_host first,
                    bk_tls = ep_tls first, bk_mtls = None, bk_origins = os,
                    be_redirect_host = None, be_health_path = DEFAULT_HEALTH_PATH, be_profile = profile,
                    be_routes = routes, be_l1 = l1, be_openapi = openapi, be_jwt = jwt, be_graphql = None,
                    be_grpc = None, be_dlp = [], be_abuse = None\<rparr>)))"

definition valid_routes :: "('db, 'pool) backend \<Rightarrow> bool" where
  "valid_routes b \<longleftrightarrow> validate_spool_routes (be_routes b) \<and> validate_l1_routes (be_l1 b) (be_routes b)"

definition load_site ::
    "('db, 'pool, 'msg) config_lib \<Rightarrow> string \<Rightarrow> l1_settings \<Rightarrow> l1_exclusion list \<Rightarrow> site_entry \<Rightarrow>
     ('db, 'pool) backend option" where
  "load_site lib base l1_defaults global_exclusions st =
     Option.bind (l1_validated (l1_overlay l1_defaults (site_l1_file st))) (\<lambda>settings.
     Option.bind (parse_l1_exclusions (l1_exclusions (site_l1_file st))) (\<lambda>exclusions.
     Option.bind (load_section (load_openapi lib base) (site_openapi st)) (\<lambda>openapi.
     Option.bind (load_section (load_jwt lib base) (site_jwt_spec st)) (\<lambda>jwt.
     Option.bind (load_section (\<lambda>f. load_graphql (cl_env lib) f None) (site_graphql st)) (\<lambda>graphql.
     Option.bind (load_section (load_grpc lib base) (site_grpc st)) (\<lambda>grpc.
     Option.bind (ok_or_panic (parse_path_prefixes (site_complete st))) (\<lambda>complete.
     Option.bind (profile_of (cl_env lib) (site_profile st)) (\<lambda>profile.
     Option.bind (resolve_site lib (site_backends st) complete (site_entries st) profile
         \<lparr>l1_site_settings = settings, l1_site_exclusions = merge_l1_exclusions global_exclusions exclusions\<rparr>
         openapi jwt) (\<lambda>b.
     Option.bind (parse_health_path (site_health_path st)) (\<lambda>health.
     Option.bind (load_origin_mtls lib (site_client_cert st) (site_client_key st) base) (\<lambda>mtls.
     Option.bind (parse_dlp_fields (site_dlp st)) (\<lambda>dlp.
     Option.bind (load_section (\<lambda>f. ok_or_panic (into_policy (cl_fs lib) (cl_mmdb lib) base f)) (site_abuse st)) (\<lambda>abuse.
     case site_hosts st of
       [] \<Rightarrow> None
     | host # _ \<Rightarrow>
         (let scope = to_ascii_lowercase (trim host);
              b' = b\<lparr>be_health_path := health, bk_mtls := mtls, be_graphql := graphql, be_grpc := grpc, be_dlp := dlp,
                    be_abuse := abuse, bk_scope := scope, be_redirect_host := Some scope\<rparr>
          in if scope = [] \<or> \<not> valid_routes b' then None else Some b'))))))))))))))"

section \<open>The configuration\<close>

text \<open>A host that is already in the table is a panic.\<close>

fun add_hosts :: "(string \<Rightarrow> string) \<Rightarrow> nat \<Rightarrow> (string \<times> nat) list \<Rightarrow> string list \<Rightarrow> (string \<times> nat) list option" where
  "add_hosts lower idx table [] = Some table"
| "add_hosts lower idx table (host # hosts) =
     (let key = lower (trim host)
      in if map_of table key \<noteq> None then None else add_hosts lower idx (AList.update key idx table) hosts)"

fun load_sites ::
    "('db, 'pool, 'msg) config_lib \<Rightarrow> string \<Rightarrow> l1_settings \<Rightarrow> l1_exclusion list \<Rightarrow>
     ('db, 'pool) backend list \<Rightarrow> (string \<times> nat) list \<Rightarrow> site_entry list \<Rightarrow>
     (('db, 'pool) backend list \<times> (string \<times> nat) list) option" where
  "load_sites lib base l1_defaults global_exclusions bs table [] = Some (bs, table)"
| "load_sites lib base l1_defaults global_exclusions bs table (st # sts) =
     Option.bind (load_site lib base l1_defaults global_exclusions st) (\<lambda>b.
     Option.bind (add_hosts (lower_str (cl_case lib)) (length bs) table (site_hosts st)) (\<lambda>table'.
     load_sites lib base l1_defaults global_exclusions (bs @ [b]) table' sts))"

definition load_default ::
    "('db, 'pool, 'msg) config_lib \<Rightarrow> l1_settings \<Rightarrow> l1_exclusion list \<Rightarrow> string list \<Rightarrow> waf_profile \<Rightarrow> string \<Rightarrow>
     ('db, 'pool) backend option" where
  "load_default lib l1_defaults global_exclusions paths profile url =
     Option.bind (resolve_site lib [url] paths [] profile
         \<lparr>l1_site_settings = l1_defaults, l1_site_exclusions = global_exclusions\<rparr> None None) (\<lambda>b.
     let b' = b\<lparr>bk_scope := ''__default__''\<rparr> in if valid_routes b' then Some b' else None)"

definition from_toml_in :: "('db, 'pool, 'msg) config_lib \<Rightarrow> string \<Rightarrow> string \<Rightarrow> ('db, 'pool) config option" where
  "from_toml_in lib contents base =
     Option.bind (cl_toml lib contents) (\<lambda>file.
     Option.bind (ok_or_panic (from_section (file_protocols file))) (\<lambda>protocols.
     Option.bind (l1_validated (l1_overlay default_crs (file_waf_l1 file))) (\<lambda>l1_defaults.
     Option.bind (parse_l1_exclusions (l1_exclusions (file_waf_l1 file))) (\<lambda>global_exclusions.
     Option.bind (load_sites lib base l1_defaults global_exclusions [] [] (file_sites file)) (\<lambda>(bs, table).
     Option.bind (ok_or_panic (parse_path_prefixes (file_default_complete file))) (\<lambda>default_paths.
     Option.bind (profile_of (cl_env lib) (file_default_profile file)) (\<lambda>profile.
     Option.bind (load_section (load_default lib l1_defaults global_exclusions default_paths profile)
         (file_default_backend file)) (\<lambda>dflt.
     let all = bs @ (case dflt of Some b \<Rightarrow> [b] | None \<Rightarrow> [])
     in if all = [] then None
        else Some \<lparr>route_table = table, backends = all, default_idx = map_option (\<lambda>_. length bs) dflt,
                   config_protocols = protocols\<rparr>))))))))"

definition from_target_url :: "('db, 'pool, 'msg) config_lib \<Rightarrow> string \<Rightarrow> ('db, 'pool) config option" where
  "from_target_url lib url =
     Option.bind (case cl_env lib ''WAF_REQUIRE_COMPLETE_PATHS'' of
         None \<Rightarrow> Some []
       | Some v \<Rightarrow> ok_or_panic (parse_path_prefixes (split_on CHR '','' v))) (\<lambda>paths.
     Option.bind (default_profile (cl_env lib)) (\<lambda>profile.
     Option.bind (resolve_site lib [url] paths [] profile
         \<lparr>l1_site_settings = default_crs, l1_site_exclusions = []\<rparr> None None) (\<lambda>b.
     Some \<lparr>route_table = [], backends = [b], default_idx = Some 0, config_protocols = matrix_default\<rparr>)))"

text \<open>\<open>None\<close> is an index out of range.\<close>

definition config_resolve ::
    "('db, 'pool, 'msg) config_lib \<Rightarrow> ('db, 'pool) config \<Rightarrow> string \<Rightarrow> ('db, 'pool) backend option option" where
  "config_resolve lib cfg header =
     (let host = lower_str (cl_case lib) (first_piece CHR '':'' header);
          at = (\<lambda>i. if i < length (backends cfg) then Some (Some (backends cfg ! i)) else None)
      in case map_of (route_table cfg) host of
           Some i \<Rightarrow> at i
         | None \<Rightarrow> (case default_idx cfg of Some i \<Rightarrow> at i | None \<Rightarrow> Some None))"

definition is_multi_site :: "('db, 'pool) config \<Rightarrow> bool" where
  "is_multi_site cfg \<longleftrightarrow> route_table cfg \<noteq> []"

definition all_hosts :: "('db, 'pool) config \<Rightarrow> string list" where
  "all_hosts cfg = map fst (route_table cfg)"

section \<open>Files of a policy\<close>

definition looks_like_url :: "string \<Rightarrow> bool" where
  "looks_like_url v \<longleftrightarrow> starts_with (trim v) ''http://'' \<or> starts_with (trim v) ''https://''"

definition local_file :: "string \<Rightarrow> string \<Rightarrow> string \<times> string" where
  "local_file base p = (p, Abuse.path_join base p)"

definition site_files :: "string \<Rightarrow> site_entry \<Rightarrow> (string \<times> string) list" where
  "site_files base st =
     (case site_openapi st of Some (p, _) \<Rightarrow> [local_file base p] | None \<Rightarrow> [])
     @ (case site_jwt_spec st of
          Some j \<Rightarrow> if looks_like_url (spec_jwks j) then [] else [local_file base (spec_jwks j)]
        | None \<Rightarrow> [])
     @ (case site_grpc st of Some g \<Rightarrow> [local_file base (file_descriptor g)] | None \<Rightarrow> [])
     @ (case site_client_cert st of Some c \<Rightarrow> [local_file base c] | None \<Rightarrow> [])
     @ (case site_client_key st of Some k \<Rightarrow> [local_file base k] | None \<Rightarrow> [])
     @ (case site_abuse st of
          Some a \<Rightarrow> (case mmdb_path base a of Some p \<Rightarrow> [(p, p)] | None \<Rightarrow> [])
        | None \<Rightarrow> [])"

definition referenced_policy_files ::
    "('db, 'pool, 'msg) config_lib \<Rightarrow> string \<Rightarrow> string \<Rightarrow> (string \<times> string) list option" where
  "referenced_policy_files lib contents base =
     map_option (\<lambda>file. concat (map (site_files base) (file_sites file))) (cl_toml lib contents)"

section \<open>The table of hosts\<close>

definition host_keys :: "('db, 'pool, 'msg) config_lib \<Rightarrow> site_entry \<Rightarrow> string list" where
  "host_keys lib st = map (\<lambda>h. lower_str (cl_case lib) (trim h)) (site_hosts st)"

text \<open>The first site that lists a name.\<close>

primrec first_site :: "('db, 'pool, 'msg) config_lib \<Rightarrow> string \<Rightarrow> site_entry list \<Rightarrow> nat option" where
  "first_site lib k [] = None"
| "first_site lib k (st # sts) = (if k \<in> set (host_keys lib st) then Some 0 else map_option Suc (first_site lib k sts))"

lemma first_site_less: "first_site lib k sts = Some i \<Longrightarrow> i < length sts"
  by (induction sts arbitrary: i) (auto split: if_splits)

lemma add_hosts_table:
  assumes "add_hosts lower idx table hosts = Some table'"
  shows "map_of table' k = (if k \<in> set (map (\<lambda>h. lower (trim h)) hosts) then Some idx else map_of table k)"
    and "k \<in> set (map (\<lambda>h. lower (trim h)) hosts) \<Longrightarrow> map_of table k = None"
  using assms
  by (induction lower idx table hosts rule: add_hosts.induct)
     (auto simp: Let_def update_conv' split: if_splits)

lemma load_sites_backends:
  assumes "load_sites lib base d g bs table sts = Some (bs', table')"
  shows "\<exists>new. bs' = bs @ new \<and> list_all2 (\<lambda>st b. load_site lib base d g st = Some b) sts new"
  using assms
proof (induction sts arbitrary: bs table)
  case (Cons st sts)
  then obtain b t where b: "load_site lib base d g st = Some b"
    and rest: "load_sites lib base d g (bs @ [b]) t sts = Some (bs', table')"
    by (auto simp: bind_eq_Some_conv)
  from Cons.IH [OF rest] obtain new where "bs' = (bs @ [b]) @ new"
    "list_all2 (\<lambda>st b. load_site lib base d g st = Some b) sts new" by blast
  with b show ?case by (intro exI [of _ "b # new"]) simp
qed simp

lemma load_sites_table:
  assumes "load_sites lib base d g bs table sts = Some (bs', table')"
  shows "map_of table' k = (case first_site lib k sts of Some i \<Rightarrow> Some (length bs + i) | None \<Rightarrow> map_of table k)
    \<and> (first_site lib k sts \<noteq> None \<longrightarrow> map_of table k = None)"
  using assms
proof (induction sts arbitrary: bs table)
  case (Cons st sts)
  then obtain b t where t: "add_hosts (lower_str (cl_case lib)) (length bs) table (site_hosts st) = Some t"
    and rest: "load_sites lib base d g (bs @ [b]) t sts = Some (bs', table')"
    by (auto simp: bind_eq_Some_conv)
  note here = add_hosts_table [OF t, of k]
  from Cons.IH [OF rest] show ?case
    using here by (auto simp: host_keys_def split: option.splits if_splits)
qed simp

text \<open>The sites of a loaded configuration are those of the file, in order; a default comes last.\<close>

lemma from_toml_in_Some:
  assumes "from_toml_in lib contents base = Some cfg" and "cl_toml lib contents = Some file"
  obtains d g bs dflt where
    "load_sites lib base d g [] [] (file_sites file) = Some (bs, route_table cfg)"
    "backends cfg = bs @ (case dflt of Some b \<Rightarrow> [b] | None \<Rightarrow> [])"
    "default_idx cfg = map_option (\<lambda>_. length bs) dflt"
    "(dflt = None) = (file_default_backend file = None)"
proof -
  from assms obtain d g bs table paths profile dflt where
    "load_sites lib base d g [] [] (file_sites file) = Some (bs, table)"
    "load_section (load_default lib d g paths profile) (file_default_backend file) = Some dflt"
    "table = route_table cfg" "backends cfg = bs @ (case dflt of Some b \<Rightarrow> [b] | None \<Rightarrow> [])"
    "default_idx cfg = map_option (\<lambda>_. length bs) dflt"
    by (auto simp: from_toml_in_def bind_eq_Some_conv Let_def split: if_splits)
  then show ?thesis
    by (intro that [of d g bs dflt]) (auto simp: load_section_def split: option.splits)
qed

lemma load_site_scope:
  assumes "load_site lib base d g st = Some b"
  shows "site_hosts st \<noteq> [] \<and> bk_scope b = to_ascii_lowercase (trim (hd (site_hosts st)))"
  using assms by (cases "site_hosts st") (auto simp: load_site_def bind_eq_Some_conv Let_def split: if_splits)

text \<open>C15. A host reaches its own site. Of a configuration that was loaded, the lookup of a Host value
  never leaves the table of sites; it gives the site that lists the name (without port, whatever
  its case), and for a name no site lists the default backend, if the file has one. The scope of a
  site is its first host.\<close>

theorem hosts_reach_their_site:
  assumes "from_toml_in lib contents base = Some cfg" and "cl_toml lib contents = Some file"
  shows "config_resolve lib cfg header = Some
      (case first_site lib (lower_str (cl_case lib) (first_piece CHR '':'' header)) (file_sites file) of
         Some i \<Rightarrow> Some (backends cfg ! i)
       | None \<Rightarrow> map_option (\<lambda>_. last (backends cfg)) (file_default_backend file))
    \<and> (\<forall>i < length (file_sites file).
         bk_scope (backends cfg ! i) = to_ascii_lowercase (trim (hd (site_hosts (file_sites file ! i)))))"
proof -
  obtain d g bs dflt where load: "load_sites lib base d g [] [] (file_sites file) = Some (bs, route_table cfg)"
    and all: "backends cfg = bs @ (case dflt of Some b \<Rightarrow> [b] | None \<Rightarrow> [])"
    and di: "default_idx cfg = map_option (\<lambda>_. length bs) dflt" and none: "(dflt = None) = (file_default_backend file = None)"
    using assms by (rule from_toml_in_Some)
  have sites: "list_all2 (\<lambda>st b. load_site lib base d g st = Some b) (file_sites file) bs"
    using load_sites_backends [OF load] by auto
  then have len: "length bs = length (file_sites file)" by (simp add: list_all2_lengthD)
  have "bk_scope (backends cfg ! i) = to_ascii_lowercase (trim (hd (site_hosts (file_sites file ! i))))"
    if "i < length (file_sites file)" for i
    using load_site_scope [of lib base d g] list_all2_nthD [OF sites that] that len by (simp add: all nth_append)
  moreover have "config_resolve lib cfg header = Some
      (case first_site lib (lower_str (cl_case lib) (first_piece CHR '':'' header)) (file_sites file) of
         Some i \<Rightarrow> Some (backends cfg ! i)
       | None \<Rightarrow> map_option (\<lambda>_. last (backends cfg)) (file_default_backend file))" (is "_ = Some (case ?first of Some i \<Rightarrow> _ i | None \<Rightarrow> _)")
  proof (cases ?first)
    case (Some i)
    with load_sites_table [OF load, of "lower_str (cl_case lib) (first_piece CHR '':'' header)"] first_site_less [OF Some]
    show ?thesis by (simp add: config_resolve_def Let_def all len)
  next
    case None
    with load_sites_table [OF load, of "lower_str (cl_case lib) (first_piece CHR '':'' header)"] none di
    show ?thesis by (cases dflt; cases "file_default_backend file") (simp_all add: config_resolve_def Let_def all)
  qed
  ultimately show ?thesis by blast
qed

definition plain_site :: "string \<Rightarrow> string \<Rightarrow> site_entry" where
  "plain_site host url = \<lparr>site_hosts = [host], site_backends = [url], site_health_path = None, site_client_cert = None,
     site_client_key = None, site_complete = [], site_profile = None, site_entries = [], site_l1_file = l1_file_default,
     site_openapi = None, site_jwt_spec = None, site_graphql = None, site_grpc = None, site_dlp = [], site_abuse = None\<rparr>"

definition plain_file :: config_file where
  "plain_file = \<lparr>file_default_backend = None, file_sites = [plain_site ''A.example'' ''http://o''],
     file_default_complete = [], file_default_profile = None,
     file_protocols = \<lparr>sec_http_1_0 = None, sec_http_1_1 = None, sec_http_2 = None, sec_http_3 = None, sec_websocket = None,
       sec_grpc = None, sec_brotli = None, sec_multipart = None, sec_sse = None, sec_json = None, sec_gzip_deflate = None,
       sec_unknown_http_version = None, sec_unknown_upgrade = None, sec_unknown_encoding = None,
       sec_unknown_content_type = None\<rparr>,
     file_waf_l1 = l1_file_default\<rparr>"

definition plain_lib :: "(unit, unit, unit) config_lib" where
  "plain_lib = \<lparr>cl_env = (\<lambda>_. None), cl_fs = (\<lambda>_. None), cl_resolve = (\<lambda>_. Some [SocketV4 1 80]), cl_case = ascii_case_maps,
     cl_toml = (\<lambda>_. Some plain_file), cl_openapi = pets_lib, cl_jwt = sample_lib, cl_net = (\<lambda>_ _. None), cl_now = 0,
     cl_pool = (\<lambda>_. None), cl_services = (\<lambda>_ _. None), cl_mmdb = (\<lambda>_. None), cl_cert = (\<lambda>_ _. None)\<rparr>"

lemma plain_config_loads: "from_toml_in plain_lib [] ''.'' \<noteq> None"
proof -
  have l1: "l1_overlay default_crs l1_file_default = default_crs" "l1_validated default_crs = Some default_crs"
    by (simp_all add: l1_overlay_def default_crs_def l1_file_default_def l1_validated_def validate_paranoia_def
        MIN_PARANOIA_def MAX_PARANOIA_def DEFAULT_ANOMALY_THRESHOLD_def)
  have toml: "cl_toml plain_lib [] = Some plain_file" by (simp add: plain_lib_def)
  have fields: "file_waf_l1 plain_file = l1_file_default" "file_default_complete plain_file = []"
    "file_default_profile plain_file = None" "file_default_backend plain_file = None"
    "file_sites plain_file = [plain_site ''A.example'' ''http://o'']" by (simp_all add: plain_file_def)
  have parts: "ok_or_panic (from_section (file_protocols plain_file)) = Some matrix_default"
    "parse_l1_exclusions (l1_exclusions l1_file_default) = Some []" "ok_or_panic (parse_path_prefixes []) = Some []"
    "profile_of (cl_env plain_lib) None = Some Generic" "parse_health_path None = Some DEFAULT_HEALTH_PATH"
    "load_origin_mtls plain_lib None None ''.'' = Some None" "parse_dlp_fields [] = Some []"
    "to_ascii_lowercase (trim ''A.example'') = ''a.example''"
    "parse_origin_url plain_lib ''http://o'' = Some \<lparr>ep_addr = SocketV4 1 80, ep_host = ''o'', ep_tls = False\<rparr>"
    "merge_inspection_routes (cl_env plain_lib) [] [] False = Some []"
    by code_simp+
  show ?thesis
    by (simp add: from_toml_in_def toml fields l1 parts load_site_def plain_site_def load_section_def resolve_site_def
        valid_routes_def validate_spool_routes_def validate_l1_routes_def Let_def)
qed

theorem hosts_reach_their_site_witness:
  "\<exists>cfg. from_toml_in plain_lib [] ''.'' = Some cfg \<and> config_resolve plain_lib cfg ''a.EXAMPLE:443'' = Some (Some (backends cfg ! 0))
     \<and> bk_scope (backends cfg ! 0) = ''a.example''"
proof -
  from plain_config_loads obtain cfg where cfg: "from_toml_in plain_lib [] ''.'' = Some cfg" by blast
  have toml: "cl_toml plain_lib [] = Some plain_file" by (simp add: plain_lib_def)
  have "first_site plain_lib (lower_str (cl_case plain_lib) (first_piece CHR '':'' ''a.EXAMPLE:443'')) (file_sites plain_file) = Some 0"
    "length (file_sites plain_file) = 1"
    "to_ascii_lowercase (trim (hd (site_hosts (file_sites plain_file ! 0)))) = ''a.example''" by code_simp+
  with hosts_reach_their_site [OF cfg toml, of "''a.EXAMPLE:443''"] cfg show ?thesis by simp
qed

section \<open>The files a configuration depends on\<close>

lemma jwks_reads:
  assumes "trim raw = raw" and "looks_like_url raw \<or> rd (Abuse.path_join base raw) = rd' (Abuse.path_join base raw)"
    and "jwks_source_parse raw base = Ok src"
  shows "jwks_fetch rd net src = jwks_fetch rd' net src"
proof (cases "looks_like_url raw")
  case True
  with assms(1,3) have "src = JwksUrlSource raw"
    by (auto simp: jwks_source_parse_def looks_like_url_def Let_def split: if_splits)
  then show ?thesis by (simp add: jwks_fetch_def)
next
  case False
  with assms(1,3) have "src = JwksFile (Abuse.path_join base raw)"
    by (auto simp: jwks_source_parse_def looks_like_url_def Let_def Abuse.path_join_def Jwt_Keys.path_join_def split: if_splits)
  with False assms(2) show ?thesis by (simp add: jwks_fetch_def)
qed

lemma result_bind_cong: "r = r' \<Longrightarrow> (\<And>a. r' = Ok a \<Longrightarrow> f a = g a) \<Longrightarrow> result_bind r f = result_bind r' g"
  by (cases r') auto

lemma load_jwt_reads:
  assumes "trim (spec_jwks j) = spec_jwks j"
    and "looks_like_url (spec_jwks j) \<or> fs (Abuse.path_join base (spec_jwks j)) = cl_fs lib (Abuse.path_join base (spec_jwks j))"
  shows "load_jwt (lib\<lparr>cl_fs := fs\<rparr>) base j = load_jwt lib base j"
proof -
  have rd: "looks_like_url (spec_jwks j)
    \<or> read_bytes (lib\<lparr>cl_fs := fs\<rparr>) (Abuse.path_join base (spec_jwks j)) = read_bytes lib (Abuse.path_join base (spec_jwks j))"
    using assms(2) by (auto simp: read_bytes_def)
  have "jwks_fetch (read_bytes (lib\<lparr>cl_fs := fs\<rparr>)) (cl_net lib) src = jwks_fetch (read_bytes lib) (cl_net lib) src"
    if "jwks_source_parse (spec_jwks j) base = Ok src" for src
    using jwks_reads [where rd = "read_bytes (lib\<lparr>cl_fs := fs\<rparr>)" and rd' = "read_bytes lib", OF assms(1) rd that] .
  then show ?thesis
    unfolding load_jwt_def jwt_load_def Let_def
    by (auto simp: map_err_def intro!: arg_cong [where f = ok_or_panic] result_bind_cong split: sum.splits)
qed

text \<open>A site is loaded from the files that \<open>site_files\<close> lists: file systems that agree on them give the
  same site. The path of a key set has no surrounding space, which the loader would remove and the
  listing would not.\<close>

definition jwks_trimmed :: "site_entry \<Rightarrow> bool" where
  "jwks_trimmed st = (case site_jwt_spec st of Some j \<Rightarrow> trim (spec_jwks j) = spec_jwks j | None \<Rightarrow> True)"

lemma load_section_cong: "(\<And>a. x = Some a \<Longrightarrow> f a = g a) \<Longrightarrow> load_section f x = load_section g x"
  by (cases x) (auto simp: load_section_def)

lemma fs_fields [simp]:
  "cl_resolve (lib\<lparr>cl_fs := fs\<rparr>) = cl_resolve lib" "cl_env (lib\<lparr>cl_fs := fs\<rparr>) = cl_env lib"
  by simp_all

lemma resolve_site_fs [simp]: "resolve_site (lib\<lparr>cl_fs := fs\<rparr>) = resolve_site lib"
proof -
  have u: "parse_origin_url (lib\<lparr>cl_fs := fs\<rparr>) = parse_origin_url lib"
    unfolding parse_origin_url_def [abs_def] fs_fields by (rule refl)
  have "resolve_origins (lib\<lparr>cl_fs := fs\<rparr>) acc urls = resolve_origins lib acc urls" for acc urls
    by (induction urls arbitrary: acc) (auto simp: u intro: Option.bind_cong)
  then have r: "resolve_origins (lib\<lparr>cl_fs := fs\<rparr>) = resolve_origins lib" by (intro ext)
  show ?thesis unfolding resolve_site_def [abs_def] fs_fields r by (rule refl)
qed

lemma load_site_reads:
  assumes "\<forall>f \<in> set (site_files base st). fs (snd f) = cl_fs lib (snd f)" and "jwks_trimmed st"
  shows "load_site (lib\<lparr>cl_fs := fs\<rparr>) base d g st = load_site lib base d g st"
proof -
  let ?l = "lib\<lparr>cl_fs := fs\<rparr>"
  have o: "load_section (load_openapi ?l base) (site_openapi st) = load_section (load_openapi lib base) (site_openapi st)"
    using assms(1) by (intro load_section_cong) (auto simp: load_openapi_def site_files_def local_file_def read_bytes_def)
  have j: "load_section (load_jwt ?l base) (site_jwt_spec st) = load_section (load_jwt lib base) (site_jwt_spec st)"
    using assms by (intro load_section_cong load_jwt_reads)
      (auto simp: site_files_def local_file_def jwks_trimmed_def split: if_splits)
  have g: "load_section (load_grpc ?l base) (site_grpc st) = load_section (load_grpc lib base) (site_grpc st)"
    using assms(1) by (intro load_section_cong) (auto simp: load_grpc_def site_files_def local_file_def read_bytes_def)
  have m: "load_origin_mtls ?l (site_client_cert st) (site_client_key st) base
      = load_origin_mtls lib (site_client_cert st) (site_client_key st) base"
    using assms(1) by (auto simp: load_origin_mtls_def site_files_def local_file_def read_bytes_def split: option.splits)
  have a: "load_section (\<lambda>f. ok_or_panic (into_policy fs (cl_mmdb lib) base f)) (site_abuse st)
      = load_section (\<lambda>f. ok_or_panic (into_policy (cl_fs lib) (cl_mmdb lib) base f)) (site_abuse st)"
    using assms(1) by (intro load_section_cong arg_cong [where f = ok_or_panic])
      (auto simp: into_policy_def asn_load_def site_files_def local_file_def intro!: result_bind_cong split: option.splits)
  show ?thesis unfolding load_site_def by (simp add: o j g m a)
qed

lemma load_sites_reads:
  assumes "\<forall>st \<in> set sts. (\<forall>f \<in> set (site_files base st). fs (snd f) = cl_fs lib (snd f)) \<and> jwks_trimmed st"
  shows "load_sites (lib\<lparr>cl_fs := fs\<rparr>) base d g bs table sts = load_sites lib base d g bs table sts"
  using assms
proof (induction sts arbitrary: bs table)
  case (Cons st sts)
  have "load_site (lib\<lparr>cl_fs := fs\<rparr>) base d g st = load_site lib base d g st"
    using Cons.prems by (intro load_site_reads) auto
  with Cons show ?case by (auto intro!: Option.bind_cong)
qed simp

lemma from_toml_in_reads:
  assumes "cl_toml lib contents = Some file"
    and "\<forall>st \<in> set (file_sites file). (\<forall>f \<in> set (site_files base st). fs (snd f) = cl_fs lib (snd f)) \<and> jwks_trimmed st"
  shows "from_toml_in (lib\<lparr>cl_fs := fs\<rparr>) contents base = from_toml_in lib contents base"
proof -
  have d: "load_default (lib\<lparr>cl_fs := fs\<rparr>) = load_default lib"
    unfolding load_default_def [abs_def] resolve_site_fs by (rule refl)
  have t: "cl_toml (lib\<lparr>cl_fs := fs\<rparr>) = cl_toml lib" by simp
  show ?thesis
    unfolding from_toml_in_def t assms(1) d fs_fields Option.bind_lunit load_sites_reads [OF assms(2)] by (rule refl)
qed

end
