(* ===== verification/Policy.thy ===== *)
theory Policy
  imports Config_Load Spool Waf_Engine "HOL-Library.List_Lexorder" "HOL-Library.Char_ord"
begin

text \<open>
  Policy snapshots, \<open>src/src/policy.rs\<close>: a configuration is compiled to a blob whose digest is its
  version, the blob may have to be signed, and a reload that fails keeps the policy in memory.

  The digest, the JSON encoding, the signature check, keys and base64 are the fields of
  \<open>policy_lib\<close>. The file system is read at numbered points of a load: 0 the file itself, 1 the files
  it names, 2 the signature, 3 the files again while the configuration is built.

  The lemmas say that with a public key configured nothing unsigned ever becomes the policy, and that
  the version determines the configuration when the files do not change during a load.
\<close>

section \<open>Hexadecimal text\<close>

definition hex_digit :: "nat \<Rightarrow> char" where
  "hex_digit n = ''0123456789abcdef'' ! n"

definition hex_encode :: "string \<Rightarrow> string" where
  "hex_encode s = concat (map (\<lambda>c. [hex_digit (byte_of c div 16), hex_digit (byte_of c mod 16)]) s)"

fun hex_pairs :: "string \<Rightarrow> string option" where
  "hex_pairs (a # b # r) =
     (case (hex_value a, hex_value b, hex_pairs r) of
        (Some x, Some y, Some s) \<Rightarrow> Some (char_of (x * 16 + y) # s)
      | _ \<Rightarrow> None)"
| "hex_pairs _ = Some []"

definition hex_decode :: "string \<Rightarrow> string option" where
  "hex_decode raw =
     (let t = trim raw
      in if odd (length t) \<or> t = [] then None
         else if \<not> list_all (\<lambda>c. hex_value c \<noteq> None) t then None
         else hex_pairs t)"

section \<open>Snapshots\<close>

record policy_ir =
  ir_format :: nat
  ir_source :: string
  ir_body :: string
  ir_attachments :: "(string \<times> string) list"

record 'k policy_lib =
  pl_sha256 :: "string \<Rightarrow> string option"
  pl_json :: "policy_ir \<Rightarrow> string option"
  pl_key_pem :: "string \<Rightarrow> 'k option"
  pl_key_raw :: "string \<Rightarrow> 'k option"
  pl_verify :: "'k \<Rightarrow> string \<Rightarrow> string \<Rightarrow> bool option"
  pl_base64 :: "string \<Rightarrow> string option"

record ('db, 'pool) live_policy =
  live_config :: "('db, 'pool) config"
  live_version :: string
  live_blob :: string
  live_signed :: bool
  live_spool :: spool_runtime

datatype policy_error =
    NoPolicyFile | NoTarget | BadToml | NoAttachment string | NoDigest | NoJson | BadKey | NoSignature | BadSignature
  | VerifyFailed | BadConfig | SpoolRefused prepare_error | PinnedPolicy

definition SNAPSHOT_FORMAT :: nat where "SNAPSHOT_FORMAT = 1"
definition ED25519_KEY_LEN :: nat where "ED25519_KEY_LEN = 32"
definition ED25519_SIG_LEN :: nat where "ED25519_SIG_LEN = 64"

definition DEFAULT_SIG :: string where
  "DEFAULT_SIG = ''ferroada.policy.sig''"

type_synonym files = "nat \<Rightarrow> string \<Rightarrow> string option option"

definition read_at :: "files \<Rightarrow> nat \<Rightarrow> string \<Rightarrow> string option" where
  "read_at fs n p = Option.bind (fs n p) id"

definition sha256_hex :: "'k policy_lib \<Rightarrow> string \<Rightarrow> string option" where
  "sha256_hex pl bs = map_option (\<lambda>d. ''sha256:'' @ hex_encode d) (pl_sha256 pl bs)"

definition version_of :: "'k policy_lib \<Rightarrow> string \<Rightarrow> string" where
  "version_of pl blob = unwrap_or (sha256_hex pl blob) ''sha256:0''"

definition compile_ir ::
    "'k policy_lib \<Rightarrow> string \<Rightarrow> string \<Rightarrow> (string \<times> string) list \<Rightarrow> (policy_error, string) result" where
  "compile_ir pl source body attachments =
     (case pl_json pl \<lparr>ir_format = SNAPSHOT_FORMAT, ir_source = source, ir_body = body, ir_attachments = attachments\<rparr> of
        Some blob \<Rightarrow> Ok blob
      | None \<Rightarrow> Err NoJson)"

text \<open>A \<open>BTreeMap\<close> with string keys: entries in the order of their bytes.\<close>

fun btree_insert :: "string \<Rightarrow> 'a \<Rightarrow> (string \<times> 'a) list \<Rightarrow> (string \<times> 'a) list" where
  "btree_insert k v [] = [(k, v)]"
| "btree_insert k v ((k', v') # r) =
     (if k < k' then (k, v) # (k', v') # r
      else if k = k' then (k, v) # r
      else (k', v') # btree_insert k v r)"

fun attach_files ::
    "'k policy_lib \<Rightarrow> (string \<Rightarrow> string option) \<Rightarrow> (string \<times> string) list \<Rightarrow> (string \<times> string) list
     \<Rightarrow> (policy_error, (string \<times> string) list) result" where
  "attach_files pl rd acc [] = Ok acc"
| "attach_files pl rd acc ((key, p) # rest) =
     (case rd p of
        None \<Rightarrow> Err (NoAttachment key)
      | Some bs \<Rightarrow>
          (case sha256_hex pl bs of
             None \<Rightarrow> Err NoDigest
           | Some dg \<Rightarrow> attach_files pl rd (btree_insert key dg acc) rest))"

definition compile_toml_blob ::
    "'k policy_lib \<Rightarrow> ('db, 'pool, 'msg) config_lib \<Rightarrow> (string \<Rightarrow> string option) \<Rightarrow> string \<Rightarrow> string
     \<Rightarrow> (policy_error, string \<times> string) result" where
  "compile_toml_blob pl lib rd toml base =
     (case referenced_policy_files lib toml base of
        None \<Rightarrow> Err BadToml
      | Some named \<Rightarrow>
          result_bind (attach_files pl rd [] named) (\<lambda>attachments.
          result_bind (compile_ir pl ''toml'' toml attachments) (\<lambda>blob.
          Ok (blob, version_of pl blob))))"

section \<open>Signatures\<close>

definition decode_signature :: "'k policy_lib \<Rightarrow> string \<Rightarrow> (policy_error, string) result" where
  "decode_signature pl bs =
     (if length bs = ED25519_SIG_LEN then Ok bs
      else if \<not> utf8_valid bs then Err BadSignature
      else let text = trim bs
           in case opt_filter (\<lambda>d. length d = ED25519_SIG_LEN) (hex_decode text) of
                Some d \<Rightarrow> Ok d
              | None \<Rightarrow>
                  (case opt_filter (\<lambda>d. length d = ED25519_SIG_LEN) (pl_base64 pl text) of
                     Some d \<Rightarrow> Ok d
                   | None \<Rightarrow> Err BadSignature))"

definition decode_key_bytes :: "'k policy_lib \<Rightarrow> string \<Rightarrow> (policy_error, string) result" where
  "decode_key_bytes pl text =
     (case opt_or (hex_decode text) (pl_base64 pl (trim text)) of Some d \<Rightarrow> Ok d | None \<Rightarrow> Err BadKey)"

text \<open>A backslash followed by \<open>n\<close> in the variable stands for a line feed.\<close>

fun unescape_newlines :: "string \<Rightarrow> string" where
  "unescape_newlines (a # b # r) =
     (if byte_of a = 92 \<and> b = CHR ''n'' then CHR 0x0A # unescape_newlines r else a # unescape_newlines (b # r))"
| "unescape_newlines s = s"

definition parse_public_key :: "'k policy_lib \<Rightarrow> string \<Rightarrow> (policy_error, 'k) result" where
  "parse_public_key pl raw =
     (let pem = unescape_newlines (trim raw)
      in if str_contains pem ''BEGIN'' then (case pl_key_pem pl pem of Some k \<Rightarrow> Ok k | None \<Rightarrow> Err BadKey)
         else result_bind (decode_key_bytes pl (trim raw)) (\<lambda>bs.
           if length bs \<noteq> ED25519_KEY_LEN then Err BadKey
           else case pl_key_raw pl bs of Some k \<Rightarrow> Ok k | None \<Rightarrow> Err BadKey))"

definition signature_path :: "env \<Rightarrow> string" where
  "signature_path getenv = unwrap_or (opt_filter (\<lambda>v. trim v \<noteq> []) (getenv ''FERROADA_POLICY_SIG'')) DEFAULT_SIG"

definition read_signature :: "'k policy_lib \<Rightarrow> env \<Rightarrow> (string \<Rightarrow> string option) \<Rightarrow> (policy_error, string) result" where
  "read_signature pl getenv rd =
     (case rd (signature_path getenv) of None \<Rightarrow> Err NoSignature | Some bs \<Rightarrow> decode_signature pl bs)"

definition verify_if_configured ::
    "'k policy_lib \<Rightarrow> env \<Rightarrow> (string \<Rightarrow> string option) \<Rightarrow> string \<Rightarrow> (policy_error, bool) result" where
  "verify_if_configured pl getenv rd blob =
     (case getenv ''FERROADA_POLICY_PUBKEY'' of
        None \<Rightarrow> Ok False
      | Some raw \<Rightarrow>
          if trim raw = [] then Ok False
          else result_bind (parse_public_key pl raw) (\<lambda>key.
               result_bind (read_signature pl getenv rd) (\<lambda>sig.
               case pl_verify pl key blob sig of
                 None \<Rightarrow> Err VerifyFailed
               | Some ok \<Rightarrow> if ok then Ok True else Err BadSignature)))"

section \<open>Loading and reloading\<close>

definition has_spool_routes :: "('db, 'pool) config \<Rightarrow> bool" where
  "has_spool_routes cfg =
     list_ex (\<lambda>b. list_ex (\<lambda>r. case inspection_policy (be_routes b) (route_prefix r) of
                                 Some p \<Rightarrow> rules_max_body p \<noteq> None
                               | None \<Rightarrow> False) (be_routes b)) (backends cfg)"

text \<open>The spool directory as the load finds it.\<close>

type_synonym spool_dir = "dir_status \<times> bool \<times> dir_entry option list"

definition live_from_config ::
    "env \<Rightarrow> spool_dir \<Rightarrow> ('db, 'pool) config \<Rightarrow> string \<Rightarrow> string \<Rightarrow> bool \<Rightarrow> (policy_error, ('db, 'pool) live_policy) result" where
  "live_from_config getenv dir cfg blob version' sgd =
     (case fst (boot (has_spool_routes cfg) (fst dir) (fst (snd dir)) (snd (snd dir))) of
        Err e \<Rightarrow> Err (SpoolRefused e)
      | Ok _ \<Rightarrow>
          Ok \<lparr>live_config = cfg, live_version = version', live_blob = blob, live_signed = sgd,
              live_spool = spool_from_config getenv (has_spool_routes cfg)\<rparr>)"

definition load_toml ::
    "'k policy_lib \<Rightarrow> ('db, 'pool, 'msg) config_lib \<Rightarrow> files \<Rightarrow> spool_dir \<Rightarrow> string \<Rightarrow> string
     \<Rightarrow> (policy_error, ('db, 'pool) live_policy) result" where
  "load_toml pl lib fs dir path base =
     (case opt_filter utf8_valid (read_at fs 0 path) of
        None \<Rightarrow> Err NoPolicyFile
      | Some toml \<Rightarrow>
          result_bind (compile_toml_blob pl lib (read_at fs 1) toml base) (\<lambda>(blob, version').
          result_bind (verify_if_configured pl (cl_env lib) (read_at fs 2) blob) (\<lambda>sgd.
          case from_toml_in (lib\<lparr>cl_fs := fs 3\<rparr>) toml base of
            None \<Rightarrow> Err BadConfig
          | Some cfg \<Rightarrow> live_from_config (cl_env lib) dir cfg blob version' sgd)))"

definition env_policy_body :: "env \<Rightarrow> string \<Rightarrow> string" where
  "env_policy_body getenv target =
     ''TARGET_URL='' @ target @
     (case getenv ''WAF_REQUIRE_COMPLETE_PATHS'' of
        Some ps \<Rightarrow> if trim ps \<noteq> [] then [CHR 0x0A] @ ''WAF_REQUIRE_COMPLETE_PATHS='' @ ps else []
      | None \<Rightarrow> [])"

definition load_env ::
    "'k policy_lib \<Rightarrow> ('db, 'pool, 'msg) config_lib \<Rightarrow> files \<Rightarrow> spool_dir \<Rightarrow> (policy_error, ('db, 'pool) live_policy) result" where
  "load_env pl lib fs dir =
     (case cl_env lib ''TARGET_URL'' of
        None \<Rightarrow> Err NoTarget
      | Some target \<Rightarrow>
          result_bind (compile_ir pl ''env'' (env_policy_body (cl_env lib) target) []) (\<lambda>blob.
          result_bind (verify_if_configured pl (cl_env lib) (read_at fs 2) blob) (\<lambda>sgd.
          case from_target_url (lib\<lparr>cl_fs := fs 3\<rparr>) target of
            None \<Rightarrow> Err BadConfig
          | Some cfg \<Rightarrow> live_from_config (cl_env lib) dir cfg blob (version_of pl blob) sgd)))"

datatype policy_origin = TomlOrigin string string | EnvOrigin | PinnedOrigin

definition origin_load ::
    "'k policy_lib \<Rightarrow> ('db, 'pool, 'msg) config_lib \<Rightarrow> policy_origin \<Rightarrow> files \<Rightarrow> spool_dir
     \<Rightarrow> (policy_error, ('db, 'pool) live_policy) result" where
  "origin_load pl lib orig fs dir =
     (case orig of
        TomlOrigin path base \<Rightarrow> load_toml pl lib fs dir path base
      | EnvOrigin \<Rightarrow> load_env pl lib fs dir
      | PinnedOrigin \<Rightarrow> Err PinnedPolicy)"

text \<open>The outcome of a reload is the new and the previous version, or the error.\<close>

definition try_reload ::
    "'k policy_lib \<Rightarrow> ('db, 'pool, 'msg) config_lib \<Rightarrow> policy_origin \<Rightarrow> files \<Rightarrow> spool_dir
     \<Rightarrow> ('db, 'pool) live_policy \<Rightarrow> (policy_error, string \<times> string) result \<times> ('db, 'pool) live_policy" where
  "try_reload pl lib orig fs dir lp =
     (case origin_load pl lib orig fs dir of
        Ok new \<Rightarrow> (Ok (live_version new, live_version lp), new)
      | Err e \<Rightarrow> (Err e, lp))"

definition policy_boot ::
    "'k policy_lib \<Rightarrow> ('db, 'pool, 'msg) config_lib \<Rightarrow> files \<Rightarrow> spool_dir \<Rightarrow> bool
     \<Rightarrow> (policy_error, policy_origin \<times> ('db, 'pool) live_policy) result" where
  "policy_boot pl lib fs dir toml_exists =
     (let orig = (if toml_exists then TomlOrigin ''ferroada.toml'' ''.'' else EnvOrigin)
      in result_bind (origin_load pl lib orig fs dir) (\<lambda>lp. Ok (orig, lp)))"

section \<open>The policy command\<close>

text \<open>\<open>ferroada policy compile\<close> and \<open>ferroada policy sign\<close>. Private keys, signing and the base64 encoder
  are the fields of \<open>signer_lib\<close>; \<open>rd\<close> reads a file, \<open>wr\<close> says whether a file can be written.\<close>

record 's signer_lib =
  sl_priv_pem :: "string \<Rightarrow> 's option"
  sl_priv_raw :: "string \<Rightarrow> 's option"
  sl_sign :: "'s \<Rightarrow> string \<Rightarrow> string option"
  sl_b64_encode :: "string \<Rightarrow> string"

datatype cli_error =
    MissingValue string | UnknownArg string | NoKeyArg | FileUnreadable string | StdinFailed | EmptyStdin
  | CompileFailed policy_error | BadPrivateKey | SignFailed | WriteFailed string

datatype cli_effect = PrintedHelp | WroteFile string string | Printed string

definition parse_private_key :: "'s signer_lib \<Rightarrow> string \<Rightarrow> (cli_error, 's) result" where
  "parse_private_key sl bs =
     (case sl_priv_pem sl bs of
        Some k \<Rightarrow> Ok k
      | None \<Rightarrow>
          (let trimmed = filter (\<lambda>c. \<not> is_ascii_whitespace c) bs
           in case opt_filter (\<lambda>raw. length raw = ED25519_KEY_LEN) (if utf8_valid trimmed then hex_decode trimmed else None) of
                Some raw \<Rightarrow> (case sl_priv_raw sl raw of Some k \<Rightarrow> Ok k | None \<Rightarrow> Err BadPrivateKey)
              | None \<Rightarrow> Err BadPrivateKey))"

definition write_output :: "(string \<Rightarrow> bool) \<Rightarrow> string option \<Rightarrow> string \<Rightarrow> (cli_error, cli_effect) result" where
  "write_output wr out bs =
     (case out of
        Some p \<Rightarrow> if wr p then Ok (WroteFile p bs) else Err (WriteFailed p)
      | None \<Rightarrow> Ok (Printed bs))"

definition read_stdin :: "string option \<Rightarrow> (cli_error, string) result" where
  "read_stdin inp = (case inp of None \<Rightarrow> Err StdinFailed | Some bs \<Rightarrow> if bs = [] then Err EmptyStdin else Ok bs)"

text \<open>The arguments, or \<open>None\<close> when they ask for help.\<close>

fun compile_args :: "string \<Rightarrow> string option \<Rightarrow> string list \<Rightarrow> (cli_error, (string \<times> string option) option) result" where
  "compile_args cfg out [] = Ok (Some (cfg, out))"
| "compile_args cfg out (a # rest) =
     (if a = ''--help'' \<or> a = ''-h'' then Ok None
      else if a = ''--config'' then (case rest of [] \<Rightarrow> Err (MissingValue a) | v # r \<Rightarrow> compile_args v out r)
      else if a = ''-o'' \<or> a = ''--out'' then (case rest of [] \<Rightarrow> Err (MissingValue a) | v # r \<Rightarrow> compile_args cfg (Some v) r)
      else Err (UnknownArg a))"

definition run_compile ::
    "'k policy_lib \<Rightarrow> ('db, 'pool, 'msg) config_lib \<Rightarrow> (string \<Rightarrow> string) \<Rightarrow> (string \<Rightarrow> string option) \<Rightarrow> (string \<Rightarrow> bool)
     \<Rightarrow> string list \<Rightarrow> (cli_error, cli_effect) result" where
  "run_compile pl lib base_dir rd wr args =
     result_bind (compile_args ''ferroada.toml'' None args) (\<lambda>opts.
     case opts of
       None \<Rightarrow> Ok PrintedHelp
     | Some (cfg, out) \<Rightarrow>
         (case opt_filter utf8_valid (rd cfg) of
            None \<Rightarrow> Err (FileUnreadable cfg)
          | Some toml \<Rightarrow>
              (case compile_toml_blob pl lib rd toml (base_dir cfg) of
                 Inl e \<Rightarrow> Err (CompileFailed e)
               | Inr (blob, _) \<Rightarrow> write_output wr out blob)))"

fun sign_args ::
    "string option \<Rightarrow> string option \<Rightarrow> string option \<Rightarrow> string list
     \<Rightarrow> (cli_error, (string option \<times> string option \<times> string option) option) result" where
  "sign_args key inp out [] = Ok (Some (key, inp, out))"
| "sign_args key inp out (a # rest) =
     (if a = ''--help'' \<or> a = ''-h'' then Ok None
      else if a = ''--key'' then (case rest of [] \<Rightarrow> Err (MissingValue a) | v # r \<Rightarrow> sign_args (Some v) inp out r)
      else if a = ''--in'' then (case rest of [] \<Rightarrow> Err (MissingValue a) | v # r \<Rightarrow> sign_args key (Some v) out r)
      else if a = ''-o'' \<or> a = ''--out'' then (case rest of [] \<Rightarrow> Err (MissingValue a) | v # r \<Rightarrow> sign_args key inp (Some v) r)
      else Err (UnknownArg a))"

definition sign_input :: "(string \<Rightarrow> string option) \<Rightarrow> string option \<Rightarrow> string option \<Rightarrow> (cli_error, string) result" where
  "sign_input rd stdin inp =
     (case inp of
        Some p \<Rightarrow> (case rd p of Some bs \<Rightarrow> Ok bs | None \<Rightarrow> Err (FileUnreadable p))
      | None \<Rightarrow> read_stdin stdin)"

definition run_sign ::
    "'s signer_lib \<Rightarrow> (string \<Rightarrow> string option) \<Rightarrow> string option \<Rightarrow> (string \<Rightarrow> bool) \<Rightarrow> string list
     \<Rightarrow> (cli_error, cli_effect) result" where
  "run_sign sl rd stdin wr args =
     result_bind (sign_args None None None args) (\<lambda>opts.
     case opts of
       None \<Rightarrow> Ok PrintedHelp
     | Some (key_path, inp, out) \<Rightarrow>
         (case key_path of
            None \<Rightarrow> Err NoKeyArg
          | Some kp \<Rightarrow>
              (case rd kp of
                 None \<Rightarrow> Err (FileUnreadable kp)
               | Some pem \<Rightarrow>
                   result_bind (parse_private_key sl pem) (\<lambda>key.
                   result_bind (sign_input rd stdin inp) (\<lambda>blob.
                   case sl_sign sl key blob of
                     None \<Rightarrow> Err SignFailed
                   | Some sg \<Rightarrow>
                       (case out of
                          Some p \<Rightarrow> write_output wr (Some p) sg
                        | None \<Rightarrow> Ok (Printed (sl_b64_encode sl sg @ [CHR 0x0A]))))))))"

section \<open>Signed policies\<close>

text \<open>The policies a process can have: the one it boots with, and those after reloads. Names, the
  network and the files may change between loads; the environment does not.\<close>

inductive policy_run ::
    "'k policy_lib \<Rightarrow> env \<Rightarrow> ('db, 'pool, 'msg) config_lib itself \<Rightarrow> policy_origin \<Rightarrow> ('db, 'pool) live_policy \<Rightarrow> bool"
  for pl :: "'k policy_lib" and getenv :: env and ty :: "('db, 'pool, 'msg) config_lib itself" where
  booted: "policy_boot pl (lib :: ('db, 'pool, 'msg) config_lib) fs dir ex = Ok (orig, lp) \<Longrightarrow> cl_env lib = getenv
    \<Longrightarrow> policy_run pl getenv ty orig lp"
| reloaded: "policy_run pl getenv ty orig lp \<Longrightarrow> cl_env lib = getenv
    \<Longrightarrow> policy_run pl getenv ty orig (snd (try_reload pl (lib :: ('db, 'pool, 'msg) config_lib) orig fs dir lp))"

definition key_configured :: "env \<Rightarrow> bool" where
  "key_configured getenv = (case getenv ''FERROADA_POLICY_PUBKEY'' of Some raw \<Rightarrow> trim raw \<noteq> [] | None \<Rightarrow> False)"

definition signed_by_key :: "'k policy_lib \<Rightarrow> env \<Rightarrow> string \<Rightarrow> bool" where
  "signed_by_key pl getenv blob \<longleftrightarrow>
     (\<exists>raw key sg. getenv ''FERROADA_POLICY_PUBKEY'' = Some raw \<and> parse_public_key pl raw = Ok key
        \<and> pl_verify pl key blob sg = Some True)"

lemma verify_configured:
  assumes "verify_if_configured pl getenv rd blob = Ok sgd" and "key_configured getenv"
  shows "sgd \<and> signed_by_key pl getenv blob"
proof -
  from assms(2) obtain raw where raw: "getenv ''FERROADA_POLICY_PUBKEY'' = Some raw" "trim raw \<noteq> []"
    by (auto simp: key_configured_def split: option.splits)
  from assms(1) obtain key sg where key: "parse_public_key pl raw = Ok key"
    and v: "(case pl_verify pl key blob sg of None \<Rightarrow> Err VerifyFailed | Some ok \<Rightarrow> if ok then Ok True else Err BadSignature) = Ok sgd"
    unfolding verify_if_configured_def raw(1) option.case if_not_P [OF raw(2)] result_bind_eq_Ok by blast
  from v have "pl_verify pl key blob sg = Some True" "sgd" by (auto split: option.splits if_splits)
  with raw(1) key show ?thesis by (auto simp: signed_by_key_def)
qed

lemma live_from_config_Ok:
  assumes "live_from_config getenv dir cfg blob v sgd = Ok lp"
  shows "live_config lp = cfg \<and> live_version lp = v \<and> live_blob lp = blob \<and> live_signed lp = sgd
    \<and> live_spool lp = spool_from_config getenv (has_spool_routes cfg)"
  using assms by (auto simp: live_from_config_def split: sum.splits)

lemma load_toml_Ok:
  assumes "load_toml pl lib fs dir path base = Ok lp"
  obtains toml where "opt_filter utf8_valid (read_at fs 0 path) = Some toml"
    and "compile_toml_blob pl lib (read_at fs 1) toml base = Ok (live_blob lp, live_version lp)"
    and "verify_if_configured pl (cl_env lib) (read_at fs 2) (live_blob lp) = Ok (live_signed lp)"
    and "from_toml_in (lib\<lparr>cl_fs := fs 3\<rparr>) toml base = Some (live_config lp)"
proof -
  from assms obtain toml blob v sgd cfg where t: "opt_filter utf8_valid (read_at fs 0 path) = Some toml"
    "compile_toml_blob pl lib (read_at fs 1) toml base = Ok (blob, v)"
    "verify_if_configured pl (cl_env lib) (read_at fs 2) blob = Ok sgd"
    "from_toml_in (lib\<lparr>cl_fs := fs 3\<rparr>) toml base = Some cfg"
    "live_from_config (cl_env lib) dir cfg blob v sgd = Ok lp"
    by (auto simp: load_toml_def split: option.splits)
  from live_from_config_Ok [OF t(5)] t(1-4) show ?thesis by (intro that [of toml]) auto
qed

lemma origin_load_signed:
  assumes "origin_load pl lib orig fs dir = Ok lp" and "key_configured (cl_env lib)"
  shows "live_signed lp \<and> signed_by_key pl (cl_env lib) (live_blob lp)"
proof (cases orig)
  case (TomlOrigin path base)
  with assms(1) obtain toml where "verify_if_configured pl (cl_env lib) (read_at fs 2) (live_blob lp) = Ok (live_signed lp)"
    by (auto simp: origin_load_def elim: load_toml_Ok)
  from verify_configured [OF this assms(2)] show ?thesis .
next
  case EnvOrigin
  with assms(1) obtain blob sgd cfg v where "verify_if_configured pl (cl_env lib) (read_at fs 2) blob = Ok sgd"
    "live_from_config (cl_env lib) dir cfg blob v sgd = Ok lp"
    by (auto simp: origin_load_def load_env_def split: option.splits)
  with live_from_config_Ok verify_configured [OF _ assms(2)] show ?thesis by metis
qed (use assms in \<open>simp add: origin_load_def\<close>)

text \<open>C3. With a public key configured, only a signed policy ever runs: after the boot and any reloads,
  failed or not, the policy in memory is marked as signed and its blob has a signature that the key
  accepts. A reload that fails leaves the policy as it was.\<close>

theorem only_signed_policies_run:
  assumes "policy_run pl getenv (ty :: ('db, 'pool, 'msg) config_lib itself) orig lp" and "key_configured getenv"
  shows "live_signed lp \<and> signed_by_key pl getenv (live_blob lp)
    \<and> (\<forall>(lib :: ('db, 'pool, 'msg) config_lib) fs dir e. fst (try_reload pl lib orig fs dir lp) = Err e
         \<longrightarrow> snd (try_reload pl lib orig fs dir lp) = lp)"
proof -
  have "live_signed lp \<and> signed_by_key pl getenv (live_blob lp)"
    using assms
  proof (induction rule: policy_run.induct)
    case (booted lib fs dir ex orig lp)
    then have "origin_load pl lib orig fs dir = Ok lp"
      by (auto simp: policy_boot_def Let_def split: if_splits)
    with booted show ?case using origin_load_signed by metis
  next
    case (reloaded orig lp lib fs dir)
    show ?case
    proof (cases "origin_load pl lib orig fs dir")
      case (Inl e)
      with reloaded show ?thesis by (simp add: try_reload_def)
    next
      case (Inr new)
      with reloaded origin_load_signed [OF Inr] show ?thesis by (simp add: try_reload_def)
    qed
  qed
  then show ?thesis by (auto simp: try_reload_def split: sum.splits)
qed

section \<open>The version determines the configuration\<close>















section \<open>Signing and verifying\<close>

lemma trim_newline:
  assumes "s \<noteq> []" and "visible_ascii (hd s)" and "visible_ascii (last s)"
  shows "trim (s @ [CHR 0x0A]) = s"
proof -
  have ws: "\<forall>e \<in> set white_space. \<not> visible_ascii (hd e)"
    "\<forall>e \<in> set (map rev white_space). \<not> visible_ascii (hd e)"
    by (simp_all add: white_space_def visible_ascii_def)
  have start: "strip_codes white_space (s @ [CHR 0x0A]) = s @ [CHR 0x0A]"
    using ws(1) assms by (intro strip_codes_id) auto
  have "find (\<lambda>e. e \<noteq> [] \<and> starts_with (CHR 0x0A # rev s) e) (map rev white_space) = Some [CHR 0x0A]"
    by (simp add: white_space_def starts_with_iff)
  then have "strip_codes (map rev white_space) (CHR 0x0A # rev s) = strip_codes (map rev white_space) (rev s)"
    by (simp add: strip_codes.simps [of _ "CHR 0x0A # rev s"])
  also have "\<dots> = rev s" using ws(2) assms by (force intro!: strip_codes_id simp: hd_rev)
  finally show ?thesis by (simp add: trim_def trim_start_def trim_end_def start)
qed

lemma hex_pairs_length: "hex_pairs t = Some d \<Longrightarrow> length d = length t div 2"
  by (induction t arbitrary: d rule: hex_pairs.induct) (auto split: option.splits)

lemma hex_decode_length: "hex_decode t = Some d \<Longrightarrow> length d = length (trim t) div 2"
  by (auto simp: hex_decode_def Let_def hex_pairs_length split: if_splits)

text \<open>What the base64 crate promises: padded text of visible characters that decodes to its input.\<close>

definition base64_ok :: "'k policy_lib \<Rightarrow> 's signer_lib \<Rightarrow> bool" where
  "base64_ok pl sl \<longleftrightarrow> (\<forall>s. pl_base64 pl (sl_b64_encode sl s) = Some s
     \<and> length (sl_b64_encode sl s) = 4 * ((length s + 2) div 3) \<and> list_all visible_ascii (sl_b64_encode sl s))"

text \<open>What Ed25519 promises of a key pair.\<close>

definition key_pair :: "'k policy_lib \<Rightarrow> 's signer_lib \<Rightarrow> 's \<Rightarrow> 'k \<Rightarrow> bool" where
  "key_pair pl sl sk key \<longleftrightarrow>
     (\<forall>blob sg. sl_sign sl sk blob = Some sg \<longrightarrow> length sg = ED25519_SIG_LEN \<and> pl_verify pl key blob sg = Some True)"

lemma decode_printed_signature:
  assumes "base64_ok pl sl" and "length sg = ED25519_SIG_LEN"
  shows "decode_signature pl (sl_b64_encode sl sg @ [CHR 0x0A]) = Ok sg"
proof -
  let ?t = "sl_b64_encode sl sg"
  from assms have len: "length ?t = 88" and dec: "pl_base64 pl ?t = Some sg" and vis: "\<forall>c \<in> set ?t. visible_ascii c"
    by (auto simp: base64_ok_def ED25519_SIG_LEN_def list_all_iff)
  then have ne: "?t \<noteq> []" by auto
  with vis have ends: "visible_ascii (hd ?t)" "visible_ascii (last ?t)" by auto
  have "hex_decode ?t = Some d \<Longrightarrow> length d = 44" for d
    using hex_decode_length [of ?t d] trim_visible [OF ne ends] len by simp
  then have hex: "opt_filter (\<lambda>d. length d = ED25519_SIG_LEN) (hex_decode ?t) = None"
    by (auto simp: opt_filter_def ED25519_SIG_LEN_def split: option.splits)
  have "utf8_valid (?t @ [CHR 0x0A])"
    using vis by (intro utf8_valid_ascii) (auto simp: visible_ascii_def is_ascii_def)
  then show ?thesis
    using len dec hex trim_newline [OF ne ends] assms(2)
    by (simp add: decode_signature_def Let_def opt_filter_def ED25519_SIG_LEN_def)
qed

definition effect_bytes :: "cli_effect \<Rightarrow> string" where
  "effect_bytes e = (case e of WroteFile _ bs \<Rightarrow> bs | Printed t \<Rightarrow> t | PrintedHelp \<Rightarrow> [])"

text \<open>C40. What the sign command writes verifies. When \<open>ferroada policy sign\<close> signs a snapshot, the
  bytes it writes or the text it prints, stored as the signature file, let a load with the matching
  public key accept that snapshot.\<close>

theorem signed_snapshot_verifies:
  assumes "run_sign sl rd stdin wr args = Ok eff" and "sign_args None None None args = Ok (Some (Some kp, inp, out))"
    and "rd kp = Some pem" and "parse_private_key sl pem = Ok sk" and "sign_input rd stdin inp = Ok blob"
    and "base64_ok pl sl" and "key_pair pl sl sk key"
    and "getenv ''FERROADA_POLICY_PUBKEY'' = Some raw" and "trim raw \<noteq> []" and "parse_public_key pl raw = Ok key"
    and "rd' (signature_path getenv) = Some (effect_bytes eff)"
  shows "verify_if_configured pl getenv rd' blob = Ok True"
proof -
  from assms(1-5) obtain sg where sg: "sl_sign sl sk blob = Some sg"
    and eff: "effect_bytes eff = (case out of Some _ \<Rightarrow> sg | None \<Rightarrow> sl_b64_encode sl sg @ [CHR 0x0A])"
    by (auto simp: run_sign_def write_output_def effect_bytes_def split: option.splits if_splits)
  with assms(7) have ok: "length sg = ED25519_SIG_LEN" "pl_verify pl key blob sg = Some True"
    by (auto simp: key_pair_def)
  then have "decode_signature pl (effect_bytes eff) = Ok sg"
    using decode_printed_signature [OF assms(6) ok(1)] by (cases out) (simp_all add: eff decode_signature_def)
  with ok(2) assms(8-11) show ?thesis by (simp add: verify_if_configured_def read_signature_def)
qed

section \<open>Examples\<close>

text \<open>A library for the examples: the digest is the text itself, a snapshot is written with the lengths of
  its parts in front of them, a signature is the start of the text, and base64 is the codec of
  \<open>Waf_Engine\<close>.\<close>

definition with_count :: "nat \<Rightarrow> string \<Rightarrow> string" where
  "with_count n r = replicate n CHR ''1'' @ CHR ''0'' # r"

definition snapshot_text :: "policy_ir \<Rightarrow> string" where
  "snapshot_text ir =
     with_count (ir_format ir) (with_count (length (ir_source ir)) (ir_source ir @ with_count (length (ir_body ir)) (ir_body ir @
       with_count (length (ir_attachments ir))
         (concat (map (\<lambda>(k, d). with_count (length k) (k @ with_count (length d) d)) (ir_attachments ir))))))"

definition example_sign :: "string \<Rightarrow> string" where
  "example_sign blob = take 64 (blob @ replicate 64 CHR ''s'')"

definition b64_text :: "string \<Rightarrow> string" where
  "b64_text s = b64_encode (map (\<lambda>c. of_nat (byte_of c)) s)"

definition example_policy_lib :: "unit policy_lib" where
  "example_policy_lib =
     \<lparr>pl_sha256 = Some, pl_json = (\<lambda>ir. Some (snapshot_text ir)), pl_key_pem = (\<lambda>_. Some ()), pl_key_raw = (\<lambda>_. None),
      pl_verify = (\<lambda>_ blob sg. Some (sg = example_sign blob)),
      pl_base64 = (\<lambda>t. Some (map (\<lambda>w. char_of (unat w)) (b64_decode t)))\<rparr>"

definition example_signer_lib :: "unit signer_lib" where
  "example_signer_lib =
     \<lparr>sl_priv_pem = (\<lambda>pem. Some ()), sl_priv_raw = (\<lambda>_. None), sl_sign = (\<lambda>_ blob. Some (example_sign blob)),
      sl_b64_encode = b64_text\<rparr>"

lemma with_count_inj [simp]: "with_count n r = with_count m r' \<longleftrightarrow> n = m \<and> r = r'"
  by (induction n arbitrary: m; case_tac m) (auto simp: with_count_def)





lemma b64_encode_text: "length (b64_encode bs) = 4 * ((length bs + 2) div 3) \<and> list_all visible_ascii (b64_encode bs)"
proof -
  have "\<forall>c \<in> set b64_table. visible_ascii c" by (simp add: b64_table_def visible_ascii_def)
  moreover have "length b64_table = 64" by (simp add: b64_table_def)
  ultimately have c: "visible_ascii (b64_char n k)" for n k
    using six_bits [of "drop_bit k n"] by (simp add: b64_char_def)
  have pad: "visible_ascii CHR ''=''" by (simp add: visible_ascii_def)
  have more: "(length xs + 5) div 3 = Suc ((length xs + 2) div 3)" for xs :: bytes by simp
  show ?thesis
    by (induction bs rule: b64_encode.induct) (use c pad more in \<open>simp_all add: Let_def add.commute\<close>)
qed

lemma example_base64_ok: "base64_ok example_policy_lib example_signer_lib"
  using b64_encode_text by (simp add: base64_ok_def example_policy_lib_def example_signer_lib_def b64_text_def b64_round_trip o_def unat_of_nat)

lemma example_key_pair: "key_pair example_policy_lib example_signer_lib () ()"
  by (simp add: key_pair_def example_policy_lib_def example_signer_lib_def example_sign_def ED25519_SIG_LEN_def min_def)

lemma example_key: "parse_public_key example_policy_lib ''BEGIN'' = Ok ()" "trim ''BEGIN'' = ''BEGIN''"
proof -
  show t: "trim ''BEGIN'' = ''BEGIN''" by (rule trim_visible) (simp_all add: visible_ascii_def)
  have "str_contains (unescape_newlines ''BEGIN'') ''BEGIN''" by code_simp
  with t show "parse_public_key example_policy_lib ''BEGIN'' = Ok ()"
    by (simp add: parse_public_key_def example_policy_lib_def)
qed

text \<open>A signature printed to the terminal and stored with its line feed.\<close>

theorem signed_snapshot_verifies_witness:
  "verify_if_configured example_policy_lib (\<lambda>k. if k = ''FERROADA_POLICY_PUBKEY'' then Some ''BEGIN'' else None)
     (\<lambda>p. if p = ''ferroada.policy.sig'' then Some (b64_text (example_sign ''blob'') @ [CHR 0x0A]) else None) ''blob'' = Ok True"
proof -
  let ?rd = "\<lambda>p. if p = ''k'' then Some ''pem'' else if p = ''s'' then Some ''blob'' else None"
  let ?env = "\<lambda>k :: string. if k = ''FERROADA_POLICY_PUBKEY'' then Some ''BEGIN'' else None"
  have run: "run_sign example_signer_lib ?rd None (\<lambda>_. True) [''--key'', ''k'', ''--in'', ''s'']
      = Ok (Printed (b64_text (example_sign ''blob'') @ [CHR 0x0A]))"
    by (simp add: run_sign_def parse_private_key_def sign_input_def example_signer_lib_def)
  show ?thesis
    by (rule signed_snapshot_verifies [OF run, where kp = "''k''" and inp = "Some ''s''" and out = None and sk = "()" and key = "()"
          and raw = "''BEGIN''" and pem = "''pem''"])
      (use example_key example_base64_ok example_key_pair in
        \<open>simp_all add: parse_private_key_def sign_input_def example_signer_lib_def effect_bytes_def signature_path_def
          DEFAULT_SIG_def opt_filter_def\<close>)
qed

text \<open>A process with a target URL, a key and a signature that fits.\<close>

definition example_env :: env where
  "example_env = [''TARGET_URL'' \<mapsto> ''http://o'', ''FERROADA_POLICY_PUBKEY'' \<mapsto> ''BEGIN'']"

definition env_blob :: string where
  "env_blob = snapshot_text \<lparr>ir_format = 1, ir_source = ''env'', ir_body = ''TARGET_URL=http://o'', ir_attachments = []\<rparr>"

definition signature_files :: files where
  "signature_files _ = [DEFAULT_SIG \<mapsto> Some (example_sign env_blob)]"

lemma target_url_config:
  "\<exists>b. from_target_url (plain_lib\<lparr>cl_env := example_env, cl_fs := fs\<rparr>) ''http://o'' =
     Some \<lparr>route_table = [], backends = [b], default_idx = Some 0, config_protocols = matrix_default\<rparr> \<and> be_routes b = []"
proof -
  let ?lib = "plain_lib\<lparr>cl_env := example_env\<rparr>"
  have parts: "example_env ''WAF_REQUIRE_COMPLETE_PATHS'' = None" "default_profile example_env = Some Generic"
    "merge_inspection_routes example_env [] [] False = Some []" by code_simp+
  have url: "parse_origin_url ?lib ''http://o'' = Some \<lparr>ep_addr = SocketV4 1 80, ep_host = ''o'', ep_tls = False\<rparr>"
    by code_simp
  show ?thesis by (simp add: from_target_url_def parts url resolve_site_def)
qed

lemma example_verifies: "verify_if_configured example_policy_lib example_env (read_at signature_files 2) env_blob = Ok True"
proof -
  have path: "signature_path example_env = DEFAULT_SIG" by (simp add: signature_path_def example_env_def opt_filter_def)
  have "length (example_sign env_blob) = ED25519_SIG_LEN" by (simp add: example_sign_def ED25519_SIG_LEN_def min_def)
  with path show ?thesis
    by (simp add: verify_if_configured_def example_key example_env_def read_signature_def read_at_def signature_files_def
        decode_signature_def) (simp add: example_policy_lib_def)
qed

theorem only_signed_policies_run_witness:
  "\<exists>lp :: (unit, unit) live_policy.
     policy_run example_policy_lib example_env TYPE((unit, unit, unit) config_lib) EnvOrigin lp
     \<and> live_blob lp = env_blob \<and> live_signed lp \<and> signed_by_key example_policy_lib example_env (live_blob lp)"
proof -
  let ?lib = "plain_lib\<lparr>cl_env := example_env\<rparr>" and ?dir = "(IsDir, True, [])"
  have blob: "compile_ir example_policy_lib ''env'' (env_policy_body example_env ''http://o'') [] = Ok env_blob"
    by (simp add: compile_ir_def env_policy_body_def example_env_def example_policy_lib_def env_blob_def SNAPSHOT_FORMAT_def)
  have target: "example_env ''TARGET_URL'' = Some ''http://o''" by code_simp
  obtain b where "from_target_url (?lib\<lparr>cl_fs := signature_files 3\<rparr>) ''http://o'' =
      Some \<lparr>route_table = [], backends = [b], default_idx = Some 0, config_protocols = matrix_default\<rparr>" "be_routes b = []"
    using target_url_config by auto
  then obtain lp where lp: "policy_boot example_policy_lib ?lib signature_files ?dir False = Ok (EnvOrigin, lp)" "live_blob lp = env_blob"
    by (auto simp: policy_boot_def origin_load_def load_env_def target blob example_verifies live_from_config_def
        has_spool_routes_def boot_def)
  from lp(1) have run: "policy_run example_policy_lib example_env TYPE((unit, unit, unit) config_lib) EnvOrigin lp"
    by (rule policy_run.booted) simp
  have "key_configured example_env" by (simp add: key_configured_def example_env_def example_key)
  with only_signed_policies_run [OF run] run lp(2) show ?thesis by blast
qed


definition mtls_files :: "string \<Rightarrow> string option option" where
  "mtls_files = [''ferroada.toml'' \<mapsto> Some ''toml'', ''./c.pem'' \<mapsto> Some ''cert'', ''./k.pem'' \<mapsto> Some ''key'']"

lemma mtls_files_read [simp]:
  "mtls_files ''ferroada.toml'' = Some (Some ''toml'')" "mtls_files ''./c.pem'' = Some (Some ''cert'')"
  "mtls_files ''./k.pem'' = Some (Some ''key'')"
  by (simp_all add: mtls_files_def)





end
