(* ===== verification/Spec2Isabelle.thy ===== *)
theory Spec2Isabelle
  imports Client_Ip Rate_Limit Protocol_Matrix Proxy_Protocol Connection_Filter Grpc_Gate Dlp Spool Graphql_Gate Authz Shield Upstream_Headers Waf_L1 Site_Policy Behavioral Abuse Openapi_Schema Openapi Waf_Engine Origin Config_Load Policy
begin

text \<open>
  Ferroada is a reverse proxy that inspects requests and responses for the sites behind it. A
  connection is filtered by address (\<open>connection.rs\<close>), may carry a PROXY header
  (\<open>proxy_protocol.rs\<close>) and yields requests. The request filter of \<open>proxy.rs\<close> resolves the client
  address (\<open>client_ip.rs\<close>), applies the protocol matrix (\<open>protocol.rs\<close>), the checks of
  \<open>shield.rs\<close>, the rate limit (\<open>rate_limit.rs\<close>), behaviour and abuse scores (\<open>behavioral.rs\<close>,
  \<open>abuse.rs\<close>), identity and authorization (\<open>jwt.rs\<close>, \<open>authz.rs\<close>), the OpenAPI, GraphQL and gRPC
  gates (\<open>openapi.rs\<close>, \<open>graphql.rs\<close>, \<open>grpc.rs\<close>) and the inspection of the body (\<open>waf.rs\<close>, the rule
  engine of \<open>waf_engine.rs\<close> and \<open>waf_l1.rs\<close>), which may be held on disk (\<open>spool.rs\<close>). Responses
  are redacted by \<open>dlp.rs\<close>. The policy of a site and a path comes from
  \<open>config.rs\<close>, as a snapshot of \<open>policy.rs\<close>; the origin of a request is chosen by \<open>origin.rs\<close>.

  \<^bold>\<open>Conventions.\<close> A \<open>str\<close> and a body are the list of their bytes (\<open>string\<close>); the wire bytes of PROXY
  and gRPC are \<open>8 word\<close> lists. \<open>Result\<close> is a sum, \<open>None\<close> stands for a panic where a component says
  so. Errors are constructors in place of message texts. A clock reading is an argument or a
  numbered point of a clock function, in nanoseconds unless a theory says otherwise. A hash map is
  an association list. Third-party code is an argument: regular expressions, JSON and YAML,
  compressors, SHA-256, OpenSSL, base64 in \<open>jwt.rs\<close>, Unicode case tables, the address database. The
  standard library is modelled (\<open>Prelude\<close>, \<open>Rust_Net\<close>, \<open>Rust_Utf8\<close>, \<open>Rust_Text\<close>, \<open>Assoc_Maps\<close>,
  \<open>Header_Map\<close>, \<open>Json_Value\<close>).

  \<^bold>\<open>Theories and code.\<close>

  \<^item> \<open>Client_Ip\<close> (\<open>client_ip.rs\<close>): trusted networks and the client address from X-Forwarded-For and
    Forwarded. What an untrusted peer sends is ignored, and so is what a client prepends.

  \<^item> \<open>Sliding_Window\<close>, \<open>Rate_Limit\<close> (\<open>rate_limit.rs\<close>): the window contract as a locale, its
    interpretation on the limiter, the bound on admitted requests over any run.

  \<^item> \<open>Protocol_Matrix\<close> (\<open>protocol.rs\<close>): loading the matrix, classifying a request, the verdict.

  \<^item> \<open>Proxy_Protocol\<close> (\<open>proxy_protocol.rs\<close>): version 2 headers, round trip with an encoder, the reader
    against the parser.

  \<^item> \<open>Connection_Filter\<close> (\<open>connection.rs\<close>): connection counts and rates as runs of operations.

  \<^item> \<open>Route_Path\<close> (\<open>config.rs\<close>): canonical paths, prefixes, sizes. \<open>Site_Policy\<close> (\<open>config.rs\<close>): inspection
    rules, patches, routes and their lookup; a loaded policy never panics on a request.

  \<^item> \<open>Grpc_Gate\<close> (\<open>grpc.rs\<close>): frames, deadlines and the gate.

  \<^item> \<open>Waf_Decode\<close>, \<open>Waf_Inspection\<close> (\<open>waf.rs\<close>): the decoding passes, inflation within its budget, the
    inspection of headers and bodies; \<open>Waf_L1\<close> (\<open>waf_l1.rs\<close>) and \<open>Waf_Engine\<close> (\<open>waf_engine.rs\<close>,
    \<open>apply_l1\<close>): settings, exclusions and the exchange with the engine, which fails closed.

  \<^item> \<open>Dlp\<close> (\<open>dlp.rs\<close>): card numbers, fields of JSON bodies, streaming redaction.

  \<^item> \<open>Spool\<close> (\<open>spool.rs\<close>): the accounting of the disk quota and the replay of a held body.

  \<^item> \<open>Graphql_Parser\<close>, \<open>Graphql_Limits\<close>, \<open>Graphql_Gate\<close> (\<open>graphql.rs\<close>): lexer and parser with a printer and
    a round trip, the analysis of depth and cost against the expanded query, the gate and its quota.

  \<^item> \<open>Jwt_Keys\<close>, \<open>Jwt\<close> (\<open>jwt.rs\<close>): key sets and their cache, token checks, bindings, single use.
    \<open>Authz\<close> (\<open>authz.rs\<close>, \<open>apply_jwt_identity\<close>, \<open>apply_authz\<close>): the question to the service and the
    composition with the identity.

  \<^item> \<open>Shield\<close> (\<open>shield.rs\<close>): framing, host, method and signature checks. \<open>Upstream_Headers\<close> (\<open>proxy.rs\<close>):
    the headers of the request to the origin.

  \<^item> \<open>Behavioral\<close> (\<open>behavioral.rs\<close>), \<open>Abuse\<close> (\<open>abuse.rs\<close>): profiles, scores and bans; quotas by identity.

  \<^item> \<open>Openapi_Schema\<close>, \<open>Openapi\<close> (\<open>openapi.rs\<close>): the schema checker, compiling a document, matching and
    checking a request. A locale states what a failure may name; it is interpreted on the checker.

  \<^item> \<open>Origin\<close> (\<open>origin.rs\<close>, \<open>proxy.rs\<close>): circuit breakers, health, the choice of an origin and retries.

  \<^item> \<open>Config_Load\<close> (\<open>config.rs\<close>): building the configuration from a file or a target URL, the table of hosts, and
    the files a configuration reads. A host reaches its own site; only the named files matter.

  \<^item> \<open>Policy\<close> (\<open>policy.rs\<close>): snapshots, versions, signatures, boot and reload as runs, and the commands that
    compile and sign a snapshot. Only signed policies run when a key is configured, the version
    determines the configuration, and what the sign command writes verifies.

  \<^bold>\<open>Bounds and fuel.\<close> Loops of the source that count down (the eight decoding passes, the reference and
  schema depth of 32, the GraphQL depth) keep their count. Other loops recurse on their data or have a
  termination proof with a measure. \<open>Openapi.freeze\<close> and \<open>Waf_Engine.boot_loop\<close> may run on and are
  partial functions; the second is shown to return under a clock that advances, the first not to
  return on a cycle of references. The GraphQL parser has fuel, and enough fuel is shown to exist for
  every document.

  \<^bold>\<open>Not modelled.\<close> The sequence of the checks in \<open>request_filter\<close>, the budgets of a request and the filters for
  bodies and responses in \<open>proxy.rs\<close>: they act on a session of pingora, and only the steps they call
  are modelled. The administration surface (\<open>dashboard.rs\<close>, \<open>dashboard_auth.rs\<close>, \<open>dashboard_oidc.rs\<close>,
  \<open>dashboard_audit.rs\<close>), a service of its own beside the proxy. The operator commands \<open>cidrs.rs\<close>,
  \<open>init\<close> and \<open>healthcheck.rs\<close>, which download and write files. \<open>metrics.rs\<close> and \<open>otel.rs\<close>, which the checks
  write and never read. \<open>tls_fingerprint.rs\<close>, \<open>listen.rs\<close>, \<open>headers.rs\<close> and \<open>main.rs\<close>: callbacks of libraries and
  wiring. Of \<open>policy.rs\<close> the pid file and the signal that asks for a reload. Log texts and metrics are
  left out everywhere.
\<close>

end
